(* ===== verification/DFS_Prelude.thy ===== *)
theory DFS_Prelude
  imports Main
begin

text \<open>
  What every component of the development shares: the reasons a C run can stop
  abnormally, the state monad with those errors in which the C functions are written,
  signed 32-bit counters, and list facts used by several components.
\<close>

section \<open>Collections of facts\<close>

named_theorems cm_defs \<open>definitions of the C operations, unfolded for symbolic execution\<close>
named_theorems cm_run \<open>what one C operation computes, as an equation or a rule\<close>

section \<open>C runs: a state monad with errors\<close>

text \<open>
  A C function is a function from a state to either the reason why the run has no further
  defined behaviour, or a result and the new state. The reasons are the undefined
  behaviours the sources can meet, a mutex locked twice by one thread, a call stack that
  overflows, a wait for the kernel or the peer that goes on, \<open>exit(EXIT_FAILURE)\<close>, a failed
  assertion, and a remainder by zero.
\<close>

datatype c_error =
    NullDeref
  | UseAfterFree
  | InvalidFree
  | OutOfBounds
  | Uninitialised
  | TypeConfusion
  | IntOverflow
  | SelfDeadlock
  | UnlockNotHeld
  | StackOverflow
  | Blocked
  | ExitFailure
  | AssertFailed
  | DivideByZero

type_synonym ('s, 'a) cm = "'s \<Rightarrow> c_error + 'a \<times> 's"

definition cret :: "'a \<Rightarrow> ('s, 'a) cm" where
  "cret x s = Inr (x, s)"

definition cfail :: "c_error \<Rightarrow> ('s, 'a) cm" where
  "cfail e s = Inl e"

definition cbind :: "('s, 'a) cm \<Rightarrow> ('a \<Rightarrow> ('s, 'b) cm) \<Rightarrow> ('s, 'b) cm" where
  "cbind m f s = (case m s of Inl e \<Rightarrow> Inl e | Inr (x, s') \<Rightarrow> f x s')"

definition cget :: "('s \<Rightarrow> 'a) \<Rightarrow> ('s, 'a) cm" where
  "cget f s = Inr (f s, s)"

definition cput :: "('s \<Rightarrow> 's) \<Rightarrow> ('s, unit) cm" where
  "cput f s = Inr ((), f s)"

lemma cret_apply [simp]: "cret x s = Inr (x, s)"
  by (simp add: cret_def)

lemma cfail_apply [simp]: "cfail e s = Inl e"
  by (simp add: cfail_def)

lemma cget_apply [simp]: "cget f s = Inr (f s, s)"
  by (simp add: cget_def)

lemma cput_apply [simp]: "cput f s = Inr ((), f s)"
  by (simp add: cput_def)

lemma cbind_Inr: "m s = Inr (x, s') \<Longrightarrow> cbind m f s = f x s'"
  by (simp add: cbind_def)

lemma cbind_Inl: "m s = Inl e \<Longrightarrow> cbind m f s = Inl e"
  by (simp add: cbind_def)

lemma cbind_InrD:
  "cbind m f s = Inr r \<Longrightarrow> \<exists>x s'. m s = Inr (x, s') \<and> f x s' = Inr r"
  by (auto simp: cbind_def split: sum.splits)

lemma cbind_cret [simp]: "cbind (cret x) f = f x"
  by (rule ext) (simp add: cbind_def)

lemma cbind_cget [simp]: "cbind (cget g) f s = f (g s) s"
  by (simp add: cbind_def)

lemma cbind_cput [simp]: "cbind (cput g) f s = f () (g s)"
  by (simp add: cbind_def)

lemma cbind_cfail [simp]: "cbind (cfail e) f s = Inl e"
  by (simp add: cbind_def)

lemma cbind_assoc: "cbind (cbind m f) g = cbind m (\<lambda>x. cbind (f x) g)"
  by (rule ext) (auto simp: cbind_def split: sum.splits)

text \<open>
  The loops \<open>for (i = a; i < a + k; i++)\<close>, and the same loop collecting what each
  round reads.
\<close>

primrec for_up :: "nat \<Rightarrow> nat \<Rightarrow> (nat \<Rightarrow> ('s, unit) cm) \<Rightarrow> ('s, unit) cm" where
  "for_up a 0 f = cret ()"
| "for_up a (Suc k) f = cbind (f a) (\<lambda>_. for_up (Suc a) k f)"

primrec collect_up :: "nat \<Rightarrow> nat \<Rightarrow> (nat \<Rightarrow> ('s, 'a) cm) \<Rightarrow> ('s, 'a list) cm" where
  "collect_up a 0 f = cret []"
| "collect_up a (Suc k) f =
     cbind (f a) (\<lambda>x. cbind (collect_up (Suc a) k f) (\<lambda>xs. cret (x # xs)))"

lemma cbind_cret_unit [simp]: "cbind m (\<lambda>_. cret ()) = (m :: ('s, unit) cm)"
  by (rule ext) (auto simp: cbind_def split: sum.split)

text \<open>The last round of a loop, and a loop whose round \<open>i\<close> is the first to fail.\<close>

lemma for_up_Suc_right: "for_up a (Suc k) f = cbind (for_up a k f) (\<lambda>_. f (a + k))"
proof (induction k arbitrary: a)
  case 0
  have "cbind (f a) (\<lambda>_. cret ()) = f a" by (rule cbind_cret_unit)
  then show ?case by (simp only: for_up.simps cbind_cret add_0_right)
next
  case (Suc k)
  have "for_up a (Suc (Suc k)) f = cbind (f a) (\<lambda>_. cbind (for_up (Suc a) k f) (\<lambda>_. f (Suc a + k)))"
    unfolding Suc[of "Suc a", symmetric] by simp
  then show ?case by (simp add: cbind_assoc)
qed

lemma collect_up_fail:
  assumes "\<And>j. j < i \<Longrightarrow> f (a + j) s = Inr (xs j, s)" "f (a + i) s = Inl e" "i < k"
  shows "collect_up a k f s = Inl e"
  using assms
proof (induction i arbitrary: a k xs)
  case 0
  then show ?case by (cases k) (simp_all add: cbind_def)
next
  case (Suc i)
  from Suc.prems(3) obtain k' where k: "k = Suc k'" by (cases k) auto
  have "collect_up (Suc a) k' f s = Inl e"
  proof (rule Suc.IH)
    show "f (Suc a + j) s = Inr (xs (Suc j), s)" if "j < i" for j using Suc.prems(1)[of "Suc j"] that by simp
    show "f (Suc a + i) s = Inl e" using Suc.prems(2) by simp
    show "i < k'" using Suc.prems(3) k by simp
  qed
  then show ?case using Suc.prems(1)[of 0] k by (simp add: cbind_def)
qed

text \<open>A loop whose rounds only read returns the list of what they read.\<close>

lemma collect_up_read:
  "(\<And>j. j < length xs \<Longrightarrow> f (a + j) s = Inr (xs ! j, s)) \<Longrightarrow>
   collect_up a (length xs) f s = Inr (xs, s)"
proof (induction xs arbitrary: a)
  case Nil
  then show ?case by simp
next
  case (Cons x xs)
  have first: "f a s = Inr (x, s)" using Cons.prems[of 0] by simp
  have "f (Suc a + j) s = Inr (xs ! j, s)" if "j < length xs" for j
    using Cons.prems[of "Suc j"] that by simp
  then have "collect_up (Suc a) (length xs) f s = Inr (xs, s)" by (rule Cons.IH)
  then show ?case by (simp add: cbind_def first)
qed

section \<open>Signed 32-bit counters\<close>

text \<open>
  The counters \<open>num_chunks\<close> and \<open>num_file_count\<close> and the chunk ids are C
  \<open>int\<close>s. They are HOL integers here, and an increment past \<open>INT_MAX\<close> is the
  undefined behaviour it is in C.
\<close>

definition int_max :: int where "int_max = 2147483647"
definition int_min :: int where "int_min = - 2147483648"

definition in_int :: "int \<Rightarrow> bool" where
  "in_int n \<longleftrightarrow> int_min \<le> n \<and> n \<le> int_max"

definition int_succ :: "int \<Rightarrow> ('s, int) cm" where
  "int_succ n = (if n < int_max then cret (n + 1) else cfail IntOverflow)"

lemma int_succ_ok [cm_run]: "n < int_max \<Longrightarrow> int_succ n s = Inr (n + 1, s)"
  by (simp add: int_succ_def)

section \<open>Lists\<close>

lemma list_update_take_last:
  "xs \<noteq> [] \<Longrightarrow> xs[length xs - 1 := x] = butlast xs @ [x]"
  by (induction xs rule: rev_induct) auto

lemma nth_last_index: "xs \<noteq> [] \<Longrightarrow> xs ! (length xs - 1) = last xs"
  by (simp add: last_conv_nth)

lemma distinct_concat_map_butlast:
  "distinct (concat (map f xs)) \<Longrightarrow> distinct (concat (map f (butlast xs)))"
  by (induction xs rule: rev_induct) auto

end
