(* ===== verification/Proto_Data.thy ===== *)
theory Proto_Data
  imports DFS_Prelude
begin

text \<open>
  The messages of data.proto: what a storage node says to the master (a join or a health
  report) and what the master says to a node. The wire format is the business of
  libprotobuf-c and prost, which are not part of the repository, so packing and unpacking
  are parameters of the functions that use them.
\<close>

section \<open>Messages\<close>

type_synonym byte = nat

text \<open>\<open>FileMappings\<close>: the file name and the ids of its chunks.\<close>

record FileMappings =
  mapping_filename :: string
  mapping_chunk_ids :: "int list"

text \<open>
  \<open>MessageFromStorageToMaster\<close>: its \<open>oneof\<close> is a join, a health report, or not set.
\<close>

datatype msg_type =
    MsgNotSet
  | MsgJoin
  | MsgHealth "FileMappings list"

text \<open>\<open>MessageFromMasterToStorage\<close>.\<close>

record MessageFromMasterToStorage =
  msg_id :: string

text \<open>
  A message object of the generated C code: the descriptor its \<open>base\<close> points to, and its
  fields with everything they point to.
\<close>

datatype descriptor =
    JoinDescriptor
  | FileMappingsDescriptor
  | HealthDescriptor
  | MasterDescriptor
  | StorageDescriptor

datatype payload =
    JoinP
  | FileMappingsP FileMappings
  | HealthP "FileMappings list"
  | MasterP MessageFromMasterToStorage
  | StorageP msg_type

record message =
  base_descriptor :: descriptor
  payload :: payload

text \<open>The codec of the storage node's messages: packed size and packed bytes.\<close>

type_synonym packed_size = "msg_type \<Rightarrow> nat"
type_synonym packer = "msg_type \<Rightarrow> byte list"

end
