(* ===== verification/C_Heap.thy ===== *)
theory C_Heap
  imports Proto_Data
begin

text \<open>
  The C allocator as the storage node uses it: blocks of one of the node's layouts at
  positive addresses, \<open>malloc\<close>, \<open>realloc\<close>, \<open>strdup\<close> and
  \<open>free\<close>, and the loads and stores that check the pointer first. Any allocation
  may fail: \<open>oom n\<close> decides whether the allocation numbered \<open>n\<close> returns
  \<open>NULL\<close>, and every statement is for all \<open>oom\<close>. A \<open>realloc\<close> that
  succeeds always moves the block, so a pointer kept across it dangles, as the C standard
  says it does.
\<close>

section \<open>Blocks and the heap\<close>

type_synonym ptr = nat

abbreviation NULL :: ptr where "NULL \<equiv> 0"

text \<open>\<open>FileStateCurrentInner\<close> of headers/fileState.h.\<close>

record file_rec =
  file_path :: ptr
  chunk_ids :: ptr
  num_chunks :: int

text \<open>\<open>connection_info_t\<close> of headers/fileState.h.\<close>

record conn_info =
  conn_data :: ptr
  conn_size :: nat

text \<open>
  \<open>Data__FileMappings\<close> of the generated header, the fields the node sets: the string,
  the array and its length.
\<close>

record mapping_rec =
  fm_filename :: ptr
  fm_chunk_ids :: ptr
  fm_n_chunk_ids :: int

text \<open>
  \<open>Tcp_thread_args_t\<close>: the arguments of both threads. The stop flag it points to is a
  variable of \<open>main\<close>.
\<close>

record tcp_args =
  arg_socket_fd :: int
  arg_state :: ptr

text \<open>
  The fields of a \<open>StorageStateOuter\<close> are globals of the model, its block only says that
  it is there. An array element is \<open>None\<close> until it is first written.\<close>

datatype block =
    StrB string
  | IntB "int option list"
  | RecB "file_rec option list"
  | ByteB "byte option list"
  | ConnB "conn_info option"
  | MapB "mapping_rec option"
  | PtrB "ptr option list"
  | MsgB "message option"
  | StateB
  | ArgsB "tcp_args option"

record heap =
  mem :: "ptr \<Rightarrow> block option"
  brk :: ptr
  oom :: "nat \<Rightarrow> bool"

type_synonym ('h, 'a) hm = "('h heap_scheme, 'a) cm"

section \<open>Allocation\<close>

definition malloc_block :: "block \<Rightarrow> ('h, ptr) hm" where
  "malloc_block b s =
     (if oom s (brk s) then Inr (NULL, s\<lparr>brk := Suc (brk s)\<rparr>)
      else Inr (brk s, s\<lparr>mem := (mem s)(brk s \<mapsto> b), brk := Suc (brk s)\<rparr>))"

definition strdup :: "string \<Rightarrow> ('h, ptr) hm" where
  "strdup str = malloc_block (StrB str)"

definition c_free :: "ptr \<Rightarrow> ('h, unit) hm" where
  "c_free p s =
     (if p = NULL then Inr ((), s)
      else if mem s p = None then Inl InvalidFree
      else Inr ((), s\<lparr>mem := (mem s)(p := None)\<rparr>))"

definition load :: "ptr \<Rightarrow> ('h, block) hm" where
  "load p s =
     (if p = NULL then Inl NullDeref
      else case mem s p of None \<Rightarrow> Inl UseAfterFree | Some b \<Rightarrow> Inr (b, s))"

text \<open>The old elements are kept, the new ones are uninitialised.\<close>

definition resize :: "nat \<Rightarrow> 'a option list \<Rightarrow> 'a option list" where
  "resize n xs = take n xs @ replicate (n - length xs) None"

fun resize_block :: "nat \<Rightarrow> block \<Rightarrow> block" where
  "resize_block n (IntB xs) = IntB (resize n xs)"
| "resize_block n (RecB xs) = RecB (resize n xs)"
| "resize_block n (ByteB xs) = ByteB (resize n xs)"
| "resize_block n (PtrB xs) = PtrB (resize n xs)"
| "resize_block n b = b"

text \<open>
  \<open>realloc(p, n * sizeof(*p))\<close>; \<open>fresh\<close> is the layout of the block when
  \<open>p\<close> is \<open>NULL\<close>. On failure the old block stays and \<open>NULL\<close> is returned.
\<close>

definition realloc_block :: "ptr \<Rightarrow> block \<Rightarrow> nat \<Rightarrow> ('h, ptr) hm" where
  "realloc_block p fresh n s =
     (if p = NULL then malloc_block (resize_block n fresh) s
      else case mem s p of
        None \<Rightarrow> Inl InvalidFree
      | Some b \<Rightarrow>
          if oom s (brk s) then Inr (NULL, s\<lparr>brk := Suc (brk s)\<rparr>)
          else Inr (brk s, s\<lparr>mem := (mem s)(p := None, brk s \<mapsto> resize_block n b),
                            brk := Suc (brk s)\<rparr>))"

section \<open>Typed loads and stores\<close>

definition store :: "ptr \<Rightarrow> block \<Rightarrow> ('h, unit) hm" where
  "store p b = cput (\<lambda>s. s\<lparr>mem := (mem s)(p \<mapsto> b)\<rparr>)"

definition read_elem :: "'a option list \<Rightarrow> int \<Rightarrow> ('s, 'a) cm" where
  "read_elem xs i =
     (if 0 \<le> i \<and> i < int (length xs)
      then (case xs ! nat i of None \<Rightarrow> cfail Uninitialised | Some x \<Rightarrow> cret x)
      else cfail OutOfBounds)"

definition load_str :: "ptr \<Rightarrow> ('h, string) hm" where
  "load_str p = cbind (load p) (\<lambda>b. case b of StrB x \<Rightarrow> cret x | _ \<Rightarrow> cfail TypeConfusion)"

definition load_recs :: "ptr \<Rightarrow> ('h, file_rec option list) hm" where
  "load_recs p = cbind (load p) (\<lambda>b. case b of RecB xs \<Rightarrow> cret xs | _ \<Rightarrow> cfail TypeConfusion)"

definition load_ints :: "ptr \<Rightarrow> ('h, int option list) hm" where
  "load_ints p = cbind (load p) (\<lambda>b. case b of IntB xs \<Rightarrow> cret xs | _ \<Rightarrow> cfail TypeConfusion)"

definition read_rec :: "ptr \<Rightarrow> int \<Rightarrow> ('h, file_rec) hm" where
  "read_rec p i = cbind (load_recs p) (\<lambda>xs. read_elem xs i)"

definition write_rec :: "ptr \<Rightarrow> int \<Rightarrow> file_rec \<Rightarrow> ('h, unit) hm" where
  "write_rec p i r = cbind (load_recs p) (\<lambda>xs.
     if 0 \<le> i \<and> i < int (length xs) then store p (RecB (xs[nat i := Some r]))
     else cfail OutOfBounds)"

definition read_int :: "ptr \<Rightarrow> int \<Rightarrow> ('h, int) hm" where
  "read_int p i = cbind (load_ints p) (\<lambda>xs. read_elem xs i)"

definition write_int :: "ptr \<Rightarrow> int \<Rightarrow> int \<Rightarrow> ('h, unit) hm" where
  "write_int p i x = cbind (load_ints p) (\<lambda>xs.
     if 0 \<le> i \<and> i < int (length xs) then store p (IntB (xs[nat i := Some x]))
     else cfail OutOfBounds)"

text \<open>\<open>memcpy(p + off, bytes, n)\<close>.\<close>

definition copy_bytes :: "ptr \<Rightarrow> nat \<Rightarrow> byte list \<Rightarrow> ('h, unit) hm" where
  "copy_bytes p off bytes = cbind (load p) (\<lambda>b. case b of
     ByteB xs \<Rightarrow>
       if off + length bytes \<le> length xs
       then store p (ByteB (take off xs @ map Some bytes @ drop (off + length bytes) xs))
       else cfail OutOfBounds
   | _ \<Rightarrow> cfail TypeConfusion)"

text \<open>An array of pointers, and the record of a message's file mapping.\<close>

definition load_ptrs :: "ptr \<Rightarrow> ('h, ptr option list) hm" where
  "load_ptrs p = cbind (load p) (\<lambda>b. case b of PtrB xs \<Rightarrow> cret xs | _ \<Rightarrow> cfail TypeConfusion)"

definition read_ptr :: "ptr \<Rightarrow> int \<Rightarrow> ('h, ptr) hm" where
  "read_ptr p i = cbind (load_ptrs p) (\<lambda>xs. read_elem xs i)"

definition write_ptr :: "ptr \<Rightarrow> int \<Rightarrow> ptr \<Rightarrow> ('h, unit) hm" where
  "write_ptr p i q = cbind (load_ptrs p) (\<lambda>xs.
     if 0 \<le> i \<and> i < int (length xs) then store p (PtrB (xs[nat i := Some q]))
     else cfail OutOfBounds)"

definition read_mapping :: "ptr \<Rightarrow> ('h, mapping_rec) hm" where
  "read_mapping p = cbind (load p) (\<lambda>b. case b of
     MapB (Some r) \<Rightarrow> cret r
   | MapB None \<Rightarrow> cfail Uninitialised
   | _ \<Rightarrow> cfail TypeConfusion)"

definition write_mapping :: "ptr \<Rightarrow> mapping_rec \<Rightarrow> ('h, unit) hm" where
  "write_mapping p r = cbind (load p) (\<lambda>b. case b of
     MapB _ \<Rightarrow> store p (MapB (Some r))
   | _ \<Rightarrow> cfail TypeConfusion)"

lemmas load_defs [cm_defs] =
  load_str_def load_recs_def load_ints_def read_rec_def write_rec_def read_int_def
  write_int_def store_def load_def

section \<open>What the allocator keeps\<close>

text \<open>Addresses in use are positive and below the next fresh one.\<close>

definition heap_ok :: "'h heap_scheme \<Rightarrow> bool" where
  "heap_ok s \<longleftrightarrow> 0 < brk s \<and> (\<forall>p b. mem s p = Some b \<longrightarrow> 0 < p \<and> p < brk s)"

lemma heap_okD:
  assumes "heap_ok s" "mem s p = Some b"
  shows "0 < p" "p < brk s" "p \<noteq> brk s"
  using assms by (auto simp: heap_ok_def)

lemma heap_ok_fresh: "heap_ok s \<Longrightarrow> mem s (brk s) = None"
  by (cases "mem s (brk s)") (auto simp: heap_ok_def)

lemma heap_ok_brk: "heap_ok s \<Longrightarrow> 0 < brk s"
  by (simp add: heap_ok_def)

lemma length_resize [simp]: "length (resize n xs) = n"
  by (simp add: resize_def)

lemma resize_Suc: "resize (Suc (length xs)) xs = xs @ [None]"
  by (simp add: resize_def)

lemma take_resize: "m \<le> n \<Longrightarrow> m \<le> length xs \<Longrightarrow> take m (resize n xs) = take m xs"
  by (simp add: resize_def min_def)

lemma nth_resize: "i < n \<Longrightarrow> i < length xs \<Longrightarrow> resize n xs ! i = xs ! i"
  by (simp add: resize_def nth_append)

lemma resize_same: "n \<le> length xs \<Longrightarrow> resize n xs = take n xs"
  by (simp add: resize_def)

end
