(* ===== verification/File_State.thy ===== *)
theory File_State
  imports C_Heap
begin

text \<open>
  state/fileState.c: the in-memory catalogue of the storage node, an array of file records
  under one mutex, each record owning its path string and its array of chunk ids.
\<close>

section \<open>State and lock\<close>

text \<open>
  \<open>StorageStateOuter\<close>; \<open>locked\<close> is the mutex, seen from the one thread that runs
  the operation.
\<close>

record StorageStateOuter = heap +
  file_to_chunk_state :: ptr
  num_file_count :: int
  locked :: bool

type_synonym ('h, 'a) sm = "('h StorageStateOuter_scheme, 'a) cm"

definition mutex_lock :: "('h, unit) sm" where
  "mutex_lock s = (if locked s then Inl SelfDeadlock else Inr ((), s\<lparr>locked := True\<rparr>))"

definition mutex_unlock :: "('h, unit) sm" where
  "mutex_unlock s = (if locked s then Inr ((), s\<lparr>locked := False\<rparr>) else Inl UnlockNotHeld)"

definition storage_state_init :: "('h, unit) sm" where
  "storage_state_init =
     cput (\<lambda>s. s\<lparr>locked := False, file_to_chunk_state := NULL, num_file_count := 0\<rparr>)"

definition free_file_at :: "ptr \<Rightarrow> nat \<Rightarrow> ('h heap_scheme, unit) cm" where
  "free_file_at base i =
     cbind (read_rec base (int i)) (\<lambda>r.
     cbind (c_free (file_path r)) (\<lambda>_. c_free (chunk_ids r)))"

definition storage_state_destroy :: "('h, unit) sm" where
  "storage_state_destroy =
     cbind mutex_lock (\<lambda>_.
     cbind (cget (\<lambda>s. (file_to_chunk_state s, nat (num_file_count s)))) (\<lambda>(base, n).
     cbind (for_up 0 n (free_file_at base)) (\<lambda>_.
     cbind (c_free base) (\<lambda>_.
     mutex_unlock))))"

section \<open>Reading the whole state\<close>

text \<open>
  \<open>print_storage_state\<close> walks the catalogue under the lock; the result here is what it
  prints, file by file, the text around it left out.
\<close>

definition read_file_entry :: "ptr \<Rightarrow> nat \<Rightarrow> ('h heap_scheme, string \<times> int list) cm" where
  "read_file_entry base i =
     cbind (read_rec base (int i)) (\<lambda>r.
     cbind (load_str (file_path r)) (\<lambda>path.
     cbind (collect_up 0 (nat (num_chunks r)) (\<lambda>j. read_int (chunk_ids r) (int j))) (\<lambda>ids.
     cret (path, ids))))"

definition print_storage_state :: "('h, (string \<times> int list) list) sm" where
  "print_storage_state =
     cbind mutex_lock (\<lambda>_.
     cbind (cget (\<lambda>s. (file_to_chunk_state s, nat (num_file_count s)))) (\<lambda>(base, n).
     cbind (collect_up 0 n (read_file_entry base)) (\<lambda>printed.
     cbind mutex_unlock (\<lambda>_.
     cret printed))))"

section \<open>Insertion\<close>

text \<open>\<open>push_chunk_id(&base[i], chunk_id)\<close>.\<close>

definition push_chunk_id :: "ptr \<Rightarrow> int \<Rightarrow> int \<Rightarrow> ('h heap_scheme, unit) cm" where
  "push_chunk_id base i chunk_id =
     cbind (read_rec base i) (\<lambda>file_state.
     cbind (int_succ (num_chunks file_state)) (\<lambda>n.
     cbind (realloc_block (chunk_ids file_state) (IntB []) (nat n)) (\<lambda>temp.
     if temp = NULL then cret ()
     else
       cbind (write_rec base i (file_state\<lparr>chunk_ids := temp\<rparr>)) (\<lambda>_.
       cbind (write_int temp (num_chunks file_state) chunk_id) (\<lambda>_.
       write_rec base i (file_state\<lparr>chunk_ids := temp, num_chunks := n\<rparr>))))))"

text \<open>The body of \<open>if (!directoryHasFile)\<close>: a new record at the end of the array.\<close>

definition new_file_slot :: "string \<Rightarrow> ('h, unit) sm" where
  "new_file_slot path =
     cbind (cget num_file_count) (\<lambda>count.
     cbind (int_succ count) (\<lambda>n.
     cbind (cget file_to_chunk_state) (\<lambda>old.
     cbind (realloc_block old (RecB []) (nat n)) (\<lambda>base.
     cbind (cput (\<lambda>s. s\<lparr>file_to_chunk_state := base\<rparr>)) (\<lambda>_.
     cbind (strdup path) (\<lambda>p.
     cbind (write_rec base count \<lparr>file_path = p, chunk_ids = NULL, num_chunks = 0\<rparr>) (\<lambda>_.
     cput (\<lambda>s. s\<lparr>num_file_count := n\<rparr>))))))))"

definition insert_to_struct :: "string \<Rightarrow> int \<Rightarrow> bool \<Rightarrow> ('h, unit) sm" where
  "insert_to_struct path chunk_id directoryHasFile =
     cbind mutex_lock (\<lambda>_.
     cbind (if \<not> directoryHasFile then new_file_slot path else cret ()) (\<lambda>_.
     cbind (cget (\<lambda>s. (file_to_chunk_state s, num_file_count s))) (\<lambda>(base, n).
     cbind (push_chunk_id base (n - 1) chunk_id) (\<lambda>_.
     cbind mutex_unlock (\<lambda>_.
     cbind print_storage_state (\<lambda>_.
     cret ()))))))"

section \<open>Removal\<close>

text \<open>The search loop, from index \<open>i\<close> for \<open>k\<close> rounds; \<open>None\<close> is the index -1.\<close>

primrec find_file_index :: "ptr \<Rightarrow> string \<Rightarrow> nat \<Rightarrow> nat \<Rightarrow> ('h heap_scheme, nat option) cm" where
  "find_file_index base path i 0 = cret None"
| "find_file_index base path i (Suc k) =
     cbind (read_rec base (int i)) (\<lambda>r.
     cbind (load_str (file_path r)) (\<lambda>p.
     if p = path then cret (Some i) else find_file_index base path (Suc i) k))"

text \<open>\<open>for (i = index; i < n - 1; i++) base[i] = base[i + 1];\<close>\<close>

definition shift_files :: "ptr \<Rightarrow> nat \<Rightarrow> nat \<Rightarrow> ('h heap_scheme, unit) cm" where
  "shift_files base index n =
     for_up index (n - 1 - index) (\<lambda>i.
       cbind (read_rec base (int i + 1)) (\<lambda>r. write_rec base (int i) r))"

text \<open>The record's two blocks are freed and the gap in the array is closed.\<close>

definition drop_file_at :: "ptr \<Rightarrow> nat \<Rightarrow> nat \<Rightarrow> ('h heap_scheme, unit) cm" where
  "drop_file_at base index n =
     cbind (read_rec base (int index)) (\<lambda>r.
     cbind (c_free (file_path r)) (\<lambda>_.
     cbind (c_free (chunk_ids r)) (\<lambda>_.
     shift_files base index n)))"

text \<open>\<open>num_file_count--\<close>, then the array is shrunk, or freed when it is empty.\<close>

definition shrink_files :: "ptr \<Rightarrow> int \<Rightarrow> ('h, unit) sm" where
  "shrink_files base n =
     cbind (cput (\<lambda>s. s\<lparr>num_file_count := n - 1\<rparr>)) (\<lambda>_.
     if n - 1 > 0 then
       cbind (realloc_block base (RecB []) (nat (n - 1))) (\<lambda>temp.
       if temp = NULL then mutex_unlock
       else
         cbind (cput (\<lambda>s. s\<lparr>file_to_chunk_state := temp\<rparr>)) (\<lambda>_.
         cbind mutex_unlock (\<lambda>_.
         cbind print_storage_state (\<lambda>_.
         cret ()))))
     else
       cbind (c_free base) (\<lambda>_.
       cbind (cput (\<lambda>s. s\<lparr>file_to_chunk_state := NULL\<rparr>)) (\<lambda>_.
       cbind mutex_unlock (\<lambda>_.
       cbind print_storage_state (\<lambda>_.
       cret ())))))"

definition remove_from_struct :: "string \<Rightarrow> ('h, unit) sm" where
  "remove_from_struct path =
     cbind mutex_lock (\<lambda>_.
     cbind (cget (\<lambda>s. (file_to_chunk_state s, num_file_count s))) (\<lambda>(base, n).
     cbind (find_file_index base path 0 (nat n)) (\<lambda>found.
     case found of
       None \<Rightarrow> mutex_unlock
     | Some index \<Rightarrow>
         cbind (drop_file_at base index (nat n)) (\<lambda>_.
         shrink_files base n))))"

end
