(* ===== verification/C_Strings.thy ===== *)
theory C_Strings
  imports DFS_Prelude
begin

text \<open>
  The C string functions the sources use: \<open>snprintf\<close> into a fixed buffer, \<open>%d\<close>,
  \<open>atoi\<close>, and the splitting of a path at its slashes. A C string is the list of its
  characters before the terminating NUL.
\<close>

section \<open>snprintf\<close>

text \<open>At most \<open>n - 1\<close> characters are kept; the result is always terminated.\<close>

definition snprintf :: "nat \<Rightarrow> string \<Rightarrow> string" where
  "snprintf n str = take (n - 1) str"

lemma snprintf_fits [simp]: "length str < n \<Longrightarrow> snprintf n str = str"
  by (simp add: snprintf_def)

lemma length_snprintf: "0 < n \<Longrightarrow> length (snprintf n str) < n"
  by (simp add: snprintf_def)

section \<open>Decimal numbers\<close>

definition digit_char :: "nat \<Rightarrow> char" where
  "digit_char d = char_of (48 + d)"

definition digit_value :: "char \<Rightarrow> int option" where
  "digit_value c = (let n = of_char c in if 48 \<le> n \<and> n \<le> (57 :: nat) then Some (int n - 48) else None)"

fun show_nat :: "nat \<Rightarrow> string" where
  "show_nat n = (if n < 10 then [digit_char n] else show_nat (n div 10) @ [digit_char (n mod 10)])"

declare show_nat.simps [simp del]

text \<open>The conversion \<open>%d\<close>.\<close>

definition show_int :: "int \<Rightarrow> string" where
  "show_int n = (if n < 0 then ''-'' @ show_nat (nat (- n)) else show_nat (nat n))"

text \<open>
  \<open>atoi\<close>: white space, a sign, then the longest run of digits. The C standard leaves a
  value that is no \<open>int\<close> undefined.
\<close>

definition is_space :: "char \<Rightarrow> bool" where
  "is_space c = (let n = of_char c in n = (32 :: nat) \<or> 9 \<le> n \<and> n \<le> 13)"

fun read_digits :: "int \<Rightarrow> string \<Rightarrow> int" where
  "read_digits acc [] = acc"
| "read_digits acc (c # s) =
     (case digit_value c of None \<Rightarrow> acc | Some d \<Rightarrow> read_digits (10 * acc + d) s)"

definition atoi_value :: "string \<Rightarrow> int" where
  "atoi_value str =
     (case dropWhile is_space str of
        [] \<Rightarrow> 0
      | c # s \<Rightarrow> if c = CHR ''-'' then - read_digits 0 s
                 else if c = CHR ''+'' then read_digits 0 s
                 else read_digits 0 (c # s))"

definition atoi :: "string \<Rightarrow> ('s, int) cm" where
  "atoi str = (if in_int (atoi_value str) then cret (atoi_value str) else cfail IntOverflow)"

lemma digit_value_char: "d < 10 \<Longrightarrow> digit_value (digit_char d) = Some (int d)"
  by (simp add: digit_value_def digit_char_def Let_def)

lemma digit_char_facts:
  assumes "d < 10"
  shows "digit_char d \<noteq> CHR ''/''" "digit_char d \<noteq> CHR ''-''" "digit_char d \<noteq> CHR ''+''"
    "digit_char d \<noteq> CHR ''.''" "\<not> is_space (digit_char d)"
proof -
  have n: "of_char (digit_char d) = (48 + d :: nat)"
    using assms by (simp add: digit_char_def)
  have ne: "digit_char d \<noteq> c" if "of_char c < (48 :: nat)" for c
    using n that by auto
  show "digit_char d \<noteq> CHR ''/''" "digit_char d \<noteq> CHR ''-''" "digit_char d \<noteq> CHR ''+''"
    "digit_char d \<noteq> CHR ''.''" by (rule ne, simp)+
  show "\<not> is_space (digit_char d)" using n by (simp add: is_space_def Let_def)
qed

lemma read_digits_append_digit:
  "(\<And>c. c \<in> set s \<Longrightarrow> digit_value c \<noteq> None) \<Longrightarrow>
   read_digits acc (s @ t) = read_digits (read_digits acc s) t"
proof (induction acc s rule: read_digits.induct)
  case (1 acc)
  then show ?case by simp
next
  case (2 acc c s)
  from "2.prems"[of c] obtain d where d: "digit_value c = Some d" by auto
  with "2.IH"[OF d] "2.prems" show ?case by simp
qed

lemma show_nat_digits: "c \<in> set (show_nat n) \<Longrightarrow> \<exists>d < 10. c = digit_char d"
proof (induction n rule: show_nat.induct)
  case (1 n)
  then show ?case
    by (subst (asm) show_nat.simps) (auto split: if_splits intro: exI[of _ "n mod 10"])
qed

lemma show_nat_nonempty [simp]: "show_nat n \<noteq> []"
  by (subst show_nat.simps) simp

lemma show_nat_digit_values: "c \<in> set (show_nat n) \<Longrightarrow> digit_value c \<noteq> None"
  by (auto dest!: show_nat_digits simp: digit_value_char)

lemma read_digits_show_nat: "read_digits 0 (show_nat n) = int n"
proof (induction n rule: show_nat.induct)
  case (1 n)
  show ?case
  proof (cases "n < 10")
    case True
    then show ?thesis by (subst show_nat.simps) (simp add: digit_value_char)
  next
    case False
    then have "read_digits 0 (show_nat n) = 10 * read_digits 0 (show_nat (n div 10)) + int (n mod 10)"
      by (subst show_nat.simps)
        (simp add: read_digits_append_digit show_nat_digit_values digit_value_char)
    also have "\<dots> = int (10 * (n div 10) + n mod 10)"
      using 1[OF False] by (simp only: of_nat_add of_nat_mult of_nat_numeral)
    finally show ?thesis by (simp only: mult_div_mod_eq)
  qed
qed

lemma show_int_chars: "c \<in> set (show_int n) \<Longrightarrow> c \<noteq> CHR ''/'' \<and> c \<noteq> CHR ''.''"
  by (auto simp: show_int_def digit_char_facts dest!: show_nat_digits split: if_splits)

lemma show_int_nonempty [simp]: "show_int n \<noteq> []"
  by (simp add: show_int_def)

text \<open>What \<open>%d\<close> prints, \<open>atoi\<close> reads back.\<close>

lemma atoi_show_int [simp]: "atoi_value (show_int n) = n"
proof (cases "n < 0")
  case True
  then show ?thesis by (simp add: show_int_def atoi_value_def is_space_def read_digits_show_nat)
next
  case False
  obtain c s where cs: "show_nat (nat n) = c # s" by (cases "show_nat (nat n)") auto
  then obtain d where "d < 10" "c = digit_char d" using show_nat_digits[of c "nat n"] by auto
  then have "atoi_value (show_nat (nat n)) = read_digits 0 (show_nat (nat n))"
    by (simp add: atoi_value_def cs digit_char_facts)
  with False show ?thesis by (simp add: show_int_def read_digits_show_nat)
qed

lemma atoi_show_int_run [cm_run]: "in_int n \<Longrightarrow> atoi (show_int n) s = Inr (n, s)"
  by (simp add: atoi_def)

lemma show_int_inj: "show_int m = show_int n \<Longrightarrow> m = n"
  by (metis atoi_show_int)

section \<open>Splitting a path at its slashes\<close>

fun split_slash :: "string \<Rightarrow> string list" where
  "split_slash [] = [[]]"
| "split_slash (c # s) =
     (if c = CHR ''/'' then [] # split_slash s
      else case split_slash s of [] \<Rightarrow> [[c]] | w # ws \<Rightarrow> (c # w) # ws)"

fun join_slash :: "string list \<Rightarrow> string" where
  "join_slash [] = []"
| "join_slash [w] = w"
| "join_slash (w # v # ws) = w @ ''/'' @ join_slash (v # ws)"

lemma split_slash_nonempty [simp]: "split_slash s \<noteq> []"
  by (cases s) (auto split: list.splits)

lemma split_slash_append: "split_slash (a @ ''/'' @ b) = split_slash a @ split_slash b"
proof (induction a)
  case Nil
  then show ?case by simp
next
  case (Cons c a)
  then show ?case by (cases "split_slash a") auto
qed

lemma split_slash_plain: "CHR ''/'' \<notin> set s \<Longrightarrow> split_slash s = [s]"
  by (induction s) auto

lemma join_split_slash: "join_slash (split_slash s) = s"
proof (induction s)
  case Nil
  then show ?case by simp
next
  case (Cons c s)
  obtain w ws where "split_slash s = w # ws" by (cases "split_slash s") auto
  with Cons show ?case by (cases ws) auto
qed

lemma split_slash_inj: "split_slash a = split_slash b \<Longrightarrow> a = b"
  by (metis join_split_slash)

lemma split_slash_no_slash: "w \<in> set (split_slash s) \<Longrightarrow> CHR ''/'' \<notin> set w"
proof (induction s arbitrary: w)
  case Nil
  then show ?case by simp
next
  case (Cons c s)
  obtain v vs where "split_slash s = v # vs" by (cases "split_slash s") auto
  with Cons show ?case by (auto split: if_splits)
qed

text \<open>\<open>strrchr(path, '/')\<close>: what stands before the last slash.\<close>

definition before_last_slash :: "string \<Rightarrow> string option" where
  "before_last_slash path =
     (if CHR ''/'' \<in> set path then Some (rev (tl (dropWhile (\<lambda>c. c \<noteq> CHR ''/'') (rev path))))
      else None)"

lemma before_last_slash_append:
  "CHR ''/'' \<notin> set b \<Longrightarrow> before_last_slash (a @ ''/'' @ b) = Some a"
proof -
  assume "CHR ''/'' \<notin> set b"
  then have "dropWhile (\<lambda>c. c \<noteq> CHR ''/'') (rev b @ CHR ''/'' # rev a) = CHR ''/'' # rev a"
    by (subst dropWhile_append2) auto
  then show ?thesis by (simp add: before_last_slash_def)
qed

end
