(* ===== verification/Posix_Fs.thy ===== *)
theory Posix_Fs
  imports C_Strings C_Heap "HOL-Library.Sublist"
begin

text \<open>
  The file system as the storage node sees it through the POSIX calls it makes: a tree of
  directories, regular files and other nodes, a working directory, and path strings
  resolved name by name. A call may also fail for a reason outside the tree (permissions,
  a name that is too long, a full disk): \<open>sysfail\<close> says which calls do, and
  \<open>short_write\<close> cuts a write short. \<open>spare_fds\<close> is the number of descriptors the process
  may open besides those it holds between requests. Symbolic links are leaves that no path leads through.
\<close>

section \<open>The tree\<close>

text \<open>A location is the list of names from the root; the tree lists its nodes in some order.\<close>

type_synonym loc = "string list"

datatype fentry = FReg "byte list" | FDir | FOther

datatype sysop =
    SysAccess | SysMkdir | SysOpen | SysOpendir | SysLstat | SysUnlink | SysRmdir | SysFstat

record fsys =
  files :: "(loc \<times> fentry) list"
  cwd :: loc
  sysfail :: "sysop \<Rightarrow> string \<Rightarrow> bool"
  short_write :: "string \<Rightarrow> nat option"
  spare_fds :: nat

definition fs_lookup :: "fsys \<Rightarrow> loc \<Rightarrow> fentry option" where
  "fs_lookup fs l = map_of (files fs) l"

abbreviation is_dir :: "fsys \<Rightarrow> loc \<Rightarrow> bool" where
  "is_dir fs l \<equiv> fs_lookup fs l = Some FDir"

text \<open>The names in a directory, in the order of the list.\<close>

definition children :: "fsys \<Rightarrow> loc \<Rightarrow> string list" where
  "children fs l = map (last \<circ> fst) (filter (\<lambda>(k, _). k \<noteq> [] \<and> butlast k = l) (files fs))"

section \<open>Path resolution\<close>

text \<open>Every step needs a directory to stand in; the last name need not exist.\<close>

fun walk :: "fsys \<Rightarrow> loc \<Rightarrow> string list \<Rightarrow> loc option" where
  "walk fs cur [] = Some cur"
| "walk fs cur (c # cs) =
     (if \<not> is_dir fs cur then None
      else if c = [] \<or> c = ''.'' then walk fs cur cs
      else if c = ''..'' then walk fs (butlast cur) cs
      else walk fs (cur @ [c]) cs)"

definition resolve :: "fsys \<Rightarrow> string \<Rightarrow> loc option" where
  "resolve fs path =
     (if path = [] then None
      else walk fs (if hd path = CHR ''/'' then [] else cwd fs) (split_slash path))"

definition strip_trailing :: "string \<Rightarrow> string" where
  "strip_trailing path = rev (dropWhile (\<lambda>c. c = CHR ''/'') (rev path))"

section \<open>The calls\<close>

definition fs_add :: "loc \<Rightarrow> fentry \<Rightarrow> fsys \<Rightarrow> fsys" where
  "fs_add l e fs = fs\<lparr>files := files fs @ [(l, e)]\<rparr>"

definition fs_del :: "loc \<Rightarrow> fsys \<Rightarrow> fsys" where
  "fs_del l fs = fs\<lparr>files := filter (\<lambda>(k, _). k \<noteq> l) (files fs)\<rparr>"

definition fs_access :: "string \<Rightarrow> fsys \<Rightarrow> bool" where
  "fs_access path fs \<longleftrightarrow> \<not> sysfail fs SysAccess path \<and>
     (case resolve fs path of None \<Rightarrow> False | Some l \<Rightarrow> fs_lookup fs l \<noteq> None)"

text \<open>\<open>mkdir\<close>; the sources ignore its result.\<close>

definition fs_mkdir :: "string \<Rightarrow> fsys \<Rightarrow> fsys" where
  "fs_mkdir path fs =
     (if sysfail fs SysMkdir path then fs
      else case resolve fs (strip_trailing path) of
        None \<Rightarrow> fs
      | Some l \<Rightarrow> if fs_lookup fs l = None then fs_add l FDir fs else fs)"

text \<open>\<open>opendir\<close> and the names a run of \<open>readdir\<close> then returns, with their locations.\<close>

definition fs_opendir :: "string \<Rightarrow> fsys \<Rightarrow> (loc \<times> string list) option" where
  "fs_opendir path fs =
     (if sysfail fs SysOpendir path then None
      else case resolve fs path of
        None \<Rightarrow> None
      | Some l \<Rightarrow> if is_dir fs l then Some (l, [''.'', ''..''] @ children fs l) else None)"

text \<open>\<open>entry->d_type == DT_REG\<close>.\<close>

definition d_type_reg :: "fsys \<Rightarrow> loc \<Rightarrow> string \<Rightarrow> bool" where
  "d_type_reg fs l name =
     (case fs_lookup fs (l @ [name]) of Some (FReg _) \<Rightarrow> True | _ \<Rightarrow> False)"

text \<open>\<open>fopen(path, "ab")\<close>: the location written to, and the tree with the file in it.\<close>

definition fs_open_append :: "string \<Rightarrow> fsys \<Rightarrow> (loc \<times> fsys) option" where
  "fs_open_append path fs =
     (if sysfail fs SysOpen path then None
      else case resolve fs path of
        None \<Rightarrow> None
      | Some l \<Rightarrow>
          (case fs_lookup fs l of
             None \<Rightarrow> Some (l, fs_add l (FReg []) fs)
           | Some (FReg _) \<Rightarrow> Some (l, fs)
           | Some _ \<Rightarrow> None))"

definition append_bytes :: "loc \<Rightarrow> byte list \<Rightarrow> fsys \<Rightarrow> fsys" where
  "append_bytes l bs fs =
     fs\<lparr>files := map (\<lambda>(k, e). (k, if k = l then (case e of FReg old \<Rightarrow> FReg (old @ bs) | _ \<Rightarrow> e) else e))
        (files fs)\<rparr>"

text \<open>\<open>fwrite\<close> to an opened file: the bytes written, all of them unless cut short.\<close>

definition fs_write :: "string \<Rightarrow> loc \<Rightarrow> byte list \<Rightarrow> fsys \<Rightarrow> nat \<times> fsys" where
  "fs_write path l bs fs =
     (case short_write fs path of
        None \<Rightarrow> (length bs, append_bytes l bs fs)
      | Some k \<Rightarrow> (min k (length bs), append_bytes l (take k bs) fs))"

text \<open>\<open>open(path, O_RDONLY)\<close>: the descriptor is the location opened.\<close>

definition fs_open_read :: "string \<Rightarrow> fsys \<Rightarrow> loc option" where
  "fs_open_read path fs =
     (if sysfail fs SysOpen path then None
      else case resolve fs path of
        None \<Rightarrow> None
      | Some l \<Rightarrow> if fs_lookup fs l = None then None else Some l)"

text \<open>
  \<open>fstat\<close> on a descriptor: the size of the file. For a node that is no regular file
  the size has no meaning in POSIX, and it is 0 here.
\<close>

definition fs_fstat :: "loc \<Rightarrow> fsys \<Rightarrow> nat option" where
  "fs_fstat l fs =
     (if sysfail fs SysFstat (join_slash l) then None
      else case fs_lookup fs l of
        None \<Rightarrow> None
      | Some (FReg bs) \<Rightarrow> Some (length bs)
      | Some _ \<Rightarrow> Some 0)"

definition fs_lstat :: "string \<Rightarrow> fsys \<Rightarrow> fentry option" where
  "fs_lstat path fs =
     (if sysfail fs SysLstat path then None
      else case resolve fs path of None \<Rightarrow> None | Some l \<Rightarrow> fs_lookup fs l)"

definition fs_unlink :: "string \<Rightarrow> fsys \<Rightarrow> bool \<times> fsys" where
  "fs_unlink path fs =
     (if sysfail fs SysUnlink path then (False, fs)
      else case resolve fs path of
        None \<Rightarrow> (False, fs)
      | Some l \<Rightarrow> if fs_lookup fs l = None \<or> is_dir fs l then (False, fs) else (True, fs_del l fs))"

text \<open>\<open>rmdir\<close> refuses a path that ends in a dot, the root, and a directory with entries.\<close>

definition fs_rmdir :: "string \<Rightarrow> fsys \<Rightarrow> bool \<times> fsys" where
  "fs_rmdir path fs =
     (if sysfail fs SysRmdir path \<or> last (split_slash (strip_trailing path)) = ''.'' then (False, fs)
      else case resolve fs path of
        None \<Rightarrow> (False, fs)
      | Some l \<Rightarrow>
          if l = [] \<or> \<not> is_dir fs l \<or> children fs l \<noteq> [] then (False, fs) else (True, fs_del l fs))"

section \<open>Lookups after a call\<close>

lemma fs_lookup_add:
  "fs_lookup fs l = None \<Longrightarrow> fs_lookup (fs_add l e fs) k = (if k = l then Some e else fs_lookup fs k)"
  by (auto simp: fs_lookup_def fs_add_def map_add_def split: option.splits)

lemma map_of_filter_key: "map_of (filter (\<lambda>(k, _). P k) xs) l = (if P l then map_of xs l else None)"
  by (induction xs) auto

lemma fs_lookup_del: "fs_lookup (fs_del l fs) k = (if k = l then None else fs_lookup fs k)"
  by (simp add: fs_lookup_def fs_del_def map_of_filter_key)

lemma fs_lookup_append_bytes:
  "fs_lookup (append_bytes l bs fs) k =
     (if k = l then map_option (\<lambda>e. case e of FReg old \<Rightarrow> FReg (old @ bs) | _ \<Rightarrow> e) (fs_lookup fs k)
      else fs_lookup fs k)"
proof -
  have "map_of (map (\<lambda>(k, e). (k, f k e)) xs) k = map_option (f k) (map_of xs k)" for f and xs :: "(loc \<times> fentry) list"
    by (induction xs) auto
  from this[of "\<lambda>k e. if k = l then (case e of FReg old \<Rightarrow> FReg (old @ bs) | _ \<Rightarrow> e) else e"]
  show ?thesis by (simp add: fs_lookup_def append_bytes_def option.map_id0[unfolded id_def])
qed

lemma fs_calls_env [simp]:
  "cwd (fs_add l e fs) = cwd fs" "sysfail (fs_add l e fs) = sysfail fs"
  "short_write (fs_add l e fs) = short_write fs" "spare_fds (fs_add l e fs) = spare_fds fs"
  "cwd (fs_del l fs) = cwd fs" "sysfail (fs_del l fs) = sysfail fs"
  "short_write (fs_del l fs) = short_write fs" "spare_fds (fs_del l fs) = spare_fds fs"
  "cwd (append_bytes l bs fs) = cwd fs" "sysfail (append_bytes l bs fs) = sysfail fs"
  "short_write (append_bytes l bs fs) = short_write fs" "spare_fds (append_bytes l bs fs) = spare_fds fs"
  by (simp_all add: fs_add_def fs_del_def append_bytes_def)

lemma fs_mkdir_env [simp]:
  "cwd (fs_mkdir p fs) = cwd fs" "sysfail (fs_mkdir p fs) = sysfail fs"
  "short_write (fs_mkdir p fs) = short_write fs" "spare_fds (fs_mkdir p fs) = spare_fds fs"
  by (auto simp: fs_mkdir_def split: option.splits)

text \<open>No call fails for a reason outside the tree, and there is a descriptor to open a directory.\<close>

definition fs_quiet :: "fsys \<Rightarrow> bool" where
  "fs_quiet fs \<longleftrightarrow> (\<forall>c p. \<not> sysfail fs c p) \<and> (\<forall>p. short_write fs p = None) \<and> 0 < spare_fds fs"

lemma fs_quietD [simp]:
  "fs_quiet fs \<Longrightarrow> \<not> sysfail fs c p" "fs_quiet fs \<Longrightarrow> short_write fs p = None"
  "fs_quiet fs \<Longrightarrow> 0 < spare_fds fs"
  by (simp_all add: fs_quiet_def)

section \<open>Paths of proper names\<close>

definition proper_name :: "string \<Rightarrow> bool" where
  "proper_name w \<longleftrightarrow> w \<noteq> [] \<and> w \<noteq> ''.'' \<and> w \<noteq> ''..'' \<and> CHR ''/'' \<notin> set w"

lemma walk_names:
  "\<forall>w \<in> set ws. proper_name w \<Longrightarrow>
   walk fs cur ws = (if \<forall>n < length ws. is_dir fs (cur @ take n ws) then Some (cur @ ws) else None)"
proof (induction ws arbitrary: cur)
  case Nil
  then show ?case by simp
next
  case (Cons w ws)
  have all: "(\<forall>n < length (w # ws). is_dir fs (cur @ take n (w # ws))) \<longleftrightarrow>
      is_dir fs cur \<and> (\<forall>n < length ws. is_dir fs ((cur @ [w]) @ take n ws))"
    by (auto simp: less_Suc_eq_0_disj)
  show ?case using Cons unfolding all by (simp add: proper_name_def)
qed

lemma split_join_slash: "ws \<noteq> [] \<Longrightarrow> \<forall>w \<in> set ws. CHR ''/'' \<notin> set w \<Longrightarrow> split_slash (join_slash ws) = ws"
proof (induction ws rule: join_slash.induct)
  case 1
  then show ?case by simp
next
  case (2 w)
  then show ?case by (simp add: split_slash_plain)
next
  case (3 w v ws)
  then have "split_slash (w @ ''/'' @ join_slash (v # ws)) = split_slash w @ split_slash (join_slash (v # ws))"
    by (intro split_slash_append)
  with 3 show ?case by (simp add: split_slash_plain)
qed

lemma join_slash_snoc: "ws \<noteq> [] \<Longrightarrow> join_slash (ws @ [w]) = join_slash ws @ ''/'' @ w"
proof (induction ws rule: join_slash.induct)
  case 1
  then show ?case by simp
next
  case (2 v)
  then show ?case by simp
next
  case (3 u v ws)
  then show ?case by simp
qed

definition proper_path :: "string list \<Rightarrow> bool" where
  "proper_path ws \<longleftrightarrow> ws \<noteq> [] \<and> (\<forall>w \<in> set ws. proper_name w)"

lemma proper_path_join:
  assumes "proper_path ws"
  shows "split_slash (join_slash ws) = ws" "join_slash ws \<noteq> []" "hd (join_slash ws) \<noteq> CHR ''/''"
    "strip_trailing (join_slash ws) = join_slash ws"
proof -
  show split: "split_slash (join_slash ws) = ws"
    using assms by (intro split_join_slash) (auto simp: proper_path_def proper_name_def)
  obtain w vs where ws: "ws = w # vs" and w: "proper_name w"
    using assms by (cases ws) (auto simp: proper_path_def)
  obtain t where t: "join_slash ws = w @ t" using ws by (cases vs) auto
  with w show "join_slash ws \<noteq> []" "hd (join_slash ws) \<noteq> CHR ''/''"
    by (cases w; auto simp: proper_name_def)+
  obtain us u where us: "ws = us @ [u]" and u: "proper_name u"
    using assms by (cases ws rule: rev_cases) (auto simp: proper_path_def)
  obtain p where p: "join_slash ws = p @ u"
    using us join_slash_snoc[of us u] by (cases "us = []") auto
  have "u \<noteq> []" "last u \<noteq> CHR ''/''" using u by (auto simp: proper_name_def in_set_conv_decomp dest: last_in_set)
  then obtain v c where "u = v @ [c]" "c \<noteq> CHR ''/''" by (cases u rule: rev_cases) auto
  then show "strip_trailing (join_slash ws) = join_slash ws" by (simp add: strip_trailing_def p)
qed

lemma resolve_join:
  assumes "proper_path ws"
  shows "resolve fs (join_slash ws) =
    (if \<forall>n < length ws. is_dir fs (cwd fs @ take n ws) then Some (cwd fs @ ws) else None)"
  using assms proper_path_join[OF assms] walk_names[of ws fs "cwd fs"]
  by (simp add: resolve_def proper_path_def)

lemma proper_path_take: "proper_path ws \<Longrightarrow> 0 < n \<Longrightarrow> proper_path (take n ws)"
  by (auto simp: proper_path_def dest: in_set_takeD)

lemma proper_path_snoc: "proper_path ws \<Longrightarrow> proper_name w \<Longrightarrow> proper_path (ws @ [w])"
  by (auto simp: proper_path_def)

end
