(* ===== verification/Fs_Tree.thy ===== *)
theory Fs_Tree
  imports Posix_Fs
begin

text \<open>
  Well-formed trees: what every call of the storage node keeps of its disk, and the tree
  with a node and everything below it taken away.
\<close>

section \<open>Trees\<close>

text \<open>
  Every node is listed once, stands in a directory, and has proper names on its way from
  the root.
\<close>

definition tree_ok :: "fsys \<Rightarrow> bool" where
  "tree_ok s \<longleftrightarrow> distinct (map fst (files s)) \<and>
     (\<forall>k. fs_lookup s k \<noteq> None \<longrightarrow>
        (\<forall>w \<in> set k. proper_name w) \<and> (k \<noteq> [] \<longrightarrow> is_dir s (butlast k)))"

text \<open>The tree without the node at \<open>l\<close> and everything below it.\<close>

definition prune :: "loc \<Rightarrow> fsys \<Rightarrow> fsys" where
  "prune l s = s\<lparr>files := filter (\<lambda>(k, _). \<not> prefix l k) (files s)\<rparr>"

lemma fs_lookup_prune: "fs_lookup (prune l s) k = (if prefix l k then None else fs_lookup s k)"
  by (simp add: fs_lookup_def prune_def map_of_filter_key)

lemma prune_env [simp]:
  "cwd (prune l s) = cwd s" "sysfail (prune l s) = sysfail s" "short_write (prune l s) = short_write s"
  "spare_fds (prune l s) = spare_fds s"
  by (simp_all add: prune_def)

lemma fs_quiet_prune [simp]: "fs_quiet (prune l s) = fs_quiet s"
  unfolding fs_quiet_def by simp

lemma fs_lookup_mem: "fs_lookup s k \<noteq> None \<longleftrightarrow> k \<in> fst ` set (files s)"
  by (simp add: fs_lookup_def map_of_eq_None_iff)

lemma listed_lookup: "(k, e) \<in> set (files s) \<Longrightarrow> fs_lookup s k \<noteq> None"
  by (metis fs_lookup_mem fst_conv image_eqI)

lemma tree_ok_parent: "tree_ok s \<Longrightarrow> fs_lookup s (p @ [w]) \<noteq> None \<Longrightarrow> is_dir s p"
  by (fastforce simp: tree_ok_def)

lemma tree_ok_above:
  "tree_ok s \<Longrightarrow> fs_lookup s (p @ w # ws) \<noteq> None \<Longrightarrow> is_dir s p"
proof (induction ws arbitrary: w rule: rev_induct)
  case Nil
  then show ?case by (intro tree_ok_parent[of s p w]) simp_all
next
  case (snoc v vs)
  have "is_dir s (p @ w # vs)" using snoc.prems by (intro tree_ok_parent[of s _ v]) simp_all
  then show ?case using snoc.IH[of w] snoc.prems(1) by simp
qed

lemma tree_ok_prune:
  assumes "tree_ok s"
  shows "tree_ok (prune l s)"
proof -
  have "\<not> prefix l (butlast k)" if "\<not> prefix l k" for k
    using that by (metis append_butlast_last_id butlast.simps(1) prefix_prefix)
  moreover have "distinct (map fst (files (prune l s)))"
    using assms by (auto simp: tree_ok_def prune_def distinct_map_filter)
  ultimately show ?thesis using assms by (auto simp: tree_ok_def fs_lookup_prune)
qed

lemma prune_leaf:
  assumes "tree_ok s" "\<not> is_dir s l"
  shows "prune l s = fs_del l s"
proof -
  have "k = l" if "(k, e) \<in> set (files s)" "prefix l k" for k e
  proof (rule ccontr)
    assume "k \<noteq> l"
    with that(2) obtain w ws where k: "k = l @ w # ws" by (metis append_Nil2 neq_Nil_conv prefixE)
    have "fs_lookup s k \<noteq> None" using that(1) by (rule listed_lookup)
    then show False using tree_ok_above[OF assms(1)] assms(2) k by blast
  qed
  then have "filter (\<lambda>(k, _). \<not> prefix l k) (files s) = filter (\<lambda>(k, _). k \<noteq> l) (files s)"
    by (intro filter_cong) auto
  then show ?thesis by (simp add: prune_def fs_del_def)
qed

lemma in_children: "w \<in> set (children s l) \<longleftrightarrow> fs_lookup s (l @ [w]) \<noteq> None"
proof
  assume "w \<in> set (children s l)"
  then obtain k e where "(k, e) \<in> set (files s)" "k \<noteq> []" "butlast k = l" "w = last k"
    by (auto simp: children_def)
  then have "(l @ [w], e) \<in> set (files s)" by auto
  then show "fs_lookup s (l @ [w]) \<noteq> None" by (rule listed_lookup)
next
  assume "fs_lookup s (l @ [w]) \<noteq> None"
  then obtain e where "(l @ [w], e) \<in> set (files s)"
    by (auto simp: fs_lookup_def dest: map_of_SomeD)
  then show "w \<in> set (children s l)" by (force simp: children_def image_iff)
qed

lemma distinct_children: "tree_ok s \<Longrightarrow> distinct (children s l)"
proof -
  assume "tree_ok s"
  let ?ks = "map fst (filter (\<lambda>(k, _). k \<noteq> [] \<and> butlast k = l) (files s))"
  from \<open>tree_ok s\<close> have "distinct ?ks"
    by (simp add: tree_ok_def distinct_map_filter)
  moreover have "inj_on last (set ?ks)"
    by (rule inj_onI) (auto, metis append_butlast_last_id)
  ultimately have "distinct (map last ?ks)" unfolding distinct_map[of last] by blast
  then show ?thesis by (simp add: children_def)
qed

text \<open>\<open>s\<close> without the entries \<open>names\<close> of the directory at \<open>l\<close>, with all below them.\<close>

definition prune_entries :: "loc \<Rightarrow> string list \<Rightarrow> fsys \<Rightarrow> fsys" where
  "prune_entries l names s = fold (\<lambda>w. prune (l @ [w])) names s"

lemma prune_entries_simps [simp]:
  "prune_entries l [] s = s"
  "prune_entries l (w # ws) s = prune_entries l ws (prune (l @ [w]) s)"
  by (simp_all add: prune_entries_def)

lemma prune_entries_files:
  "prune_entries l names s = s\<lparr>files := filter (\<lambda>(k, _). \<not> (\<exists>w \<in> set names. prefix (l @ [w]) k)) (files s)\<rparr>"
proof (induction names arbitrary: s)
  case Nil
  then show ?case by simp
next
  case (Cons w names)
  show ?case by (simp add: Cons prune_def filter_filter) (auto intro!: arg_cong[of _ _ "\<lambda>x. files_update (\<lambda>_. x) s"] filter_cong)
qed

lemma tree_child:
  assumes "tree_ok s" "(k, e) \<in> set (files s)" "prefix l k" "k \<noteq> l"
  shows "\<exists>w \<in> set (children s l). prefix (l @ [w]) k"
proof -
  from assms(3,4) obtain w ws where k: "k = l @ w # ws" by (metis append_Nil2 neq_Nil_conv prefixE)
  have "fs_lookup s (l @ [w]) \<noteq> None"
  proof (cases ws)
    case Nil
    then show ?thesis using k listed_lookup[OF assms(2)] by simp
  next
    case (Cons v vs)
    have "fs_lookup s ((l @ [w]) @ v # vs) \<noteq> None" using k Cons listed_lookup[OF assms(2)] by simp
    then show ?thesis using tree_ok_above[OF assms(1)] by fastforce
  qed
  moreover have "prefix (l @ [w]) k" by (simp add: k)
  ultimately show ?thesis using in_children by blast
qed

lemma prune_children:
  assumes "tree_ok s"
  shows "fs_del l (prune_entries l (children s l) s) = prune l s"
    and "children (prune_entries l (children s l) s) l = []"
proof -
  let ?C = "\<lambda>k. \<exists>w \<in> set (children s l). prefix (l @ [w]) k"
  have "?C k \<longleftrightarrow> prefix l k \<and> k \<noteq> l" if "(k, e) \<in> set (files s)" for k e
    using tree_child[OF assms that] by (auto simp: append_prefixD)
  then have fl: "filter (\<lambda>(k, _). \<not> ?C k) (files s) = filter (\<lambda>(k, _). prefix l k \<longrightarrow> k = l) (files s)"
    by (intro filter_cong) auto
  show "fs_del l (prune_entries l (children s l) s) = prune l s"
    unfolding prune_entries_files fl
    by (auto simp: fs_del_def prune_def filter_filter intro!: arg_cong[of _ _ "\<lambda>x. files_update (\<lambda>_. x) s"] filter_cong)
  show "children (prune_entries l (children s l) s) l = []"
  proof -
    have "butlast k \<noteq> l \<or> k = []" if "prefix l k \<longrightarrow> k = l" for k
      using that by (metis append_butlast_last_id not_Cons_self2 prefixI self_append_conv)
    then show ?thesis
      unfolding prune_entries_files fl by (auto simp: children_def filter_empty_conv)
  qed
qed

section \<open>Every call keeps the tree well formed\<close>

text \<open>A resolved path leads to a node, or to a proper name in a directory.\<close>

definition stands :: "fsys \<Rightarrow> loc \<Rightarrow> bool" where
  "stands s l \<longleftrightarrow> fs_lookup s l \<noteq> None \<or> (\<exists>p w. l = p @ [w] \<and> is_dir s p \<and> proper_name w)"

lemma walk_stands:
  assumes "tree_ok s" "walk s cur cs = Some l" "stands s cur" "\<forall>c \<in> set cs. CHR ''/'' \<notin> set c"
  shows "stands s l"
  using assms(2-4)
proof (induction cs arbitrary: cur)
  case Nil
  then show ?case by simp
next
  case (Cons c cs)
  then have dir: "is_dir s cur" by (simp split: if_splits)
  have up: "stands s (butlast cur)"
  proof (cases "cur = []")
    case True
    then show ?thesis using dir by (simp add: stands_def)
  next
    case False
    then show ?thesis using dir assms(1) by (simp add: stands_def tree_ok_def)
  qed
  have down: "stands s (cur @ [c])" if "c \<noteq> []" "c \<noteq> ''.''" "c \<noteq> ''..''"
    using dir that Cons.prems(3) by (auto simp: stands_def proper_name_def)
  show ?case using Cons dir up down by (auto split: if_splits)
qed

lemma resolve_stands:
  assumes tree: "tree_ok s" and res: "resolve s p = Some l"
  shows "stands s l"
proof -
  let ?start = "if hd p = CHR ''/'' then [] else cwd s"
  have w: "walk s ?start (split_slash p) = Some l" using res by (simp add: resolve_def split: if_splits)
  obtain c cs where "split_slash p = c # cs" by (cases "split_slash p") auto
  then have "is_dir s ?start" using w by (auto split: if_splits)
  then have "stands s ?start" by (simp add: stands_def)
  then show ?thesis using walk_stands[OF tree w] split_slash_no_slash by blast
qed

lemma tree_ok_add:
  assumes "tree_ok s" "stands s l" "fs_lookup s l = None"
  shows "tree_ok (fs_add l e s)"
proof -
  obtain p w where l: "l = p @ [w]" "is_dir s p" "proper_name w" using assms(2,3) by (auto simp: stands_def)
  have p: "\<forall>v \<in> set p. proper_name v" using l(2) assms(1) by (auto simp: tree_ok_def)
  have "l \<notin> fst ` set (files s)" using assms(3) fs_lookup_mem by blast
  then have "distinct (map fst (files (fs_add l e s)))" using assms(1) by (simp add: tree_ok_def fs_add_def)
  moreover have "butlast k \<noteq> l" if "k \<noteq> []" "fs_lookup s k \<noteq> None" for k
  proof
    assume "butlast k = l"
    moreover have "is_dir s (butlast k)" using that assms(1) by (simp add: tree_ok_def)
    ultimately show False using assms(3) by simp
  qed
  ultimately show ?thesis
    using assms(1) l p unfolding tree_ok_def fs_lookup_add[OF assms(3)] by auto
qed

lemma tree_ok_del:
  assumes "tree_ok s" "children s l = []"
  shows "tree_ok (fs_del l s)"
proof -
  have "butlast k \<noteq> l" if "k \<noteq> []" "fs_lookup s k \<noteq> None" for k
  proof
    assume "butlast k = l"
    then have "k = l @ [last k]" using that(1) by (metis append_butlast_last_id)
    then have "last k \<in> set (children s l)" using that(2) in_children by metis
    then show False using assms(2) by simp
  qed
  moreover have "distinct (map fst (files (fs_del l s)))"
    using assms(1) by (auto simp: tree_ok_def fs_del_def distinct_map_filter)
  ultimately show ?thesis using assms(1) unfolding tree_ok_def fs_lookup_del by auto
qed

lemma tree_ok_append_bytes:
  assumes "tree_ok s"
  shows "tree_ok (append_bytes l bs s)"
proof -
  have "map fst (files (append_bytes l bs s)) = map fst (files s)"
    by (auto simp: append_bytes_def)
  moreover have "fs_lookup (append_bytes l bs s) k \<noteq> None \<longleftrightarrow> fs_lookup s k \<noteq> None"
    and "is_dir s k \<Longrightarrow> is_dir (append_bytes l bs s) k" for k
    by (auto simp: fs_lookup_append_bytes)
  ultimately show ?thesis using assms unfolding tree_ok_def by metis
qed

lemma no_children: "tree_ok s \<Longrightarrow> \<not> is_dir s l \<Longrightarrow> children s l = []"
  using in_children tree_ok_parent by (metis last_in_set)

lemma tree_ok_mkdir: "tree_ok s \<Longrightarrow> tree_ok (fs_mkdir p s)"
  by (auto simp: fs_mkdir_def split: option.split intro: tree_ok_add resolve_stands)

lemma tree_ok_open_append: "tree_ok s \<Longrightarrow> fs_open_append p s = Some (l, s') \<Longrightarrow> tree_ok s'"
  by (auto simp: fs_open_append_def split: if_splits option.splits fentry.splits intro: tree_ok_add resolve_stands)

lemma tree_ok_write: "tree_ok s \<Longrightarrow> tree_ok (snd (fs_write p l bs s))"
  by (auto simp: fs_write_def split: option.split intro: tree_ok_append_bytes)

lemma tree_ok_unlink: "tree_ok s \<Longrightarrow> tree_ok (snd (fs_unlink p s))"
  by (auto simp: fs_unlink_def split: option.split intro: tree_ok_del no_children)

lemma tree_ok_rmdir: "tree_ok s \<Longrightarrow> tree_ok (snd (fs_rmdir p s))"
  by (auto simp: fs_rmdir_def split: option.split intro: tree_ok_del)

end
