(* ===== verification/File_Operation.thy ===== *)
theory File_Operation
  imports File_State Fs_Tree
begin

text \<open>
  state/fileOperation.c: where chunks live on disk. Chunk \<open>c\<close> of file \<open>f\<close> is the file
  \<open>data/f/c\<close>; saving it makes the directories, appends the bytes and enters the chunk in
  the catalogue.
\<close>

section \<open>The node: catalogue, heap and disk\<close>

record storage_node = StorageStateOuter +
  fs :: fsys

type_synonym ('h, 'a) nm = "('h storage_node_scheme, 'a) cm"

text \<open>The bytes \<open>fwrite(data, 1, n, file)\<close> reads from memory.\<close>

definition load_bytes :: "ptr \<Rightarrow> nat \<Rightarrow> ('h heap_scheme, byte list) cm" where
  "load_bytes p n = cbind (load p) (\<lambda>b. case b of
     ByteB xs \<Rightarrow>
       if length xs < n then cfail OutOfBounds
       else if None \<in> set (take n xs) then cfail Uninitialised
       else cret (map the (take n xs))
   | _ \<Rightarrow> cfail TypeConfusion)"

section \<open>Directories\<close>

text \<open>The prefixes of a path that end before a slash, the first character left out.\<close>

definition slash_prefixes :: "string \<Rightarrow> string list" where
  "slash_prefixes temp =
     map (\<lambda>i. take i temp) (filter (\<lambda>i. temp ! i = CHR ''/'') [1..<length temp])"

definition createDirectories :: "string \<Rightarrow> fsys \<Rightarrow> bool \<times> fsys" where
  "createDirectories path s =
     (case before_last_slash (take 511 path) of
        None \<Rightarrow> (True, s)
      | Some temp \<Rightarrow> (True, fs_mkdir temp (fold fs_mkdir (slash_prefixes temp) s)))"

definition file_exists :: "string \<Rightarrow> fsys \<Rightarrow> bool" where
  "file_exists filepath s = fs_access filepath s"

definition directoryHasFiles :: "string \<Rightarrow> fsys \<Rightarrow> bool" where
  "directoryHasFiles dirpath s =
     (case fs_opendir dirpath s of
        None \<Rightarrow> False
      | Some (l, names) \<Rightarrow>
          list_ex (\<lambda>name. name \<noteq> ''.'' \<and> name \<noteq> ''..'' \<and> d_type_reg s l name) names)"

text \<open>The largest number among the names of a directory, plus one.\<close>

fun max_entry :: "int \<Rightarrow> string list \<Rightarrow> ('s, int) cm" where
  "max_entry m [] = cret m"
| "max_entry m (name # names) =
     (if name = ''.'' \<or> name = ''..'' then max_entry m names
      else cbind (atoi name) (\<lambda>num. max_entry (if num > m then num else m) names))"

definition getNextChunkNumber :: "string \<Rightarrow> ('h, int) nm" where
  "getNextChunkNumber directory =
     cbind (cget (\<lambda>s. fs_opendir (snprintf 512 (''data/'' @ directory)) (fs s))) (\<lambda>dir.
     case dir of
       None \<Rightarrow> cret 1
     | Some (l, names) \<Rightarrow> cbind (max_entry 0 names) int_succ)"

section \<open>Saving a chunk\<close>

definition chunk_path :: "string \<Rightarrow> int \<Rightarrow> string" where
  "chunk_path filename chunk_id = snprintf 512 (''data/'' @ filename @ ''/'' @ show_int chunk_id)"

definition dir_path :: "string \<Rightarrow> string" where
  "dir_path filename = snprintf 512 (''data/'' @ filename)"

text \<open>From \<open>fopen\<close> to \<open>fclose\<close>.\<close>

definition write_chunk :: "string \<Rightarrow> string \<Rightarrow> ptr \<Rightarrow> nat \<Rightarrow> int \<Rightarrow> bool \<Rightarrow> ('h, bool) nm" where
  "write_chunk full_path filename data data_size chunk_id directoryHasFile =
     cbind (cget (\<lambda>s. fs_open_append full_path (fs s))) (\<lambda>opened.
     case opened of
       None \<Rightarrow> cret False
     | Some (l, opened_fs) \<Rightarrow>
         cbind (cput (\<lambda>s. s\<lparr>fs := opened_fs\<rparr>)) (\<lambda>_.
         cbind (load_bytes data data_size) (\<lambda>bytes.
         cbind (cget (\<lambda>s. fs_write full_path l bytes (fs s))) (\<lambda>(written, written_fs).
         cbind (cput (\<lambda>s. s\<lparr>fs := written_fs\<rparr>)) (\<lambda>_.
         if written \<noteq> data_size then cret False
         else
           cbind (insert_to_struct filename chunk_id directoryHasFile) (\<lambda>_.
           cret True))))))"

definition saveChunkToFile :: "string option \<Rightarrow> ptr \<Rightarrow> nat \<Rightarrow> int \<Rightarrow> ('h, bool) nm" where
  "saveChunkToFile filename_arg data data_size chunk_id =
     (case filename_arg of
        None \<Rightarrow> cret False
      | Some filename \<Rightarrow>
          if data = NULL \<or> data_size = 0 then cret False
          else
            cbind (cget (\<lambda>s. file_exists (chunk_path filename chunk_id) (fs s))) (\<lambda>file_existed_before.
            cbind (cget (\<lambda>s. directoryHasFiles (dir_path filename) (fs s))) (\<lambda>directoryHasFile.
            if file_existed_before then cret True
            else
              cbind (cget (\<lambda>s. createDirectories (chunk_path filename chunk_id) (fs s))) (\<lambda>(made, made_fs).
              cbind (cput (\<lambda>s. s\<lparr>fs := made_fs\<rparr>)) (\<lambda>_.
              if \<not> made then cret False
              else write_chunk (chunk_path filename chunk_id) filename data data_size chunk_id
                     directoryHasFile)))))"

end
