(* ===== verification/Catalogue.thy ===== *)
theory Catalogue
  imports File_State
begin

text \<open>
  What the node's catalogue promises: a list of files with their chunk ids, in the order of
  insertion. \<open>storage_rel\<close> says that the heap holds a given catalogue: every record of
  the array owns its string and its id array, nothing is shared, nothing is leaked. Each
  operation of state/fileState.c is then shown to compute its counterpart on catalogues.
\<close>

section \<open>Abstract catalogues\<close>

type_synonym catalogue = "(string \<times> int list) list"

text \<open>Insertion appends the chunk id to the last file, after adding the file if asked to.\<close>

fun cat_push :: "int \<Rightarrow> catalogue \<Rightarrow> catalogue" where
  "cat_push c [] = []"
| "cat_push c [(p, ids)] = [(p, ids @ [c])]"
| "cat_push c (x # y # cat) = x # cat_push c (y # cat)"

definition cat_insert :: "string \<Rightarrow> int \<Rightarrow> bool \<Rightarrow> catalogue \<Rightarrow> catalogue" where
  "cat_insert path c has cat = cat_push c (if has then cat else cat @ [(path, [])])"

fun cat_remove :: "string \<Rightarrow> catalogue \<Rightarrow> catalogue" where
  "cat_remove path [] = []"
| "cat_remove path ((p, ids) # cat) = (if p = path then cat else (p, ids) # cat_remove path cat)"

lemma cat_push_snoc [simp]: "cat_push c (cat @ [(p, ids)]) = cat @ [(p, ids @ [c])]"
proof (induction cat)
  case Nil
  then show ?case by simp
next
  case (Cons x cat)
  then show ?case by (cases cat) auto
qed

lemma cat_insert_new: "cat_insert path c False cat = cat @ [(path, [c])]"
  by (simp add: cat_insert_def)

lemma cat_insert_last: "cat_insert path c True (cat @ [(p, ids)]) = cat @ [(p, ids @ [c])]"
  by (simp add: cat_insert_def)

lemma cat_remove_absent: "path \<notin> fst ` set cat \<Longrightarrow> cat_remove path cat = cat"
  by (induction path cat rule: cat_remove.induct) auto

lemma cat_remove_split:
  "path \<notin> fst ` set ca \<Longrightarrow> cat_remove path (ca @ (path, ids) # cb) = ca @ cb"
  by (induction ca) auto

lemma cat_remove_cases:
  obtains "path \<notin> fst ` set cat"
  | ca ids cb where "cat = ca @ (path, ids) # cb" "path \<notin> fst ` set ca"
proof (cases "path \<in> fst ` set cat")
  case False
  then show thesis by (rule that(1))
next
  case True
  then have "path \<in> set (map fst cat)" by simp
  then obtain xs ys where split: "map fst cat = xs @ path # ys" "path \<notin> set xs"
    by (metis split_list_first)
  then have len: "length xs < length cat"
    by (metis length_append length_map less_add_same_cancel1 length_greater_0_conv list.distinct(1))
  let ?n = "length xs"
  have "map fst (take ?n cat) = xs" using split(1) by (simp add: take_map flip: take_map)
  moreover have "fst (cat ! ?n) = path"
    using split(1) len by (metis nth_append_length nth_map)
  moreover have "cat = take ?n cat @ cat ! ?n # drop (Suc ?n) cat"
    using len by (rule id_take_nth_drop)
  ultimately show thesis using split(2) that(2)[of "take ?n cat" "snd (cat ! ?n)"]
    by (metis image_set prod.collapse)
qed

section \<open>The heap holds a catalogue\<close>

definition rec_ok :: "(ptr \<Rightarrow> block option) \<Rightarrow> file_rec \<Rightarrow> string \<times> int list \<Rightarrow> bool" where
  "rec_ok m r f \<longleftrightarrow>
     m (file_path r) = Some (StrB (fst f)) \<and> num_chunks r = int (length (snd f)) \<and>
     (if snd f = [] then chunk_ids r = NULL
      else chunk_ids r \<noteq> NULL \<and> m (chunk_ids r) = Some (IntB (map Some (snd f))))"

definition rec_ptrs :: "file_rec \<Rightarrow> ptr list" where
  "rec_ptrs r = file_path r # (if chunk_ids r = NULL then [] else [chunk_ids r])"

definition base_ok :: "(ptr \<Rightarrow> block option) \<Rightarrow> ptr \<Rightarrow> file_rec list \<Rightarrow> bool" where
  "base_ok m base rs \<longleftrightarrow>
     (if rs = [] then base = NULL
      else base \<noteq> NULL \<and>
        (\<exists>xs. m base = Some (RecB xs) \<and> take (length rs) xs = map Some rs))"

definition ptrs_of :: "file_rec list \<Rightarrow> ptr list" where
  "ptrs_of rs = concat (map rec_ptrs rs)"

definition owned :: "ptr \<Rightarrow> file_rec list \<Rightarrow> ptr list" where
  "owned base rs = (if rs = [] then [] else [base]) @ ptrs_of rs"

text \<open>\<open>F\<close> is the set of blocks that belong to others.\<close>

definition storage_rel ::
  "'h StorageStateOuter_scheme \<Rightarrow> file_rec list \<Rightarrow> catalogue \<Rightarrow> ptr set \<Rightarrow> bool" where
  "storage_rel s rs cat F \<longleftrightarrow>
     heap_ok s \<and> num_file_count s = int (length cat) \<and>
     base_ok (mem s) (file_to_chunk_state s) rs \<and> list_all2 (rec_ok (mem s)) rs cat \<and>
     distinct (owned (file_to_chunk_state s) rs) \<and>
     set (owned (file_to_chunk_state s) rs) \<inter> F = {} \<and>
     dom (mem s) = set (owned (file_to_chunk_state s) rs) \<union> F"

text \<open>What an operation leaves alone: the blocks of others and everything that is not heap.\<close>

definition hframe :: "ptr set \<Rightarrow> 'h StorageStateOuter_scheme \<Rightarrow> 'h StorageStateOuter_scheme \<Rightarrow> bool" where
  "hframe F s s' \<longleftrightarrow>
     (\<forall>p \<in> F. mem s' p = mem s p) \<and> oom s' = oom s \<and> locked s' = locked s \<and>
     StorageStateOuter.more s' = StorageStateOuter.more s"

lemma hframe_refl [simp]: "hframe F s s"
  by (simp add: hframe_def)

lemma hframe_trans [trans]: "hframe F s t \<Longrightarrow> hframe F t u \<Longrightarrow> hframe F s u"
  by (simp add: hframe_def)

lemma rec_ok_cong:
  "rec_ok m r f \<Longrightarrow> (\<And>p. p \<in> set (rec_ptrs r) \<Longrightarrow> m' p = m p) \<Longrightarrow> rec_ok m' r f"
  by (auto simp: rec_ok_def rec_ptrs_def split: if_splits)

lemma recs_ok_cong:
  assumes "list_all2 (rec_ok m) rs cat"
    and "\<And>p. p \<in> set (ptrs_of rs) \<Longrightarrow> m' p = m p"
  shows "list_all2 (rec_ok m') rs cat"
  using assms
  by (induction rs cat rule: list_all2_induct) (auto simp: ptrs_of_def intro: rec_ok_cong)

lemma rec_ok_dom: "rec_ok m r f \<Longrightarrow> p \<in> set (rec_ptrs r) \<Longrightarrow> m p \<noteq> None"
  by (auto simp: rec_ok_def rec_ptrs_def split: if_splits)

section \<open>Loads and stores on the records\<close>

lemma load_ok [cm_run]: "p \<noteq> NULL \<Longrightarrow> mem s p = Some b \<Longrightarrow> load p s = Inr (b, s)"
  by (simp add: load_def)

lemma read_elem_ok [cm_run]:
  "i < length xs \<Longrightarrow> xs ! i = Some x \<Longrightarrow> read_elem xs (int i) s = Inr (x, s)"
  by (simp add: read_elem_def)

lemma read_rec_ok [cm_run]:
  "p \<noteq> NULL \<Longrightarrow> mem s p = Some (RecB xs) \<Longrightarrow> i < length xs \<Longrightarrow> xs ! i = Some r \<Longrightarrow>
   read_rec p (int i) s = Inr (r, s)"
  by (simp add: read_rec_def load_recs_def cbind_def cm_run)

lemma write_rec_ok [cm_run]:
  "p \<noteq> NULL \<Longrightarrow> mem s p = Some (RecB xs) \<Longrightarrow> i < length xs \<Longrightarrow>
   write_rec p (int i) r s = Inr ((), s\<lparr>mem := (mem s)(p \<mapsto> RecB (xs[i := Some r]))\<rparr>)"
  by (simp add: write_rec_def load_recs_def store_def cbind_def cm_run)

lemma read_int_ok [cm_run]:
  "p \<noteq> NULL \<Longrightarrow> mem s p = Some (IntB xs) \<Longrightarrow> i < length xs \<Longrightarrow> xs ! i = Some x \<Longrightarrow>
   read_int p (int i) s = Inr (x, s)"
  by (simp add: read_int_def load_ints_def cbind_def cm_run)

lemma write_int_ok [cm_run]:
  "p \<noteq> NULL \<Longrightarrow> mem s p = Some (IntB xs) \<Longrightarrow> i < length xs \<Longrightarrow>
   write_int p (int i) x s = Inr ((), s\<lparr>mem := (mem s)(p \<mapsto> IntB (xs[i := Some x]))\<rparr>)"
  by (simp add: write_int_def load_ints_def store_def cbind_def cm_run)

lemma load_str_ok [cm_run]:
  "p \<noteq> NULL \<Longrightarrow> mem s p = Some (StrB x) \<Longrightarrow> load_str p s = Inr (x, s)"
  by (simp add: load_str_def cbind_def cm_run)

lemma storage_rel_length: "storage_rel s rs cat F \<Longrightarrow> length rs = length cat"
  by (auto simp: storage_rel_def dest: list_all2_lengthD)

lemma storage_rel_base:
  assumes "storage_rel s rs cat F" "rs \<noteq> []"
  obtains xs where "file_to_chunk_state s \<noteq> NULL"
    "mem s (file_to_chunk_state s) = Some (RecB xs)"
    "take (length rs) xs = map Some rs" "length rs \<le> length xs"
proof -
  from assms obtain xs where "file_to_chunk_state s \<noteq> NULL"
    "mem s (file_to_chunk_state s) = Some (RecB xs)" and t: "take (length rs) xs = map Some rs"
    by (auto simp: storage_rel_def base_ok_def)
  moreover from t have "length rs \<le> length xs"
    by (metis length_map length_take min_def nat_le_linear)
  ultimately show thesis using that t by blast
qed

lemma take_map_nth:
  "take (length rs) xs = map Some rs \<Longrightarrow> i < length rs \<Longrightarrow> xs ! i = Some (rs ! i)"
  by (metis length_map nth_map nth_take)

lemma storage_rel_read:
  assumes rel: "storage_rel s rs cat F" and i: "i < length cat"
  shows "read_rec (file_to_chunk_state s) (int i) s = Inr (rs ! i, s)"
proof -
  have len: "length rs = length cat" using rel by (rule storage_rel_length)
  with i have "rs \<noteq> []" by auto
  with rel obtain xs where "file_to_chunk_state s \<noteq> NULL"
    "mem s (file_to_chunk_state s) = Some (RecB xs)"
    "take (length rs) xs = map Some rs" "length rs \<le> length xs"
    by (rule storage_rel_base)
  with len i show ?thesis by (intro read_rec_ok) (auto simp: take_map_nth)
qed

lemma storage_rel_path:
  assumes rel: "storage_rel s rs cat F" and i: "i < length cat"
  shows "load_str (file_path (rs ! i)) s = Inr (fst (cat ! i), s)"
proof -
  have "rec_ok (mem s) (rs ! i) (cat ! i)"
    using rel i by (auto simp: storage_rel_def list_all2_conv_all_nth)
  then have m: "mem s (file_path (rs ! i)) = Some (StrB (fst (cat ! i)))"
    by (simp add: rec_ok_def)
  moreover have "heap_ok s" using rel by (simp add: storage_rel_def)
  ultimately have "file_path (rs ! i) \<noteq> NULL" by (auto dest: heap_okD)
  with m show ?thesis by (intro load_str_ok)
qed

lemma storage_rel_ids:
  assumes rel: "storage_rel s rs cat F" and i: "i < length cat"
    and j: "j < length (snd (cat ! i))"
  shows "read_int (chunk_ids (rs ! i)) (int j) s = Inr (snd (cat ! i) ! j, s)"
proof -
  have r: "rec_ok (mem s) (rs ! i) (cat ! i)"
    using rel i by (auto simp: storage_rel_def list_all2_conv_all_nth)
  from j have "snd (cat ! i) \<noteq> []" by auto
  with r j show ?thesis by (intro read_int_ok) (auto simp: rec_ok_def)
qed

lemma storage_rel_num:
  assumes rel: "storage_rel s rs cat F" and i: "i < length cat"
  shows "num_chunks (rs ! i) = int (length (snd (cat ! i)))"
  using assms by (auto simp: storage_rel_def list_all2_conv_all_nth rec_ok_def)

section \<open>Reading the catalogue back\<close>

lemma read_file_entry_run:
  assumes rel: "storage_rel s rs cat F" and i: "i < length cat"
  shows "read_file_entry (file_to_chunk_state s) i s = Inr (cat ! i, s)"
proof -
  have "collect_up 0 (length (snd (cat ! i))) (\<lambda>j. read_int (chunk_ids (rs ! i)) (int j)) s
        = Inr (snd (cat ! i), s)"
    using rel i by (intro collect_up_read) (simp add: storage_rel_ids)
  then show ?thesis
    by (simp add: read_file_entry_def cbind_def storage_rel_read[OF rel i]
        storage_rel_path[OF rel i] storage_rel_num[OF rel i])
qed

lemma read_all_run:
  assumes rel: "storage_rel s rs cat F"
  shows "collect_up 0 (length cat) (read_file_entry (file_to_chunk_state s)) s = Inr (cat, s)"
  by (rule collect_up_read) (simp add: read_file_entry_run[OF rel])

lemma storage_rel_locked [simp]:
  "storage_rel (s\<lparr>locked := b\<rparr>) rs cat F \<longleftrightarrow> storage_rel s rs cat F"
  by (simp add: storage_rel_def heap_ok_def)

lemma print_storage_state_run:
  assumes rel: "storage_rel s rs cat F" and free: "\<not> locked s"
  shows "print_storage_state s = Inr (cat, s)"
proof -
  have "storage_rel (s\<lparr>locked := True\<rparr>) rs cat F" using rel by simp
  from read_all_run[OF this] show ?thesis
    using free rel
    by (simp add: print_storage_state_def cbind_def mutex_lock_def mutex_unlock_def
        storage_rel_def cong: if_cong)
qed

section \<open>Insertion\<close>

lemma recs_ptrs_dom:
  "list_all2 (rec_ok m) rs cat \<Longrightarrow> p \<in> set (ptrs_of rs) \<Longrightarrow> m p \<noteq> None"
proof (induction rs cat rule: list_all2_induct)
  case Nil
  then show ?case by (simp add: ptrs_of_def)
next
  case (Cons r rs f cat)
  then show ?case using rec_ok_dom[of m r f p] by (auto simp: ptrs_of_def)
qed

lemma heap_ok_NULL: "heap_ok s \<Longrightarrow> mem s NULL = None"
  by (cases "mem s NULL") (auto simp: heap_ok_def)

lemma ptrs_of_append: "ptrs_of (as @ bs) = ptrs_of as @ ptrs_of bs"
  by (simp add: ptrs_of_def)

lemma ptrs_of_Cons: "ptrs_of (r # bs) = rec_ptrs r @ ptrs_of bs"
  by (simp add: ptrs_of_def)

lemma ptrs_of_Nil: "ptrs_of [] = []"
  by (simp add: ptrs_of_def)

lemma owned_split:
  "owned b (as @ r # bs) = b # ptrs_of as @ rec_ptrs r @ ptrs_of bs"
  by (simp add: owned_def ptrs_of_def)

lemma take_update_map:
  assumes "take (length rs) xs = map Some rs" "i < length rs"
  shows "take (length rs) (xs[i := Some r]) = map Some (rs[i := r])"
  using assms by (simp add: take_update_swap map_update)

lemma storage_rel_live:
  assumes "storage_rel s rs cat F"
    and "x \<in> set (owned (file_to_chunk_state s) rs) \<union> F"
  shows "0 < x \<and> x < brk s"
proof -
  have "x \<in> dom (mem s)" "heap_ok s" using assms by (auto simp: storage_rel_def)
  then show ?thesis by (auto simp: heap_ok_def)
qed

text \<open>
  Part of the array changes: the records \<open>mid\<close> become \<open>mid'\<close>. It is enough that
  the blocks of the other records are untouched and that the new blocks are fresh.
\<close>

lemma storage_rel_splice:
  assumes rel: "storage_rel s (as @ mid @ bs) (ca @ cm @ cb) F"
    and len: "length as = length ca" "length mid = length cm"
    and agree: "\<And>x. x \<in> set (ptrs_of as) \<union> set (ptrs_of bs) \<Longrightarrow> mem s' x = mem s x"
    and ok: "heap_ok s'" and n: "num_file_count s' = int (length (ca @ cm' @ cb))"
    and base: "base_ok (mem s') (file_to_chunk_state s') (as @ mid' @ bs)"
    and recs: "list_all2 (rec_ok (mem s')) mid' cm'"
    and new: "new = (if as @ mid' @ bs = [] then [] else [file_to_chunk_state s']) @ ptrs_of mid'"
    and dist: "distinct new" "set new \<inter> (set (ptrs_of as) \<union> set (ptrs_of bs) \<union> F) = {}"
    and dom: "dom (mem s') = set new \<union> (set (ptrs_of as) \<union> set (ptrs_of bs) \<union> F)"
  shows "storage_rel s' (as @ mid' @ bs) (ca @ cm' @ cb) F"
proof -
  let ?b = "file_to_chunk_state s" and ?b' = "file_to_chunk_state s'"
  have all: "list_all2 (rec_ok (mem s)) (as @ mid @ bs) (ca @ cm @ cb)"
    and d0: "distinct (owned ?b (as @ mid @ bs))"
    and F0: "set (owned ?b (as @ mid @ bs)) \<inter> F = {}"
    using rel by (auto simp: storage_rel_def)
  have ra: "list_all2 (rec_ok (mem s)) as ca" and rb: "list_all2 (rec_ok (mem s)) bs cb"
    using all len by (auto simp: list_all2_append)
  have ra': "list_all2 (rec_ok (mem s')) as ca"
    by (rule recs_ok_cong[OF ra], rule agree, erule UnI1)
  have rb': "list_all2 (rec_ok (mem s')) bs cb"
    by (rule recs_ok_cong[OF rb], rule agree, erule UnI2)
  have own: "set (owned ?b' (as @ mid' @ bs)) = set new \<union> set (ptrs_of as) \<union> set (ptrs_of bs)"
    by (auto simp: owned_def new ptrs_of_def)
  have old: "distinct (ptrs_of as)" "distinct (ptrs_of bs)"
    "set (ptrs_of as) \<inter> set (ptrs_of bs) = {}" "set (ptrs_of as) \<inter> F = {}"
    "set (ptrs_of bs) \<inter> F = {}"
    using d0 F0 by (auto simp: owned_def ptrs_of_append)
  have "distinct (owned ?b' (as @ mid' @ bs))"
    using dist old unfolding owned_def new by (auto simp: ptrs_of_append)
  moreover have "set (owned ?b' (as @ mid' @ bs)) \<inter> F = {}"
    unfolding own using dist old by auto
  moreover have "list_all2 (rec_ok (mem s')) (as @ mid' @ bs) (ca @ cm' @ cb)"
    using ra' rb' recs by (intro list_all2_appendI)
  ultimately show ?thesis
    using ok n base dom unfolding storage_rel_def own by auto
qed

text \<open>One record changes: its array slot is overwritten and its id array replaced.\<close>

lemma storage_rel_replace:
  assumes rel: "storage_rel s (as @ r # bs) (ca @ (p, ids) # cb) F"
    and len: "length as = length ca"
    and xs: "mem s (file_to_chunk_state s) = Some (RecB xs)"
    and ids': "ids' \<noteq> []"
    and r': "r' = r\<lparr>chunk_ids := brk s, num_chunks := int (length ids')\<rparr>"
    and m': "m' = (mem s)(chunk_ids r := None, brk s \<mapsto> IntB (map Some ids'),
              file_to_chunk_state s \<mapsto> RecB (xs[length as := Some r']))"
  shows "storage_rel (s\<lparr>mem := m', brk := Suc (brk s)\<rparr>) (as @ r' # bs) (ca @ (p, ids') # cb) F"
proof -
  let ?b = "file_to_chunk_state s" and ?s' = "s\<lparr>mem := m', brk := Suc (brk s)\<rparr>"
  have ok: "heap_ok s" and n: "num_file_count s = int (length (ca @ (p, ids) # cb))"
    and all: "list_all2 (rec_ok (mem s)) (as @ r # bs) (ca @ (p, ids) # cb)"
    and base: "base_ok (mem s) ?b (as @ r # bs)"
    and dist: "distinct (?b # ptrs_of as @ rec_ptrs r @ ptrs_of bs)"
    and F: "set (?b # ptrs_of as @ rec_ptrs r @ ptrs_of bs) \<inter> F = {}"
    and dm: "dom (mem s) = set (?b # ptrs_of as @ rec_ptrs r @ ptrs_of bs) \<union> F"
    using rel by (auto simp: storage_rel_def owned_split)
  have live: "0 < x \<and> x < brk s"
    if "x \<in> set (?b # ptrs_of as @ rec_ptrs r @ ptrs_of bs) \<union> F" for x
    using storage_rel_live[OF rel] that unfolding owned_split by blast
  have fp: "file_path r \<in> set (rec_ptrs r)" and rr: "rec_ok (mem s) r (p, ids)"
    and c: "chunk_ids r = NULL \<or> chunk_ids r \<in> set (rec_ptrs r) \<and> chunk_ids r \<noteq> file_path r"
    using all len dist by (auto simp: rec_ptrs_def list_all2_append)
  have null: "NULL \<notin> dom (mem s)" using heap_ok_NULL[OF ok] by auto
  let ?rest = "set (ptrs_of as) \<union> set (ptrs_of bs) \<union> F"
  have out: "x \<noteq> chunk_ids r \<and> x \<noteq> brk s \<and> x \<noteq> ?b \<and> x \<noteq> file_path r" if "x \<in> ?rest" for x
    using that live[of x] dist F c fp by auto
  have fpo: "file_path r \<noteq> brk s" "file_path r \<noteq> ?b" "file_path r \<noteq> chunk_ids r"
    "?b \<noteq> brk s" "0 < file_path r" "chunk_ids r \<noteq> ?b"
    using live[of "file_path r"] live[of ?b] fp dist c by (auto simp: rec_ptrs_def)
  have cn: "chunk_ids r \<notin> ?rest" using out by blast
  have dm': "dom m' = {?b, file_path r, brk s} \<union> ?rest"
  proof -
    have "dom m' = {?b, brk s} \<union> (dom (mem s) - {chunk_ids r})" by (auto simp: m')
    also have "\<dots> = {?b, file_path r, brk s} \<union> ?rest"
      using dm cn fpo by (auto simp: rec_ptrs_def)
    finally show ?thesis .
  qed
  have ptr': "ptrs_of [r'] = [file_path r, brk s]"
    using heap_ok_brk[OF ok] by (simp add: ptrs_of_def rec_ptrs_def r')
  have "storage_rel ?s' (as @ [r'] @ bs) (ca @ [(p, ids')] @ cb) F"
  proof (rule storage_rel_splice[where mid = "[r]" and cm = "[(p, ids)]" and s = s
        and new = "?b # ptrs_of [r']"])
    show "heap_ok ?s'" using ok fpo live[of ?b] by (auto simp: heap_ok_def m' less_Suc_eq)
    show "base_ok (mem ?s') (file_to_chunk_state ?s') (as @ [r'] @ bs)"
      using base xs take_update_map[of "as @ r # bs" xs "length as" r']
      by (auto simp: base_ok_def m')
    show "list_all2 (rec_ok (mem ?s')) [r'] [(p, ids')]"
      using rr fpo ids' heap_ok_brk[OF ok] by (auto simp: rec_ok_def r' m')
    show "mem ?s' x = mem s x" if "x \<in> set (ptrs_of as) \<union> set (ptrs_of bs)" for x
    proof -
      from that have "x \<in> ?rest" by blast
      from out[OF this] show ?thesis by (simp add: m')
    qed
    show "set (?b # ptrs_of [r']) \<inter> ?rest = {}" unfolding ptr' using out by fastforce
  qed (use rel len n dm' fpo in \<open>auto simp: ptr'\<close>)
  then show ?thesis by simp
qed

lemma resize_push: "(resize (Suc (length ids)) (map Some ids))[length ids := Some c] = map Some (ids @ [c])"
  using resize_Suc[of "map Some ids"] list_update_length[of "map Some ids" None "[]" "Some c"]
  by simp

text \<open>
  \<open>push_chunk_id\<close> on the record at index \<open>length as\<close>: the id is appended, or, when
  the allocation fails, nothing changes and nothing is reported.
\<close>

lemma push_chunk_id_run:
  assumes rel: "storage_rel s (as @ r # bs) (ca @ (p, ids) # cb) F"
    and len: "length as = length ca" and i: "i = int (length as)"
    and bound: "int (length ids) < int_max"
  obtains r' s' where "push_chunk_id (file_to_chunk_state s) i c s = Inr ((), s')"
    "storage_rel s' (as @ r' # bs) (ca @ (p, if oom s (brk s) then ids else ids @ [c]) # cb) F"
    "hframe F s s'"
proof -
  let ?b = "file_to_chunk_state s"
  have ok: "heap_ok s" and rr: "rec_ok (mem s) r (p, ids)"
    using rel len by (auto simp: storage_rel_def list_all2_append)
  obtain xs where xs: "?b \<noteq> NULL" "mem s ?b = Some (RecB xs)"
    "take (length (as @ r # bs)) xs = map Some (as @ r # bs)" "length (as @ r # bs) \<le> length xs"
    by (rule storage_rel_base[OF rel]) simp
  have at: "xs ! length as = Some r" using take_map_nth[OF xs(3), of "length as"] by simp
  have lt: "length as < length xs" using xs(4) by simp
  have read: "read_rec ?b i s = Inr (r, s)" unfolding i by (rule read_rec_ok[OF xs(1,2) lt at])
  have num: "num_chunks r = int (length ids)" using rr by (simp add: rec_ok_def)
  show thesis
  proof (cases "oom s (brk s)")
    case True
    have "push_chunk_id ?b i c s = Inr ((), s\<lparr>brk := Suc (brk s)\<rparr>)"
      using True read rr bound num
      by (auto simp: push_chunk_id_def cbind_def int_succ_def realloc_block_def malloc_block_def
          rec_ok_def split: if_splits)
    moreover have "storage_rel (s\<lparr>brk := Suc (brk s)\<rparr>) (as @ r # bs) (ca @ (p, ids) # cb) F"
      using rel by (auto simp: storage_rel_def heap_ok_def less_Suc_eq)
    ultimately show thesis using True by (intro that[of _ r]) (auto simp: hframe_def)
  next
    case False
    let ?r1 = "r\<lparr>chunk_ids := brk s\<rparr>" and ?n = "int (length ids) + 1"
    let ?r' = "?r1\<lparr>num_chunks := ?n\<rparr>"
    let ?m1 = "(mem s)(chunk_ids r := None, brk s \<mapsto> IntB (resize (Suc (length ids)) (map Some ids)))"
    let ?s1 = "s\<lparr>mem := ?m1, brk := Suc (brk s)\<rparr>"
    let ?m' = "(mem s)(chunk_ids r := None, brk s \<mapsto> IntB (map Some (ids @ [c])),
      ?b \<mapsto> RecB (xs[length as := Some ?r']))"
    have q: "brk s \<noteq> NULL" "mem s (brk s) = None" "mem s NULL = None"
      using heap_ok_brk[OF ok] heap_ok_fresh[OF ok] heap_ok_NULL[OF ok] by auto
    have b: "?b \<noteq> brk s" "?b \<noteq> chunk_ids r" using xs q rr by (auto simp: rec_ok_def split: if_splits)
    have nat: "nat (1 + int (length ids)) = Suc (length ids)" "nat ?n = Suc (length ids)" by auto
    have re: "realloc_block (chunk_ids r) (IntB []) (nat ?n) s = Inr (brk s, ?s1)"
      using False rr q fun_upd_idem[of "mem s" NULL None] unfolding nat
      by (cases "ids = []") (auto simp: realloc_block_def malloc_block_def rec_ok_def)
    have w1: "write_rec ?b i ?r1 ?s1 = Inr ((), ?s1\<lparr>mem := ?m1(?b \<mapsto> RecB (xs[length as := Some ?r1]))\<rparr>)"
      (is "_ = Inr (_, ?s2)")
      unfolding i using xs lt b by (subst write_rec_ok) auto
    have w2: "write_int (brk s) (int (length ids)) c ?s2 = Inr ((), ?s2\<lparr>mem := (mem ?s2)(brk s \<mapsto> IntB (map Some (ids @ [c])))\<rparr>)"
      (is "_ = Inr (_, ?s3)")
      using q b by (subst write_int_ok[where xs = "resize (Suc (length ids)) (map Some ids)"])
        (auto simp: resize_push simp del: map_append)
    have w3: "write_rec ?b i ?r' ?s3 = Inr ((), ?s3\<lparr>mem := (mem ?s3)(?b \<mapsto> RecB (xs[length as := Some ?r']))\<rparr>)"
      (is "_ = Inr (_, ?s4)")
      unfolding i using xs lt b by (subst write_rec_ok[where xs = "xs[length as := Some ?r1]"]) auto
    have s4: "?s4 = s\<lparr>mem := ?m', brk := Suc (brk s)\<rparr>"
      using b by (simp add: fun_upd_twist)
    have "push_chunk_id ?b i c s = Inr ((), ?s4)"
      using bound q(1) by (simp only: push_chunk_id_def cbind_def read num int_succ_ok re w1 w2 w3
        sum.case prod.case if_False)
    moreover have "storage_rel ?s4 (as @ ?r' # bs) (ca @ (p, ids @ [c]) # cb) F"
      unfolding s4 by (rule storage_rel_replace[OF rel len xs(2)]) auto
    moreover have "hframe F s ?s4"
    proof -
      have "x \<noteq> ?b \<and> x \<noteq> brk s \<and> x \<noteq> chunk_ids r" if "x \<in> F" for x
        using rel that storage_rel_live[OF rel, of x] heap_ok_NULL[OF ok]
        unfolding storage_rel_def owned_split by (auto simp: rec_ptrs_def split: if_splits)
      then show ?thesis unfolding s4 hframe_def by auto
    qed
    ultimately show thesis using False by (intro that[of ?s4 ?r']) simp_all
  qed
qed

text \<open>The array moves to a block one longer; the contents stay.\<close>

lemma realloc_files_ok:
  assumes rel: "storage_rel s rs cat F" and noom: "\<not> oom s (brk s)"
  obtains xs where
    "realloc_block (file_to_chunk_state s) (RecB []) (Suc (length rs)) s
     = Inr (brk s, s\<lparr>mem := (mem s)(file_to_chunk_state s := None, brk s \<mapsto> RecB xs),
                    brk := Suc (brk s)\<rparr>)"
    "length xs = Suc (length rs)" "take (length rs) xs = map Some rs"
proof (cases "rs = []")
  case True
  have null: "file_to_chunk_state s = NULL" "mem s NULL = None"
    using rel True heap_ok_NULL[of s] by (auto simp: storage_rel_def base_ok_def)
  then have "(mem s)(file_to_chunk_state s := None) = mem s" by (simp add: fun_upd_idem)
  then show thesis using noom null True
    by (intro that[of "resize 1 []"]) (auto simp: realloc_block_def malloc_block_def)
next
  case False
  with rel obtain xs where xs: "file_to_chunk_state s \<noteq> NULL"
    "mem s (file_to_chunk_state s) = Some (RecB xs)"
    "take (length rs) xs = map Some rs" "length rs \<le> length xs"
    by (rule storage_rel_base)
  then show thesis using noom
    by (intro that[of "resize (Suc (length rs)) xs"]) (auto simp: realloc_block_def take_resize)
qed

lemma new_file_slot_run:
  assumes rel: "storage_rel s rs cat F" and bound: "int (length cat) < int_max"
    and noom: "\<not> oom s (brk s)" "\<not> oom s (Suc (brk s))"
  obtains r s' where "new_file_slot path s = Inr ((), s')"
    "storage_rel s' (rs @ [r]) (cat @ [(path, [])]) F" "hframe F s s'" "brk s' = brk s + 2"
proof -
  let ?b = "file_to_chunk_state s" and ?q = "brk s" and ?p = "Suc (brk s)"
  let ?r = "\<lparr>file_path = ?p, chunk_ids = NULL, num_chunks = 0\<rparr>"
  have ok: "heap_ok s" and n: "num_file_count s = int (length cat)" and len: "length rs = length cat"
    and dist: "distinct (owned ?b rs)" and F: "set (owned ?b rs) \<inter> F = {}"
    and dm: "dom (mem s) = set (owned ?b rs) \<union> F"
    using rel storage_rel_length[OF rel] by (auto simp: storage_rel_def)
  obtain xs where re: "realloc_block ?b (RecB []) (Suc (length rs)) s
     = Inr (?q, s\<lparr>mem := (mem s)(?b := None, ?q \<mapsto> RecB xs), brk := Suc ?q\<rparr>)"
    and xs: "length xs = Suc (length rs)" "take (length rs) xs = map Some rs"
    using rel noom(1) by (rule realloc_files_ok)
  let ?m' = "(mem s)(?b := None, ?p \<mapsto> StrB path, ?q \<mapsto> RecB (xs[length rs := Some ?r]))"
  let ?s' = "s\<lparr>mem := ?m', brk := brk s + 2, file_to_chunk_state := ?q, num_file_count := int (length cat) + 1\<rparr>"
  have live: "0 < x \<and> x < ?q" if "x \<in> set (owned ?b rs) \<union> F" for x
    using storage_rel_live[OF rel] that by blast
  have q: "0 < ?q" using ok by (rule heap_ok_brk)
  have bo: "x \<noteq> ?b" if "x \<in> set (ptrs_of rs) \<union> F" for x
    using that live[of x] dist F rel by (auto simp: owned_def base_ok_def storage_rel_def split: if_splits)
  have run: "new_file_slot path s = Inr ((), ?s')"
    using re q noom(2) bound n len xs(1)
    by (simp add: new_file_slot_def cbind_def int_succ_ok strdup_def malloc_block_def
        write_rec_def load_recs_def load_def store_def nat_add_distrib fun_upd_twist)
  have "storage_rel ?s' (rs @ [?r] @ []) (cat @ [(path, [])] @ []) F"
  proof (rule storage_rel_splice[where mid = "[]" and cm = "[]" and s = s and new = "[?q, ?p]"])
    show "heap_ok ?s'" using ok by (auto simp: heap_ok_def less_Suc_eq)
    show "base_ok (mem ?s') (file_to_chunk_state ?s') (rs @ [?r] @ [])"
      using q xs by (simp add: base_ok_def upd_conv_take_nth_drop)
    show "list_all2 (rec_ok (mem ?s')) [?r] [(path, [])]" by (simp add: rec_ok_def)
    have "dom ?m' = {?q, ?p} \<union> (dom (mem s) - {?b})" by auto
    moreover have "dom (mem s) - {?b} = set (ptrs_of rs) \<union> F"
      using dm bo rel by (auto simp: owned_def storage_rel_def ptrs_of_def split: if_splits)
    ultimately show "dom (mem ?s') = set [?q, ?p] \<union> (set (ptrs_of rs) \<union> set (ptrs_of []) \<union> F)"
      by (simp add: ptrs_of_Nil)
    show "mem ?s' x = mem s x" if "x \<in> set (ptrs_of rs) \<union> set (ptrs_of [])" for x
      using that bo[of x] live[of x] by (auto simp: ptrs_of_Nil owned_def)
    show "set [?q, ?p] \<inter> (set (ptrs_of rs) \<union> set (ptrs_of []) \<union> F) = {}"
      using live[of ?q] live[of ?p] by (auto simp: ptrs_of_Nil owned_def)
  qed (use rel len in \<open>auto simp: ptrs_of_def rec_ptrs_def\<close>)
  moreover have "hframe F s ?s'"
    using bo live[of ?q] live[of ?p] by (auto simp: hframe_def)
  ultimately show thesis using run by (intro that[of ?s' ?r]) auto
qed

definition no_oom :: "'h heap_scheme \<Rightarrow> bool" where
  "no_oom s \<longleftrightarrow> (\<forall>n. \<not> oom s n)"

lemma no_oom_frame: "hframe F s s' \<Longrightarrow> no_oom s' = no_oom s"
  by (simp add: hframe_def no_oom_def)

text \<open>The counters stay below \<open>INT_MAX\<close>.\<close>

definition cat_bounded :: "catalogue \<Rightarrow> bool" where
  "cat_bounded cat \<longleftrightarrow> int (length cat) < int_max \<and> (\<forall>f \<in> set cat. int (length (snd f)) < int_max)"

lemma storage_rel_lock: "storage_rel s rs cat F \<Longrightarrow> storage_rel (s\<lparr>locked := b\<rparr>) rs cat F"
  by simp

text \<open>What follows the slot: push on the last record, unlock, print.\<close>

lemma insert_tail_run:
  assumes rel: "storage_rel s rs (ca @ [(p, ids)]) F" and bound: "int (length ids) < int_max"
    and lock: "locked s"
  obtains rs' s' where
    "cbind (cget (\<lambda>s. (file_to_chunk_state s, num_file_count s))) (\<lambda>(base, n).
     cbind (push_chunk_id base (n - 1) c) (\<lambda>_.
     cbind mutex_unlock (\<lambda>_.
     cbind print_storage_state (\<lambda>_. cret ())))) s = Inr ((), s')"
    "storage_rel s' rs' (ca @ [(p, if oom s (brk s) then ids else ids @ [c])]) F"
    "hframe F (s\<lparr>locked := False\<rparr>) s'"
proof -
  have len: "length rs = Suc (length ca)" using storage_rel_length[OF rel] by simp
  then obtain as r where rs: "rs = as @ [r]" "length as = length ca"
    by (metis length_Suc_conv_rev)
  have n: "num_file_count s - 1 = int (length as)" using rel rs by (simp add: storage_rel_def)
  from rel rs(1) have rel': "storage_rel s (as @ r # []) (ca @ (p, ids) # []) F" by simp
  obtain r' s1 where push: "push_chunk_id (file_to_chunk_state s) (num_file_count s - 1) c s = Inr ((), s1)"
    and rel1: "storage_rel s1 (as @ r' # []) (ca @ (p, if oom s (brk s) then ids else ids @ [c]) # []) F"
    and fr: "hframe F s s1"
    by (rule push_chunk_id_run[OF rel' rs(2) n bound])
  have lock1: "locked s1" using fr lock by (simp add: hframe_def)
  let ?s2 = "s1\<lparr>locked := False\<rparr>"
  have rel2: "storage_rel ?s2 (as @ [r']) (ca @ [(p, if oom s (brk s) then ids else ids @ [c])]) F"
    using rel1 by simp
  have print: "print_storage_state ?s2 = Inr (ca @ [(p, if oom s (brk s) then ids else ids @ [c])], ?s2)"
    by (rule print_storage_state_run[OF rel2]) simp
  have "hframe F (s\<lparr>locked := False\<rparr>) ?s2" using fr by (simp add: hframe_def)
  then show thesis using print rel2 push lock1
    by (intro that[of ?s2]) (simp_all add: cbind_def mutex_unlock_def)
qed

text \<open>
  With memory available, \<open>insert_to_struct\<close> computes \<open>cat_insert\<close>: no undefined
  behaviour, the lock is free again, no block is leaked or shared, and what belongs to
  others is untouched.
\<close>

lemma insert_to_struct_run:
  assumes rel: "storage_rel s rs cat F" and free: "\<not> locked s" and mem: "no_oom s"
    and bound: "cat_bounded cat" and last: "has \<Longrightarrow> cat \<noteq> []"
  obtains rs' s' where "insert_to_struct path c has s = Inr ((), s')"
    "storage_rel s' rs' (cat_insert path c has cat) F" "hframe F s s'"
proof -
  let ?s0 = "s\<lparr>locked := True\<rparr>"
  have rel0: "storage_rel ?s0 rs cat F" using rel by simp
  obtain rs1 s1 ca p ids where
    slot: "(if \<not> has then new_file_slot path else cret ()) ?s0 = Inr ((), s1)"
    and rel1: "storage_rel s1 rs1 (ca @ [(p, ids)]) F" and fr: "hframe F ?s0 s1"
    and cat1: "(if has then cat else cat @ [(path, [])]) = ca @ [(p, ids)]"
    and b1: "int (length ids) < int_max"
  proof (cases has)
    case True
    with last obtain ca f where "cat = ca @ [f]" by (metis rev_exhaust)
    with True rel0 bound that[of ?s0 rs ca "fst f" "snd f"] show thesis
      by (auto simp: cat_bounded_def)
  next
    case False
    have oo: "\<not> oom ?s0 (brk ?s0)" "\<not> oom ?s0 (Suc (brk ?s0))" using mem by (auto simp: no_oom_def)
    have bc: "int (length cat) < int_max" using bound by (simp add: cat_bounded_def)
    obtain r s1 where "new_file_slot path ?s0 = Inr ((), s1)"
      "storage_rel s1 (rs @ [r]) (cat @ [(path, [])]) F" "hframe F ?s0 s1"
      by (rule new_file_slot_run[OF rel0 bc oo])
    with False that[of s1 "rs @ [r]" cat path "[]"] show thesis by (simp add: int_max_def)
  qed
  have lock1: "locked s1" and mem1: "no_oom s1"
    using fr mem by (auto simp: hframe_def no_oom_def)
  obtain rs' s' where tail: "cbind (cget (\<lambda>s. (file_to_chunk_state s, num_file_count s))) (\<lambda>(base, n).
     cbind (push_chunk_id base (n - 1) c) (\<lambda>_.
     cbind mutex_unlock (\<lambda>_.
     cbind print_storage_state (\<lambda>_. cret ())))) s1 = Inr ((), s')"
    and rel': "storage_rel s' rs' (ca @ [(p, if oom s1 (brk s1) then ids else ids @ [c])]) F"
    and fr': "hframe F (s1\<lparr>locked := False\<rparr>) s'"
    by (rule insert_tail_run[OF rel1 b1 lock1])
  have "insert_to_struct path c has s = Inr ((), s')"
    unfolding insert_to_struct_def using free slot tail by (simp add: cbind_def mutex_lock_def)
  moreover have "storage_rel s' rs' (cat_insert path c has cat) F"
    using rel' mem1 cat1 by (simp add: cat_insert_def no_oom_def)
  moreover have "hframe F s s'" using fr fr' free by (simp add: hframe_def)
  ultimately show thesis by (rule that)
qed

section \<open>Removal\<close>

lemma find_file_index_absent:
  assumes rel: "storage_rel s rs cat F"
  shows "path \<notin> fst ` set (drop i cat) \<Longrightarrow> i + k = length cat \<Longrightarrow>
    find_file_index (file_to_chunk_state s) path i k s = Inr (None, s)"
proof (induction k arbitrary: i)
  case 0
  then show ?case by simp
next
  case (Suc k)
  have i: "i < length cat" using Suc.prems(2) by simp
  then have d: "drop i cat = cat ! i # drop (Suc i) cat" by (simp add: Cons_nth_drop_Suc)
  with Suc.prems(1) have "fst (cat ! i) \<noteq> path" "path \<notin> fst ` set (drop (Suc i) cat)" by auto
  then show ?case using Suc
    by (simp add: cbind_def storage_rel_read[OF rel i] storage_rel_path[OF rel i])
qed

lemma find_file_index_present:
  assumes rel: "storage_rel s rs (ca @ (path, ids) # cb) F" and first: "path \<notin> fst ` set ca"
  shows "i \<le> length ca \<Longrightarrow> length ca - i < k \<Longrightarrow>
    find_file_index (file_to_chunk_state s) path i k s = Inr (Some (length ca), s)"
proof (induction k arbitrary: i)
  case 0
  then show ?case by simp
next
  case (Suc k)
  let ?cat = "ca @ (path, ids) # cb"
  have i: "i < length ?cat" using Suc.prems(1) by simp
  have "fst (?cat ! i) = path \<longleftrightarrow> i = length ca"
    using first Suc.prems(1) by (cases "i = length ca") (auto simp: nth_append)
  then show ?case using Suc
    by (auto simp: cbind_def storage_rel_read[OF rel i] storage_rel_path[OF rel i])
qed

text \<open>The loop that closes the gap moves each element one place down.\<close>

lemma shift_down_run:
  assumes "b \<noteq> NULL" "mem s b = Some (RecB xs)" "i + k < length xs"
    and "\<And>j. i < j \<Longrightarrow> j \<le> i + k \<Longrightarrow> xs ! j \<noteq> None"
  shows "for_up i k (\<lambda>i. cbind (read_rec b (int i + 1)) (\<lambda>r. write_rec b (int i) r)) s
    = Inr ((), s\<lparr>mem := (mem s)(b \<mapsto> RecB (take i xs @ take k (drop (Suc i) xs) @ drop (i + k) xs))\<rparr>)"
  using assms
proof (induction k arbitrary: i xs s)
  case 0
  have "take i xs @ take 0 (drop (Suc i) xs) @ drop (i + 0) xs = xs" by simp
  moreover have "s\<lparr>mem := (mem s)(b \<mapsto> RecB xs)\<rparr> = s"
    using fun_upd_idem[of "mem s" b "Some (RecB xs)"] 0(2) by simp
  ultimately show ?case by (simp only: for_up.simps cret_apply)
next
  case (Suc k)
  from Suc.prems(3,4) obtain r where r: "xs ! Suc i = Some r" by fastforce
  let ?xs1 = "xs[i := Some r]" and ?s1 = "s\<lparr>mem := (mem s)(b \<mapsto> RecB (xs[i := Some r]))\<rparr>"
  have read: "read_rec b (int i + 1) s = Inr (r, s)"
    using read_rec_ok[of b s xs "Suc i" r] Suc.prems r by (simp add: add.commute)
  let ?f = "\<lambda>i. cbind (read_rec b (int i + 1)) (\<lambda>r. write_rec b (int i) r)"
  have "write_rec b (int i) r s = Inr ((), ?s1)" using Suc.prems by (intro write_rec_ok) auto
  then have first: "?f i s = Inr ((), ?s1)" by (simp add: cbind_def read)
  have rest: "for_up (Suc i) k ?f ?s1
    = Inr ((), ?s1\<lparr>mem := (mem ?s1)(b \<mapsto> RecB (take (Suc i) ?xs1 @ take k (drop (Suc (Suc i)) ?xs1)
         @ drop (Suc i + k) ?xs1))\<rparr>)"
    by (rule Suc.IH) (use Suc.prems in \<open>auto simp: nth_list_update\<close>)
  have eq: "take (Suc i) ?xs1 @ take k (drop (Suc (Suc i)) ?xs1) @ drop (Suc i + k) ?xs1
     = take i xs @ take (Suc k) (drop (Suc i) xs) @ drop (i + Suc k) xs"
    using Suc.prems(3) r Cons_nth_drop_Suc[of "Suc i" xs]
    by (simp add: take_Suc_conv_app_nth[of i] flip: Cons_nth_drop_Suc)
  have "for_up i (Suc k) ?f s = for_up (Suc i) k ?f ?s1"
    unfolding for_up.simps by (subst cbind_Inr[of "?f i" s "()" ?s1]) (rule first, rule refl)
  also have "\<dots> = Inr ((), s\<lparr>mem := (mem s)(b \<mapsto> RecB (take i xs @ take (Suc k) (drop (Suc i) xs)
      @ drop (i + Suc k) xs))\<rparr>)"
    unfolding rest eq by (cases s) (simp only: heap.simps StorageStateOuter.simps fun_upd_upd)
  finally show ?case .
qed

lemma shift_files_run:
  assumes "b \<noteq> NULL" "mem s b = Some (RecB xs)"
    and t: "take (length (as @ r # bs)) xs = map Some (as @ r # bs)" and "length (as @ r # bs) \<le> length xs"
  obtains ys where "shift_files b (length as) (length (as @ r # bs)) s
      = Inr ((), s\<lparr>mem := (mem s)(b \<mapsto> RecB ys)\<rparr>)"
    "take (length (as @ bs)) ys = map Some (as @ bs)" "length ys = length xs"
proof -
  let ?i = "length as" and ?k = "length bs"
  let ?ys = "take ?i xs @ take ?k (drop (Suc ?i) xs) @ drop (?i + ?k) xs"
  have "xs ! j \<noteq> None" if "j \<le> ?i + ?k" for j
    using take_map_nth[OF t, of j] that by simp
  then have "shift_files b ?i (length (as @ r # bs)) s = Inr ((), s\<lparr>mem := (mem s)(b \<mapsto> RecB ?ys)\<rparr>)"
    unfolding shift_files_def using shift_down_run[of b s xs ?i ?k] assms by simp
  moreover have "take ?i xs = map Some as" "take ?k (drop (Suc ?i) xs) = map Some bs"
    using arg_cong[OF t, of "take ?i"] arg_cong[OF t, of "drop (Suc ?i)"]
    by (auto simp: drop_take)
  ultimately show thesis using assms(4) by (intro that[of ?ys]) auto
qed

text \<open>One record leaves: its blocks are freed, the array is the old one, a fresh one or none.\<close>

lemma storage_rel_drop:
  assumes rel: "storage_rel s (as @ r # bs) (ca @ f # cb) F" and len: "length as = length ca"
    and gone: "gone = (mem s)(file_path r := None, chunk_ids r := None, file_to_chunk_state s := None)"
    and m': "mem s' = (if as @ bs = [] then gone else gone(b' \<mapsto> RecB ys))"
    and b': "if as @ bs = [] then b' = NULL else b' = file_to_chunk_state s \<or> b' = brk s"
    and ys: "take (length (as @ bs)) ys = map Some (as @ bs)"
    and s': "file_to_chunk_state s' = b'" "num_file_count s' = int (length (ca @ cb))"
      "brk s \<le> brk s'" "b' < brk s'"
  shows "storage_rel s' (as @ bs) (ca @ cb) F"
proof -
  let ?b = "file_to_chunk_state s"
  have ok: "heap_ok s" and all: "list_all2 (rec_ok (mem s)) (as @ r # bs) (ca @ f # cb)"
    and dist: "distinct (?b # ptrs_of as @ rec_ptrs r @ ptrs_of bs)"
    and F: "set (?b # ptrs_of as @ rec_ptrs r @ ptrs_of bs) \<inter> F = {}"
    and dm: "dom (mem s) = set (?b # ptrs_of as @ rec_ptrs r @ ptrs_of bs) \<union> F"
    using rel by (auto simp: storage_rel_def owned_split)
  have live: "0 < x \<and> x < brk s"
    if "x \<in> set (?b # ptrs_of as @ rec_ptrs r @ ptrs_of bs) \<union> F" for x
    using storage_rel_live[OF rel] that unfolding owned_split by blast
  have fp: "set (rec_ptrs r) \<subseteq> {file_path r, chunk_ids r}" "{file_path r, chunk_ids r} \<subseteq> insert NULL (set (rec_ptrs r))"
    by (auto simp: rec_ptrs_def)
  have null: "NULL \<notin> dom (mem s)" using heap_ok_NULL[OF ok] by auto
  let ?rest = "set (ptrs_of as) \<union> set (ptrs_of bs) \<union> F"
  have out: "x \<noteq> file_path r \<and> x \<noteq> chunk_ids r \<and> x \<noteq> ?b \<and> x \<noteq> brk s \<and> x \<noteq> NULL" if "x \<in> ?rest" for x
    using that live[of x] dist F fp(2) by auto
  then have no: "file_path r \<notin> ?rest" "chunk_ids r \<notin> ?rest" "?b \<notin> ?rest" "b' \<notin> ?rest"
    using b' by (auto split: if_splits)
  have dg: "dom gone = ?rest"
    using dm no fp null by (auto simp: gone split: if_splits)
  have agree: "mem s' x = mem s x" if "x \<in> ?rest" for x
    using out[OF that] that no(4) unfolding m' gone by auto
  let ?new = "if as @ bs = [] then [] else [b']"
  have "storage_rel s' (as @ [] @ bs) (ca @ [] @ cb) F"
  proof (rule storage_rel_splice[where mid = "[r]" and cm = "[f]" and s = s and new = ?new])
    show "heap_ok s'"
    proof -
      have "0 < p \<and> p < brk s'" if "mem s p = Some x" for p x
        using heap_okD[OF ok that] s'(3) by simp
      moreover have "0 < brk s'" "as @ bs \<noteq> [] \<Longrightarrow> 0 < b'"
        using s'(3) b' heap_ok_brk[OF ok] live[of ?b] by auto
      ultimately show ?thesis
        unfolding heap_ok_def m' gone using s'(4) by (auto split: if_splits)
    qed
    show "base_ok (mem s') (file_to_chunk_state s') (as @ [] @ bs)"
      using b' ys live[of ?b] heap_ok_brk[OF ok] s'(1) by (auto simp: base_ok_def m')
    show "dom (mem s') = set ?new \<union> ?rest" using dg by (auto simp: m')
    show "mem s' x = mem s x" if "x \<in> set (ptrs_of as) \<union> set (ptrs_of bs)" for x
      using agree[of x] that by blast
    show "set ?new \<inter> ?rest = {}" using no(4) by (auto split: if_splits)
  qed (use rel len s' in \<open>auto simp: ptrs_of_Nil\<close>)
  then show ?thesis by simp
qed

lemma c_free_ok [cm_run]:
  "(p \<noteq> NULL \<Longrightarrow> mem s p \<noteq> None) \<Longrightarrow> mem s NULL = None \<Longrightarrow>
   c_free p s = Inr ((), s\<lparr>mem := (mem s)(p := None)\<rparr>)"
  by (cases "p = NULL") (auto simp: c_free_def fun_upd_idem)

text \<open>Freeing the record's two blocks and closing the gap.\<close>

lemma drop_file_at_run:
  assumes rel: "storage_rel s (as @ r # bs) (ca @ f # cb) F" and len: "length as = length ca"
  obtains ys where
    "drop_file_at (file_to_chunk_state s) (length as) (length (as @ r # bs)) s
     = Inr ((), s\<lparr>mem := (mem s)(file_path r := None, chunk_ids r := None,
         file_to_chunk_state s \<mapsto> RecB ys)\<rparr>)"
    "take (length (as @ bs)) ys = map Some (as @ bs)"
proof -
  let ?b = "file_to_chunk_state s"
  let ?m1 = "(mem s)(file_path r := None)" and ?m2 = "(mem s)(file_path r := None, chunk_ids r := None)"
  have ok: "heap_ok s" and rr: "rec_ok (mem s) r f"
    and dist: "distinct (?b # ptrs_of as @ rec_ptrs r @ ptrs_of bs)"
    using rel len by (auto simp: storage_rel_def owned_split list_all2_append)
  have null: "mem s NULL = None" using ok by (rule heap_ok_NULL)
  have ptrs: "file_path r \<noteq> ?b" "chunk_ids r \<noteq> NULL \<longrightarrow> chunk_ids r \<noteq> ?b \<and> chunk_ids r \<noteq> file_path r"
    using dist by (auto simp: rec_ptrs_def)
  obtain xs where xs: "?b \<noteq> NULL" "mem s ?b = Some (RecB xs)"
    "take (length (as @ r # bs)) xs = map Some (as @ r # bs)" "length (as @ r # bs) \<le> length xs"
    by (rule storage_rel_base[OF rel]) simp
  have read: "read_rec ?b (int (length as)) s = Inr (r, s)"
    using storage_rel_read[OF rel, of "length as"] len nth_append_length[of as r bs] by simp
  have f1: "c_free (file_path r) s = Inr ((), s\<lparr>mem := ?m1\<rparr>)"
    using rr null by (intro c_free_ok) (auto simp: rec_ok_def)
  have f2: "c_free (chunk_ids r) (s\<lparr>mem := ?m1\<rparr>) = Inr ((), s\<lparr>mem := ?m2\<rparr>)"
    using rr null ptrs by (subst c_free_ok) (auto simp: rec_ok_def split: if_splits)
  have b: "mem (s\<lparr>mem := ?m2\<rparr>) ?b = Some (RecB xs)" using xs(1,2) ptrs by auto
  obtain ys where sh: "shift_files ?b (length as) (length (as @ r # bs)) (s\<lparr>mem := ?m2\<rparr>)
      = Inr ((), s\<lparr>mem := ?m2\<rparr>\<lparr>mem := (mem (s\<lparr>mem := ?m2\<rparr>))(?b \<mapsto> RecB ys)\<rparr>)"
    and ys: "take (length (as @ bs)) ys = map Some (as @ bs)"
    using shift_files_run[OF xs(1) b xs(3,4)] by blast
  show thesis
  proof (rule that[OF _ ys])
    show "drop_file_at ?b (length as) (length (as @ r # bs)) s
     = Inr ((), s\<lparr>mem := ?m2(?b \<mapsto> RecB ys)\<rparr>)"
      unfolding drop_file_at_def cbind_def read f1 f2 sum.case prod.case sh
      by (cases s) (simp only: heap.simps)
  qed
qed

lemma storage_rel_foreign:
  assumes rel: "storage_rel s (as @ r # bs) cat F" and x: "x \<in> F"
  shows "x \<notin> {file_path r, chunk_ids r, file_to_chunk_state s, brk s, NULL}"
proof -
  have "0 < x" "x < brk s" using storage_rel_live[OF rel, of x] x by auto
  moreover have "x \<notin> set (rec_ptrs r)" "x \<noteq> file_to_chunk_state s"
    using rel x unfolding storage_rel_def owned_split by auto
  ultimately show ?thesis by (auto simp: rec_ptrs_def split: if_splits)
qed

lemma shrink_files_run:
  assumes rel: "storage_rel s (as @ r # bs) (ca @ f # cb) F" and len: "length as = length ca"
    and ys: "take (length (as @ bs)) ys = map Some (as @ bs)"
    and s2: "s2 = s\<lparr>locked := True, mem := (mem s)(file_path r := None, chunk_ids r := None,
               file_to_chunk_state s \<mapsto> RecB ys)\<rparr>"
    and free: "\<not> locked s"
  obtains s' where "shrink_files (file_to_chunk_state s) (int (length (as @ r # bs))) s2 = Inr ((), s')"
    "storage_rel s' (as @ bs) (ca @ cb) F" "hframe F s s'" "mem s' (file_path r) = None"
proof -
  let ?b = "file_to_chunk_state s" and ?n = "int (length (as @ r # bs))" and ?k = "length (as @ bs)"
  let ?gone = "(mem s)(file_path r := None, chunk_ids r := None, ?b := None)"
  have ok: "heap_ok s" and b: "?b \<noteq> NULL" "?b < brk s" and bq: "0 < brk s"
    using rel storage_rel_live[OF rel, of ?b] by (auto simp: storage_rel_def owned_split heap_ok_def)
  have fp: "file_path r \<noteq> ?b" "file_path r \<noteq> brk s"
    using rel storage_rel_live[OF rel, of "file_path r"] unfolding storage_rel_def owned_split
    by (auto simp: rec_ptrs_def)
  have lk: "length (ca @ cb) = ?k" using storage_rel_length[OF rel] len by simp
  have n: "?n - 1 = int ?k" by simp
  note drop = storage_rel_drop[OF rel len refl _ _ ys]
  have F: "x \<notin> {file_path r, chunk_ids r, ?b, brk s, NULL}" if "x \<in> F" for x
    using storage_rel_foreign[OF rel that] .
  have pos: "0 < int (length as) + int (length bs)" if "as @ bs \<noteq> []"
    using that by (cases as; cases bs) auto
  consider (empty) "as @ bs = []" | (fail) "as @ bs \<noteq> []" "oom s (brk s)"
    | (move) "as @ bs \<noteq> []" "\<not> oom s (brk s)" by blast
  then show thesis
  proof cases
    case empty
    let ?s' = "s2\<lparr>num_file_count := 0, mem := ?gone, file_to_chunk_state := NULL, locked := False\<rparr>"
    have rel': "storage_rel ?s' (as @ bs) (ca @ cb) F"
      using empty lk bq by (intro drop[where b' = NULL]) (auto simp: s2)
    have "shrink_files ?b ?n s2 = Inr ((), ?s')"
      using empty b free print_storage_state_run[OF rel'] 
      by (simp add: shrink_files_def s2 cbind_def c_free_def mutex_unlock_def)
    then show thesis using rel' F free fp by (intro that[of ?s']) (auto simp: hframe_def s2)
  next
    case fail
    let ?s' = "s2\<lparr>num_file_count := int ?k, brk := Suc (brk s), locked := False\<rparr>"
    have rel': "storage_rel ?s' (as @ bs) (ca @ cb) F"
      using fail lk b by (intro drop[where b' = ?b]) (auto simp: s2)
    have "shrink_files ?b ?n s2 = Inr ((), ?s')"
      using fail b free pos by (simp add: shrink_files_def s2 cbind_def realloc_block_def mutex_unlock_def)
    then show thesis using rel' F free fp by (intro that[of ?s']) (auto simp: hframe_def s2)
  next
    case move
    let ?s' = "s2\<lparr>num_file_count := int ?k, mem := ?gone(brk s \<mapsto> RecB (resize ?k ys)),
      brk := Suc (brk s), file_to_chunk_state := brk s, locked := False\<rparr>"
    have "take ?k (resize ?k ys) = map Some (as @ bs)"
      using ys take_resize[of ?k ?k ys] by (metis length_map length_take min.absorb_iff2 nat_le_linear)
    then have rel': "storage_rel ?s' (as @ bs) (ca @ cb) F"
      using move lk b by (intro storage_rel_drop[OF rel len refl, where b' = "brk s"]) (auto simp: s2)
    have "shrink_files ?b ?n s2 = Inr ((), ?s')"
      using move b bq free pos print_storage_state_run[OF rel']
      by (simp add: shrink_files_def s2 cbind_def realloc_block_def mutex_unlock_def nat_add_distrib)
    then show thesis using rel' F free fp by (intro that[of ?s']) (auto simp: hframe_def s2)
  qed
qed

text \<open>
  \<open>remove_from_struct\<close> computes \<open>cat_remove\<close>, whatever the allocator does: a shrinking
  \<open>realloc\<close> that fails leaves a longer array with the right contents. The lock is free
  again, the blocks of the removed file are freed once, and nothing else is touched.
\<close>

lemma remove_from_struct_present:
  assumes rel: "storage_rel s (as @ r # bs) (ca @ (path, ids) # cb) F" and la: "length as = length ca"
    and first: "path \<notin> fst ` set ca" and free: "\<not> locked s"
  obtains s' where "remove_from_struct path s = Inr ((), s')" "storage_rel s' (as @ bs) (ca @ cb) F"
    "hframe F s s'" "mem s' (file_path r) = None"
proof -
  let ?b = "file_to_chunk_state s" and ?s0 = "s\<lparr>locked := True\<rparr>"
  have rel1: "storage_rel ?s0 (as @ r # bs) (ca @ (path, ids) # cb) F" using rel by simp
  have n: "num_file_count s = int (length (as @ r # bs))"
    using rel storage_rel_length[OF rel] by (simp add: storage_rel_def)
  have find: "find_file_index ?b path 0 (length (as @ r # bs)) ?s0 = Inr (Some (length as), ?s0)"
    using find_file_index_present[OF rel1 first, of 0 "length (as @ r # bs)"] la by simp
  obtain ys where unlink: "drop_file_at (file_to_chunk_state ?s0) (length as) (length (as @ r # bs)) ?s0
     = Inr ((), ?s0\<lparr>mem := (mem ?s0)(file_path r := None, chunk_ids r := None,
         file_to_chunk_state ?s0 \<mapsto> RecB ys)\<rparr>)" (is "_ = Inr (_, ?s2)")
    and ys: "take (length (as @ bs)) ys = map Some (as @ bs)"
    by (rule drop_file_at_run[OF rel1 la])
  define N where "N = length (as @ r # bs)"
  obtain s' where shrink: "shrink_files ?b (int (length (as @ r # bs))) ?s2 = Inr ((), s')"
    and rel': "storage_rel s' (as @ bs) (ca @ cb) F" and fr: "hframe F s s'"
    and gone: "mem s' (file_path r) = None"
    by (rule shrink_files_run[OF _ la ys _ free]) (use rel in simp_all)
  have "remove_from_struct path s = Inr ((), s')"
    using free find unlink shrink n unfolding N_def[symmetric]
    by (simp add: remove_from_struct_def cbind_def mutex_lock_def)
  then show thesis using rel' fr gone by (rule that)
qed

lemma remove_from_struct_run:
  assumes rel: "storage_rel s rs cat F" and free: "\<not> locked s"
  obtains rs' s' where "remove_from_struct path s = Inr ((), s')"
    "storage_rel s' rs' (cat_remove path cat) F" "hframe F s s'"
proof (cases rule: cat_remove_cases[of path cat])
  case 1
  let ?s0 = "s\<lparr>locked := True\<rparr>"
  have rel0: "storage_rel ?s0 rs cat F" using rel by simp
  have "find_file_index (file_to_chunk_state s) path 0 (length cat) ?s0 = Inr (None, ?s0)"
    using find_file_index_absent[OF rel0, of path 0 "length cat"] 1 by simp
  moreover have "nat (num_file_count s) = length cat" using rel by (simp add: storage_rel_def)
  moreover have "?s0\<lparr>locked := False\<rparr> = s" using free by simp
  ultimately have "remove_from_struct path s = Inr ((), s)"
    using free by (simp add: remove_from_struct_def cbind_def mutex_lock_def mutex_unlock_def)
  then show thesis
  proof (rule that)
    show "storage_rel s rs (cat_remove path cat) F" using rel 1 by (simp add: cat_remove_absent)
    show "hframe F s s" by (rule hframe_refl)
  qed
next
  case (2 ca ids cb)
  have lr: "length rs = length cat" using rel by (rule storage_rel_length)
  obtain as r bs where rs: "rs = as @ r # bs" and la: "length as = length ca"
  proof (rule that)
    show "rs = take (length ca) rs @ rs ! length ca # drop (Suc (length ca)) rs"
      using lr 2(1) by (simp add: id_take_nth_drop)
    show "length (take (length ca) rs) = length ca" using lr 2(1) by simp
  qed
  have rel1: "storage_rel s (as @ r # bs) (ca @ (path, ids) # cb) F" using rel rs 2(1) by simp
  obtain s' where "remove_from_struct path s = Inr ((), s')" "storage_rel s' (as @ bs) (ca @ cb) F"
    "hframe F s s'" by (rule remove_from_struct_present[OF rel1 la 2(2) free])
  moreover have "cat_remove path cat = ca @ cb" using 2 by (simp add: cat_remove_split)
  ultimately show thesis by (intro that) auto
qed

section \<open>Start and end\<close>

lemma storage_state_init_run:
  assumes "heap_ok s"
  obtains s' where "storage_state_init s = Inr ((), s')" "storage_rel s' [] [] (dom (mem s))"
    "\<not> locked s'" "mem s' = mem s" "oom s' = oom s"
  using assms
  by (intro that[of "s\<lparr>locked := False, file_to_chunk_state := NULL, num_file_count := 0\<rparr>"])
    (auto simp: storage_state_init_def storage_rel_def heap_ok_def base_ok_def owned_def ptrs_of_Nil)

lemma free_files_run:
  assumes "b \<noteq> NULL" "mem s b = Some (RecB xs)"
    and t: "take (length rs) xs = map Some rs" "length rs \<le> length xs"
    and null: "mem s NULL = None" and "i + k \<le> length rs"
    and "\<And>p. p \<in> set (ptrs_of (take k (drop i rs))) \<Longrightarrow> mem s p \<noteq> None"
    and "distinct (ptrs_of (take k (drop i rs)))" "b \<notin> set (ptrs_of (take k (drop i rs)))"
  shows "for_up i k (free_file_at b) s
         = Inr ((), s\<lparr>mem := mem s |` (- set (ptrs_of (take k (drop i rs))))\<rparr>)"
  using assms(1,2) null assms(6-9)
proof (induction k arbitrary: i s)
  case 0
  then show ?case by (simp add: ptrs_of_Nil)
next
  case (Suc k)
  let ?r = "rs ! i"
  let ?f = "free_file_at b"
  have split: "take (Suc k) (drop i rs) = ?r # take k (drop (Suc i) rs)"
    using Suc.prems(4) by (simp flip: Cons_nth_drop_Suc)
  let ?ps = "ptrs_of (take k (drop (Suc i) rs))"
  let ?s1 = "s\<lparr>mem := (mem s)(file_path ?r := None, chunk_ids ?r := None)\<rparr>"
  have read: "read_rec b (int i) s = Inr (?r, s)"
    using Suc.prems t by (intro read_rec_ok) (auto simp: take_map_nth)
  have own: "mem s (file_path ?r) \<noteq> None" "chunk_ids ?r \<noteq> NULL \<Longrightarrow> mem s (chunk_ids ?r) \<noteq> None"
    "chunk_ids ?r \<noteq> NULL \<Longrightarrow> chunk_ids ?r \<noteq> file_path ?r" "file_path ?r \<noteq> b" "chunk_ids ?r \<noteq> b"
    using Suc.prems(1,5-7) unfolding split ptrs_of_Cons by (auto simp: rec_ptrs_def)
  have first: "?f i s = Inr ((), ?s1)"
    using own Suc.prems(3) by (simp add: free_file_at_def cbind_def read c_free_ok)
  have "NULL \<notin> set ?ps" using Suc.prems(3) Suc.prems(5)[of NULL] unfolding split ptrs_of_Cons by auto
  then have out: "file_path ?r \<notin> set ?ps" "chunk_ids ?r \<notin> set ?ps"
    using Suc.prems(6) unfolding split ptrs_of_Cons by (auto simp: rec_ptrs_def split: if_splits)
  have rest: "for_up (Suc i) k ?f ?s1 = Inr ((), ?s1\<lparr>mem := mem ?s1 |` (- set ?ps)\<rparr>)"
  proof (rule Suc.IH)
    show "mem ?s1 p \<noteq> None" if "p \<in> set ?ps" for p
      using Suc.prems(5)[of p] that out unfolding split ptrs_of_Cons by auto
  qed (use Suc.prems own in \<open>auto simp: split ptrs_of_Cons\<close>)
  have m: "mem ?s1 |` (- set ?ps) = mem s |` (- set (ptrs_of (take (Suc k) (drop i rs))))"
    unfolding split ptrs_of_Cons using Suc.prems(3) by (auto simp: rec_ptrs_def restrict_map_def fun_eq_iff)
  have "for_up i (Suc k) ?f s = for_up (Suc i) k ?f ?s1"
    unfolding for_up.simps by (subst cbind_Inr[of "?f i" s "()" ?s1]) (rule first, rule refl)
  also have "\<dots> = Inr ((), s\<lparr>mem := mem s |` (- set (ptrs_of (take (Suc k) (drop i rs))))\<rparr>)"
    unfolding rest m by (cases s) (simp only: heap.simps)
  finally show ?case .
qed

text \<open>After \<open>storage_state_destroy\<close> only the blocks of others are left.\<close>

lemma storage_state_destroy_run:
  assumes rel: "storage_rel s rs cat F" and free: "\<not> locked s"
  obtains s' where "storage_state_destroy s = Inr ((), s')" "mem s' = mem s |` F" "\<not> locked s'"
proof (cases "rs = []")
  case True
  then have "file_to_chunk_state s = NULL" "num_file_count s = 0" "dom (mem s) = F"
    using rel storage_rel_length[OF rel] by (auto simp: storage_rel_def base_ok_def owned_def ptrs_of_Nil)
  moreover from this(3) have "mem s |` F = mem s" by (auto simp: restrict_map_def fun_eq_iff)
  ultimately show thesis using free
    by (intro that[of s]) (auto simp: storage_state_destroy_def cbind_def mutex_lock_def mutex_unlock_def
        c_free_def)
next
  case False
  let ?b = "file_to_chunk_state s" and ?s0 = "s\<lparr>locked := True\<rparr>"
  obtain xs where xs: "?b \<noteq> NULL" "mem s ?b = Some (RecB xs)"
    "take (length rs) xs = map Some rs" "length rs \<le> length xs"
    using rel False by (rule storage_rel_base)
  have n: "nat (num_file_count s) = length rs"
    using rel storage_rel_length[OF rel] by (simp add: storage_rel_def)
  have own: "owned ?b rs = ?b # ptrs_of rs" using False by (simp add: owned_def)
  have dist: "distinct (ptrs_of rs)" "?b \<notin> set (ptrs_of rs)" and F: "set (owned ?b rs) \<inter> F = {}"
    and dm: "dom (mem s) = set (owned ?b rs) \<union> F" and null: "mem s NULL = None"
    using rel heap_ok_NULL[of s] unfolding storage_rel_def own by auto
  have live: "mem s p \<noteq> None" if "p \<in> set (ptrs_of rs)" for p
  proof -
    have "p \<in> dom (mem s)" unfolding dm own using that by simp
    then show ?thesis by auto
  qed
  let ?s1 = "?s0\<lparr>mem := mem s |` (- set (ptrs_of rs))\<rparr>"
  have loop: "for_up 0 (length rs) (free_file_at ?b) ?s0 = Inr ((), ?s1)"
    using free_files_run[of ?b ?s0 xs rs 0 "length rs"] xs null dist live by simp
  have "(mem s |` (- set (ptrs_of rs)))(?b := None) = mem s |` F"
  proof (rule ext)
    fix p
    show "((mem s |` (- set (ptrs_of rs)))(?b := None)) p = (mem s |` F) p"
    proof (cases "p \<in> dom (mem s)")
      case True
      with dm F show ?thesis unfolding own by (auto simp: restrict_map_def)
    next
      case False
      then show ?thesis by (auto simp: restrict_map_def domIff)
    qed
  qed
  moreover have "mem ?s1 ?b = Some (RecB xs)" using xs(2) dist(2) by simp
  then have "c_free ?b ?s1 = Inr ((), ?s1\<lparr>mem := (mem ?s1)(?b := None)\<rparr>)"
    using xs(1) by (simp add: c_free_def)
  ultimately have "storage_state_destroy s = Inr ((), ?s1\<lparr>mem := mem s |` F, locked := False\<rparr>)"
    using loop n free by (simp add: storage_state_destroy_def cbind_def mutex_lock_def mutex_unlock_def)
  then show thesis by (rule that) simp_all
qed

section \<open>Memory of others\<close>

lemma storage_rel_world:
  assumes rel: "storage_rel s rs cat F" and ok: "heap_ok s'"
    and same: "file_to_chunk_state s' = file_to_chunk_state s" "num_file_count s' = num_file_count s"
    and own: "\<And>p. p \<in> set (owned (file_to_chunk_state s) rs) \<Longrightarrow> mem s' p = mem s p"
    and dom: "dom (mem s') = set (owned (file_to_chunk_state s) rs) \<union> F'"
    and disj: "set (owned (file_to_chunk_state s) rs) \<inter> F' = {}"
  shows "storage_rel s' rs cat F'"
proof -
  have recs: "list_all2 (rec_ok (mem s')) rs cat"
  proof (rule recs_ok_cong)
    show "list_all2 (rec_ok (mem s)) rs cat" using rel by (simp add: storage_rel_def)
    show "mem s' p = mem s p" if "p \<in> set (ptrs_of rs)" for p
      using own[of p] that by (simp add: owned_def)
  qed
  have "base_ok (mem s') (file_to_chunk_state s') rs"
  proof (cases "rs = []")
    case True
    then show ?thesis using rel by (simp add: storage_rel_def base_ok_def same)
  next
    case False
    then have "mem s' (file_to_chunk_state s) = mem s (file_to_chunk_state s)"
      by (intro own) (simp add: owned_def)
    with False show ?thesis using rel by (simp add: storage_rel_def base_ok_def same)
  qed
  with rel recs ok dom disj show ?thesis unfolding storage_rel_def same by simp
qed

lemma storage_rel_own_old:
  assumes "storage_rel s rs cat F" "p \<in> set (owned (file_to_chunk_state s) rs)"
  shows "p \<noteq> brk s" "p \<notin> F" "p \<in> dom (mem s)" "p \<noteq> NULL"
  using assms storage_rel_live[OF assms(1), of p] unfolding storage_rel_def by auto

lemma storage_rel_F_old:
  assumes "storage_rel s rs cat F" "p \<in> F"
  shows "p \<noteq> brk s" "p \<noteq> NULL" "p < brk s"
  using storage_rel_live[OF assms(1), of p] assms(2) by auto

lemma storage_rel_alloc:
  assumes rel: "storage_rel s rs cat F"
  shows "storage_rel (s\<lparr>mem := (mem s)(brk s \<mapsto> b), brk := Suc (brk s)\<rparr>) rs cat (insert (brk s) F)"
proof (rule storage_rel_world[OF rel])
  show "heap_ok (s\<lparr>mem := (mem s)(brk s \<mapsto> b), brk := Suc (brk s)\<rparr>)"
    using rel by (auto simp: storage_rel_def heap_ok_def less_Suc_eq)
qed (use rel storage_rel_own_old[OF rel] in \<open>auto simp: storage_rel_def\<close>)

lemma storage_rel_store:
  assumes rel: "storage_rel s rs cat F" and p: "p \<in> F"
  shows "storage_rel (s\<lparr>mem := (mem s)(p \<mapsto> b)\<rparr>) rs cat F"
proof (rule storage_rel_world[OF rel])
  show "heap_ok (s\<lparr>mem := (mem s)(p \<mapsto> b)\<rparr>)"
    using rel storage_rel_F_old[OF rel p] by (auto simp: storage_rel_def heap_ok_def)
qed (use rel p storage_rel_own_old[OF rel] in \<open>auto simp: storage_rel_def\<close>)

lemma storage_rel_free:
  assumes rel: "storage_rel s rs cat F" and p: "p \<in> F"
  shows "storage_rel (s\<lparr>mem := (mem s)(p := None)\<rparr>) rs cat (F - {p})"
proof (rule storage_rel_world[OF rel])
  show "heap_ok (s\<lparr>mem := (mem s)(p := None)\<rparr>)" using rel by (auto simp: storage_rel_def heap_ok_def)
qed (use rel p storage_rel_own_old[OF rel] in \<open>auto simp: storage_rel_def\<close>)

lemma storage_rel_F_dom: "storage_rel s rs cat F \<Longrightarrow> p \<in> F \<Longrightarrow> mem s p \<noteq> None"
  by (auto simp: storage_rel_def)

lemma storage_rel_brk: "storage_rel s rs cat F \<Longrightarrow> storage_rel (s\<lparr>brk := Suc (brk s)\<rparr>) rs cat F"
  by (auto simp: storage_rel_def heap_ok_def less_Suc_eq)

end
