(* ===== verification/Chunk_Files.thy ===== *)
theory Chunk_Files
  imports File_Operation Catalogue
begin

text \<open>
  What state/fileOperation.c does on disk, for file names made of proper names: the chunk's
  path resolves below \<open>data\<close>, the directories are made and nothing else changes, and
  the bytes end up in the chunk's own file.
\<close>

section \<open>Chunk paths\<close>

text \<open>
  A file name whose parts between slashes are proper names: not empty, not a dot or two dots.
\<close>

definition good_name :: "string \<Rightarrow> bool" where
  "good_name f \<longleftrightarrow> (\<forall>w \<in> set (split_slash f). proper_name w)"

definition dir_words :: "string \<Rightarrow> string list" where
  "dir_words f = ''data'' # split_slash f"

definition chunk_words :: "string \<Rightarrow> int \<Rightarrow> string list" where
  "chunk_words f c = dir_words f @ [show_int c]"

definition chunk_loc :: "fsys \<Rightarrow> string \<Rightarrow> int \<Rightarrow> loc" where
  "chunk_loc s f c = cwd s @ chunk_words f c"

text \<open>The path fits into the 512 byte buffer.\<close>

definition path_fits :: "string \<Rightarrow> int \<Rightarrow> bool" where
  "path_fits f c \<longleftrightarrow> length f + length (show_int c) + 6 < 512"

lemma proper_show_int: "proper_name (show_int c)"
  using show_int_chars[of _ c] show_int_nonempty[of c]
  by (auto simp: proper_name_def)

lemma proper_data: "proper_name ''data''"
  by (simp add: proper_name_def)

lemma proper_dir_words: "good_name f \<Longrightarrow> proper_path (dir_words f)"
  by (auto simp: proper_path_def dir_words_def good_name_def proper_data)

lemma proper_chunk_words: "good_name f \<Longrightarrow> proper_path (chunk_words f c)"
  unfolding chunk_words_def by (intro proper_path_snoc proper_dir_words proper_show_int)

lemma join_dir_words: "join_slash (dir_words f) = ''data/'' @ f"
proof -
  obtain w ws where ws: "split_slash f = w # ws" by (cases "split_slash f") auto
  then have "join_slash (dir_words f) = ''data'' @ ''/'' @ join_slash (split_slash f)"
    by (simp add: dir_words_def)
  then show ?thesis by (simp add: join_split_slash)
qed

lemma join_chunk_words: "join_slash (chunk_words f c) = ''data/'' @ f @ ''/'' @ show_int c"
  using join_slash_snoc[of "dir_words f" "show_int c"]
  by (simp add: chunk_words_def join_dir_words) (simp add: dir_words_def)

lemma chunk_path_join: "path_fits f c \<Longrightarrow> chunk_path f c = join_slash (chunk_words f c)"
  by (simp add: chunk_path_def path_fits_def join_chunk_words)

text \<open>For names that fit its buffer, the path of a chunk determines the file and the chunk.\<close>

lemma chunk_path_inj:
  assumes "path_fits f c" "path_fits g d" "chunk_path f c = chunk_path g d"
  shows "f = g \<and> c = d"
proof -
  have "join_slash (chunk_words f c) = join_slash (chunk_words g d)"
    using assms chunk_path_join by metis
  then have "f @ ''/'' @ show_int c = g @ ''/'' @ show_int d" by (simp only: join_chunk_words same_append_eq)
  then have eq: "split_slash f @ split_slash (show_int c) = split_slash g @ split_slash (show_int d)"
    by (simp only: split_slash_append[symmetric])
  have "split_slash (show_int n) = [show_int n]" for n using show_int_chars by (blast intro: split_slash_plain)
  then show ?thesis using eq split_slash_inj show_int_inj by auto
qed

lemma dir_path_join: "path_fits f c \<Longrightarrow> dir_path f = join_slash (dir_words f)"
  by (simp add: dir_path_def path_fits_def join_dir_words)

lemma chunk_loc_inj: "chunk_loc s f c = chunk_loc s g d \<longleftrightarrow> f = g \<and> c = d"
  by (auto simp: chunk_loc_def chunk_words_def dir_words_def dest: split_slash_inj show_int_inj)

lemma length_show_nat: "n < 10 ^ k \<Longrightarrow> 0 < k \<Longrightarrow> length (show_nat n) \<le> k"
proof (induction n arbitrary: k rule: show_nat.induct)
  case (1 n)
  show ?case
  proof (cases "n < 10")
    case True
    with 1 show ?thesis by (subst show_nat.simps) simp
  next
    case False
    with 1(2,3) obtain j where j: "k = Suc j" "0 < j" by (cases k; cases "k = 1") auto
    then have "n div 10 < 10 ^ j" using 1(2) by (simp add: less_mult_imp_div_less mult.commute)
    then have "length (show_nat (n div 10)) \<le> j" using 1(1)[OF False, of j] j by simp
    with False j show ?thesis by (subst show_nat.simps) simp
  qed
qed

lemma path_fits_int: "in_int c \<Longrightarrow> length f \<le> 494 \<Longrightarrow> path_fits f c"
proof -
  assume c: "in_int c" and f: "length f \<le> 494"
  have "length (show_int c) \<le> 11"
  proof -
    have "nat c < 10 ^ 10" "nat (- c) < 10 ^ 10"
      using c by (auto simp: in_int_def int_max_def int_min_def)
    then have "length (show_nat (nat c)) \<le> 10" "length (show_nat (nat (- c))) \<le> 10"
      by (auto intro: length_show_nat)
    then show ?thesis by (simp add: show_int_def)
  qed
  with f show ?thesis by (simp add: path_fits_def)
qed

section \<open>Making directories\<close>

lemma slash_prefixes_snoc:
  assumes "a \<noteq> []" "CHR ''/'' \<notin> set w"
  shows "slash_prefixes (a @ ''/'' @ w) = slash_prefixes a @ [a]"
proof -
  let ?t = "a @ ''/'' @ w" and ?n = "length a"
  have split: "[1..<length ?t] = [1..<?n] @ [?n] @ [Suc ?n..<length ?t]"
  proof -
    have "1 \<le> ?n" using assms(1) by (cases a) auto
    then have "[1..<?n + Suc (length w)] = [1..<?n] @ [?n..<?n + Suc (length w)]"
      by (rule upt_add_eq_append)
    moreover have "[?n..<?n + Suc (length w)] = ?n # [Suc ?n..<?n + Suc (length w)]"
      by (rule upt_conv_Cons) simp
    ultimately show ?thesis by simp
  qed
  have 1: "filter (\<lambda>i. ?t ! i = CHR ''/'') [1..<?n] = filter (\<lambda>i. a ! i = CHR ''/'') [1..<?n]"
    by (rule filter_cong) (auto simp: nth_append)
  have 2: "filter (\<lambda>i. ?t ! i = CHR ''/'') [Suc ?n..<length ?t] = []"
    using assms(2) by (auto simp: filter_empty_conv nth_append nth_Cons' in_set_conv_nth)
  have 3: "map (\<lambda>i. take i ?t) (filter (\<lambda>i. a ! i = CHR ''/'') [1..<?n])
    = map (\<lambda>i. take i a) (filter (\<lambda>i. a ! i = CHR ''/'') [1..<?n])" by simp
  show ?thesis unfolding slash_prefixes_def split filter_append map_append 1 2 3 by simp
qed

lemma slash_prefixes_join:
  "proper_path ws \<Longrightarrow> slash_prefixes (join_slash ws) = map (\<lambda>n. join_slash (take n ws)) [1..<length ws]"
proof (induction ws rule: rev_induct)
  case Nil
  then show ?case by (simp add: proper_path_def)
next
  case (snoc w ws)
  have w: "CHR ''/'' \<notin> set w" using snoc.prems by (simp add: proper_path_def proper_name_def)
  show ?case
  proof (cases "ws = []")
    case True
    have "w ! i \<noteq> CHR ''/''" if "i < length w" for i using w that by (metis nth_mem)
    with True show ?thesis by (auto simp: slash_prefixes_def filter_empty_conv)
  next
    case False
    with snoc.prems have ws: "proper_path ws" by (simp add: proper_path_def)
    then have "join_slash ws \<noteq> []" by (rule proper_path_join)
    then have "slash_prefixes (join_slash (ws @ [w])) = slash_prefixes (join_slash ws) @ [join_slash ws]"
      using slash_prefixes_snoc w False by (simp add: join_slash_snoc)
    also have "\<dots> = map (\<lambda>n. join_slash (take n ws)) ([1..<length ws] @ [length ws])"
      using snoc.IH[OF ws] by simp
    also have "[1..<length ws] @ [length ws] = [1..<length (ws @ [w])]" using False by (cases ws) simp_all
    also have "map (\<lambda>n. join_slash (take n ws)) \<dots> = map (\<lambda>n. join_slash (take n (ws @ [w]))) \<dots>"
      by (rule map_cong) auto
    finally show ?thesis .
  qed
qed

text \<open>Each prefix of the path is a directory or free.\<close>

definition dirs_free :: "fsys \<Rightarrow> string list \<Rightarrow> bool" where
  "dirs_free s ws \<longleftrightarrow> is_dir s (cwd s) \<and>
     (\<forall>n \<le> length ws. fs_lookup s (cwd s @ take n ws) \<in> {None, Some FDir})"

lemma fs_mkdir_lookup:
  assumes "fs_quiet s" "proper_path ws" "\<And>n. n < length ws \<Longrightarrow> is_dir s (cwd s @ take n ws)"
  shows "fs_lookup (fs_mkdir (join_slash ws) s) k =
    (if k = cwd s @ ws \<and> fs_lookup s k = None then Some FDir else fs_lookup s k)"
proof -
  have "resolve s (join_slash ws) = Some (cwd s @ ws)"
    using assms(3) by (simp add: resolve_join[OF assms(2)])
  then show ?thesis
    using assms(1) by (auto simp: fs_mkdir_def proper_path_join(4)[OF assms(2)] fs_lookup_add)
qed

lemma fs_quiet_mkdir [simp]: "fs_quiet (fs_mkdir p s) = fs_quiet s"
  unfolding fs_quiet_def by simp

lemma mkdir_prefixes_lookup:
  assumes "fs_quiet s" "proper_path ws" "dirs_free s ws" "m \<le> length ws"
  shows "let s' = fold fs_mkdir (map (\<lambda>n. join_slash (take n ws)) [1..<Suc m]) s in
    cwd s' = cwd s \<and> sysfail s' = sysfail s \<and> short_write s' = short_write s \<and> spare_fds s' = spare_fds s \<and>
    (\<forall>k. fs_lookup s' k = (if \<exists>n \<le> m. 0 < n \<and> k = cwd s @ take n ws then Some FDir else fs_lookup s k))"
  using assms(4)
proof (induction m)
  case 0
  then show ?case by simp
next
  case (Suc m)
  define s1 where "s1 = fold fs_mkdir (map (\<lambda>n. join_slash (take n ws)) [1..<Suc m]) s"
  let ?s' = "fold fs_mkdir (map (\<lambda>n. join_slash (take n ws)) [1..<Suc (Suc m)]) s"
  note IH = Suc.IH[OF Suc_leD[OF Suc.prems], unfolded Let_def, folded s1_def]
  from IH have env: "cwd s1 = cwd s" "sysfail s1 = sysfail s" "short_write s1 = short_write s" "spare_fds s1 = spare_fds s"
    and look: "\<And>k. fs_lookup s1 k = (if \<exists>n \<le> m. 0 < n \<and> k = cwd s @ take n ws then Some FDir else fs_lookup s k)"
    by blast+
  have eq: "?s' = fs_mkdir (join_slash (take (Suc m) ws)) s1" by (simp add: s1_def)
  have quiet: "fs_quiet s1" using assms(1) unfolding fs_quiet_def env by blast
  have low: "is_dir s1 (cwd s @ take n ws)" if "n \<le> m" for n
  proof (cases "n = 0")
    case True
    then show ?thesis using look[of "cwd s"] assms(3) by (simp add: dirs_free_def)
  next
    case False
    with that show ?thesis unfolding look by (intro if_P) auto
  qed
  have new: "fs_lookup ?s' k = (if k = cwd s @ take (Suc m) ws \<and> fs_lookup s1 k = None
      then Some FDir else fs_lookup s1 k)" for k
    unfolding eq env(1)[symmetric]
  proof (rule fs_mkdir_lookup[OF quiet proper_path_take[OF assms(2)]])
    fix n
    assume "n < length (take (Suc m) ws)"
    then have "n \<le> m" by simp
    then have "n \<le> m" "take n (take (Suc m) ws) = take n ws" by (simp_all add: min_def)
    then show "is_dir s1 (cwd s1 @ take n (take (Suc m) ws))" using low env by simp
  qed simp
  have "fs_lookup s (cwd s @ take (Suc m) ws) \<in> {None, Some FDir}"
    using assms(3) Suc.prems by (auto simp: dirs_free_def)
  then have "fs_lookup ?s' k = (if \<exists>n \<le> Suc m. 0 < n \<and> k = cwd s @ take n ws then Some FDir else fs_lookup s k)" for k
    unfolding new look by (auto simp: le_Suc_eq)
  moreover have "cwd ?s' = cwd s" "sysfail ?s' = sysfail s" "short_write ?s' = short_write s" "spare_fds ?s' = spare_fds s"
    unfolding eq by (simp_all add: env)
  ultimately show ?case unfolding Let_def by blast
qed

lemma tree_ok_createDirectories: "tree_ok s \<Longrightarrow> tree_ok (snd (createDirectories p s))"
proof -
  have "tree_ok s \<Longrightarrow> tree_ok (fold fs_mkdir ps s)" for ps
    by (induction ps arbitrary: s) (simp_all add: tree_ok_mkdir)
  then show "tree_ok s \<Longrightarrow> tree_ok (snd (createDirectories p s))"
    by (simp add: createDirectories_def tree_ok_mkdir split: option.split)
qed

text \<open>All directories of the path are there afterwards, and nothing else has changed.\<close>

lemma createDirectories_run:
  assumes "fs_quiet s" "proper_path ws" "dirs_free s ws" "CHR ''/'' \<notin> set w"
    and fits: "length (join_slash (ws @ [w])) < 512"
  obtains s' where "createDirectories (join_slash (ws @ [w])) s = (True, s')"
    "cwd s' = cwd s" "fs_quiet s'"
    "\<And>k. fs_lookup s' k = (if \<exists>n \<le> length ws. 0 < n \<and> k = cwd s @ take n ws then Some FDir else fs_lookup s k)"
proof -
  let ?s' = "fold fs_mkdir (map (\<lambda>n. join_slash (take n ws)) [1..<Suc (length ws)]) s"
  have ne: "ws \<noteq> []" using assms(2) by (simp add: proper_path_def)
  have "before_last_slash (take 511 (join_slash (ws @ [w]))) = Some (join_slash ws)"
    using fits before_last_slash_append[OF assms(4), of "join_slash ws"] ne
    by (simp add: join_slash_snoc)
  then have "createDirectories (join_slash (ws @ [w])) s
      = (True, fs_mkdir (join_slash ws) (fold fs_mkdir (slash_prefixes (join_slash ws)) s))"
    by (simp add: createDirectories_def)
  also have "\<dots> = (True, ?s')"
  proof -
    have "[1..<Suc (length ws)] = [1..<length ws] @ [length ws]" using ne by (cases ws) simp_all
    then show ?thesis by (simp add: slash_prefixes_join[OF assms(2)])
  qed
  finally have run: "createDirectories (join_slash (ws @ [w])) s = (True, ?s')" .
  show thesis
  proof (rule that[OF run])
    note all = mkdir_prefixes_lookup[OF assms(1-3) order_refl, unfolded Let_def]
    from all show "cwd ?s' = cwd s" by blast
    from all have "sysfail ?s' = sysfail s" "short_write ?s' = short_write s" "spare_fds ?s' = spare_fds s" by blast+
    then show "fs_quiet ?s'" using assms(1) unfolding fs_quiet_def by metis
    from all show "fs_lookup ?s' k = (if \<exists>n \<le> length ws. 0 < n \<and> k = cwd s @ take n ws
        then Some FDir else fs_lookup s k)" for k by blast
  qed
qed

section \<open>Saving a chunk\<close>

lemma file_exists_join:
  assumes "fs_quiet s" "proper_path ws"
  shows "file_exists (join_slash ws) s \<longleftrightarrow>
    (\<forall>n < length ws. is_dir s (cwd s @ take n ws)) \<and> fs_lookup s (cwd s @ ws) \<noteq> None"
  using assms(1) by (simp add: file_exists_def fs_access_def resolve_join[OF assms(2)])

lemma fs_frame: "hframe F s s' \<Longrightarrow> fs s' = fs s"
  by (cases s; cases s') (simp add: hframe_def)

lemma storage_rel_fs [simp]: "storage_rel (s\<lparr>fs := x\<rparr>) rs cat F \<longleftrightarrow> storage_rel s rs cat F"
  by (simp add: storage_rel_def heap_ok_def)

lemma load_bytes_ok:
  "p \<noteq> NULL \<Longrightarrow> mem s p = Some (ByteB (map Some bs)) \<Longrightarrow> load_bytes p (length bs) s = Inr (bs, s)"
  by (auto simp: load_bytes_def cbind_def load_def)

text \<open>Opening the new file and writing all its bytes.\<close>

lemma write_new_file:
  assumes "fs_quiet s" "proper_path ws" "\<And>n. n < length ws \<Longrightarrow> is_dir s (cwd s @ take n ws)"
    and new: "fs_lookup s (cwd s @ ws) = None"
  obtains s1 s' where "fs_open_append (join_slash ws) s = Some (cwd s @ ws, s1)"
    "fs_write (join_slash ws) (cwd s @ ws) bs s1 = (length bs, s')"
    "cwd s' = cwd s" "fs_quiet s'"
    "\<And>k. fs_lookup s' k = (if k = cwd s @ ws then Some (FReg bs) else fs_lookup s k)"
    "tree_ok s \<Longrightarrow> tree_ok s'"
proof -
  let ?l = "cwd s @ ws"
  let ?s1 = "fs_add ?l (FReg []) s"
  let ?s' = "append_bytes ?l bs ?s1"
  have "resolve s (join_slash ws) = Some ?l" using assms(3) by (simp add: resolve_join[OF assms(2)])
  then have opened: "fs_open_append (join_slash ws) s = Some (?l, ?s1)"
    using assms(1) new by (simp add: fs_open_append_def)
  moreover have "tree_ok s \<Longrightarrow> tree_ok ?s'"
    by (rule tree_ok_append_bytes) (rule tree_ok_open_append[OF _ opened])
  moreover have "fs_write (join_slash ws) ?l bs ?s1 = (length bs, ?s')"
    using assms(1) by (simp add: fs_write_def)
  moreover have "fs_quiet ?s'" using assms(1) unfolding fs_quiet_def by simp
  moreover have "fs_lookup ?s' k = (if k = ?l then Some (FReg bs) else fs_lookup s k)" for k
    by (simp add: fs_lookup_append_bytes fs_lookup_add[OF new])
  ultimately show thesis by (intro that[of ?s1 ?s']) simp_all
qed

text \<open>The directories and the chunk's own file, and nothing else.\<close>

definition saved_lookup :: "fsys \<Rightarrow> string \<Rightarrow> int \<Rightarrow> byte list \<Rightarrow> loc \<Rightarrow> fentry option" where
  "saved_lookup s f c bs k =
     (if k = chunk_loc s f c then Some (FReg bs)
      else if \<exists>n \<le> length (dir_words f). 0 < n \<and> k = cwd s @ take n (dir_words f) then Some FDir
      else fs_lookup s k)"

text \<open>The file is written whole, and what is left is to enter the chunk in the catalogue.\<close>

lemma write_chunk_insert:
  assumes quiet: "fs_quiet (fs s)" and ws: "proper_path ws"
    and dirs: "\<And>n. n < length ws \<Longrightarrow> is_dir (fs s) (cwd (fs s) @ take n ws)"
    and new: "fs_lookup (fs s) (cwd (fs s) @ ws) = None"
    and data: "d \<noteq> NULL" "heap.mem s d = Some (ByteB (map Some bs))"
  obtains t where "write_chunk (join_slash ws) f d (length bs) c has s
      = cbind (insert_to_struct f c has) (\<lambda>_. cret True) (s\<lparr>fs := t\<rparr>)"
    "cwd t = cwd (fs s)" "fs_quiet t" "tree_ok (fs s) \<Longrightarrow> tree_ok t"
    "\<And>k. fs_lookup t k = (if k = cwd (fs s) @ ws then Some (FReg bs) else fs_lookup (fs s) k)"
proof -
  obtain fs1 fs2 where o: "fs_open_append (join_slash ws) (fs s) = Some (cwd (fs s) @ ws, fs1)"
    and w: "fs_write (join_slash ws) (cwd (fs s) @ ws) bs fs1 = (length bs, fs2)"
    and env: "cwd fs2 = cwd (fs s)" "fs_quiet fs2"
    and look: "\<And>k. fs_lookup fs2 k = (if k = cwd (fs s) @ ws then Some (FReg bs) else fs_lookup (fs s) k)"
    and tree: "tree_ok (fs s) \<Longrightarrow> tree_ok fs2"
    using write_new_file[OF quiet ws dirs new] by blast
  have "load_bytes d (length bs) (s\<lparr>fs := fs1\<rparr>) = Inr (bs, s\<lparr>fs := fs1\<rparr>)"
    using data by (intro load_bytes_ok) simp_all
  then have "write_chunk (join_slash ws) f d (length bs) c has s
      = cbind (insert_to_struct f c has) (\<lambda>_. cret True) (s\<lparr>fs := fs2\<rparr>)"
    using o w by (simp add: write_chunk_def cbind_Inr)
  then show thesis using env look tree by (intro that[of fs2]) simp_all
qed

lemma saveChunkToFile_insert:
  assumes has: "has = directoryHasFiles (dir_path f) (fs s)"
    and quiet: "fs_quiet (fs s)" and f: "good_name f" and fits: "path_fits f c"
    and dirs: "dirs_free (fs s) (dir_words f)" and new: "fs_lookup (fs s) (chunk_loc (fs s) f c) = None"
    and data: "d \<noteq> NULL" "heap.mem s d = Some (ByteB (map Some bs))" "bs \<noteq> []"
  obtains t where "saveChunkToFile (Some f) d (length bs) c s
      = cbind (insert_to_struct f c has) (\<lambda>_. cret True) (s\<lparr>fs := t\<rparr>)"
    "cwd t = cwd (fs s)" "fs_quiet t" "\<And>k. fs_lookup t k = saved_lookup (fs s) f c bs k"
    "tree_ok (fs s) \<Longrightarrow> tree_ok t"
proof -
  let ?ws = "dir_words f" and ?w = "show_int c" and ?path = "chunk_path f c"
  have path: "?path = join_slash (?ws @ [?w])" using chunk_path_join[OF fits] by (simp add: chunk_words_def)
  have loc: "chunk_loc (fs s) f c = cwd (fs s) @ ?ws @ [?w]" by (simp add: chunk_loc_def chunk_words_def)
  have len: "length (join_slash (?ws @ [?w])) < 512"
    using fits join_chunk_words[of f c] by (simp add: chunk_words_def path_fits_def)
  have pw: "proper_path (?ws @ [?w])" using proper_chunk_words[OF f] by (simp add: chunk_words_def)
  have noslash: "CHR ''/'' \<notin> set ?w" using proper_show_int by (simp add: proper_name_def)
  obtain fs1 where mk: "createDirectories (join_slash (?ws @ [?w])) (fs s) = (True, fs1)"
    and env1: "cwd fs1 = cwd (fs s)" "fs_quiet fs1"
    and look1: "\<And>k. fs_lookup fs1 k = (if \<exists>n \<le> length ?ws. 0 < n \<and> k = cwd (fs s) @ take n ?ws
        then Some FDir else fs_lookup (fs s) k)"
    using createDirectories_run[OF quiet proper_dir_words[OF f] dirs noslash len] by blast
  let ?s1 = "s\<lparr>fs := fs1\<rparr>"
  have low: "is_dir (fs ?s1) (cwd (fs ?s1) @ take n (?ws @ [?w]))" if "n < length (?ws @ [?w])" for n
  proof (cases "n = 0")
    case True
    then show ?thesis using dirs look1[of "cwd (fs s)"] env1 by (simp add: dirs_free_def)
  next
    case False
    with that have "\<exists>m \<le> length ?ws. 0 < m \<and> cwd (fs s) @ take n ?ws = cwd (fs s) @ take m ?ws"
      by (intro exI[of _ n]) auto
    with that show ?thesis by (simp add: env1(1) look1)
  qed
  have nw: "fs_lookup (fs ?s1) (cwd (fs ?s1) @ ?ws @ [?w]) = None"
  proof -
    have "?ws @ [?w] \<noteq> take n ?ws" for n by (metis append_eq_conv_conj append_take_drop_id append_self_conv
          append.assoc not_Cons_self2 append_is_Nil_conv)
    then show ?thesis using new by (simp add: look1 loc env1(1))
  qed
  have pre: "fs_quiet (fs ?s1)" "heap.mem ?s1 d = Some (ByteB (map Some bs))" using env1 data by simp_all
  obtain t where w: "write_chunk (join_slash (?ws @ [?w])) f d (length bs) c has ?s1
      = cbind (insert_to_struct f c has) (\<lambda>_. cret True) (?s1\<lparr>fs := t\<rparr>)"
    and env: "cwd t = cwd (fs ?s1)" "fs_quiet t" and tree: "tree_ok (fs ?s1) \<Longrightarrow> tree_ok t"
    and look: "\<And>k. fs_lookup t k
      = (if k = cwd (fs ?s1) @ ?ws @ [?w] then Some (FReg bs) else fs_lookup (fs ?s1) k)"
    using write_chunk_insert[where f = f and c = c and has = has, OF pre(1) pw low nw data(1) pre(2)] by blast
  have ex: "\<not> file_exists ?path (fs s)"
    using new unfolding path file_exists_join[OF quiet pw] loc by simp
  have "saveChunkToFile (Some f) d (length bs) c s
      = cbind (insert_to_struct f c has) (\<lambda>_. cret True) (s\<lparr>fs := t\<rparr>)"
    using data ex mk w by (simp add: saveChunkToFile_def path flip: has)
  moreover have "fs_lookup t k = saved_lookup (fs s) f c bs k" for k
    by (simp add: look saved_lookup_def loc env1(1) look1)
  moreover have "tree_ok t" if "tree_ok (fs s)"
    using tree tree_ok_createDirectories[OF that, of "join_slash (?ws @ [?w])"] mk by simp
  ultimately show thesis using env env1 by (intro that[of t]) simp_all
qed

lemma saveChunkToFile_new:
  assumes rel: "storage_rel s rs cat F" and free: "\<not> locked s" and mem: "no_oom s"
    and bound: "cat_bounded cat"
    and has: "has = directoryHasFiles (dir_path f) (fs s)" and last: "has \<Longrightarrow> cat \<noteq> []"
    and quiet: "fs_quiet (fs s)" and f: "good_name f" and fits: "path_fits f c"
    and dirs: "dirs_free (fs s) (dir_words f)" and new: "fs_lookup (fs s) (chunk_loc (fs s) f c) = None"
    and data: "d \<noteq> NULL" "heap.mem s d = Some (ByteB (map Some bs))" "bs \<noteq> []"
  obtains rs' s' where "saveChunkToFile (Some f) d (length bs) c s = Inr (True, s')"
    "storage_rel s' rs' (cat_insert f c has cat) F" "hframe F (s\<lparr>fs := fs s'\<rparr>) s'"
    "cwd (fs s') = cwd (fs s)" "fs_quiet (fs s')"
    "\<And>k. fs_lookup (fs s') k = saved_lookup (fs s) f c bs k"
    "tree_ok (fs s) \<Longrightarrow> tree_ok (fs s')"
proof -
  obtain t where save: "saveChunkToFile (Some f) d (length bs) c s
      = cbind (insert_to_struct f c has) (\<lambda>_. cret True) (s\<lparr>fs := t\<rparr>)"
    and env: "cwd t = cwd (fs s)" "fs_quiet t" "\<And>k. fs_lookup t k = saved_lookup (fs s) f c bs k"
      "tree_ok (fs s) \<Longrightarrow> tree_ok t"
    by (rule saveChunkToFile_insert[OF has quiet f fits dirs new data]) (rule that; assumption)
  have pre: "storage_rel (s\<lparr>fs := t\<rparr>) rs cat F" "\<not> locked (s\<lparr>fs := t\<rparr>)" "no_oom (s\<lparr>fs := t\<rparr>)"
    using rel free mem by (simp_all add: no_oom_def)
  obtain rs' s' where ins: "insert_to_struct f c has (s\<lparr>fs := t\<rparr>) = Inr ((), s')"
    and rel': "storage_rel s' rs' (cat_insert f c has cat) F" and fr: "hframe F (s\<lparr>fs := t\<rparr>) s'"
    by (rule insert_to_struct_run[OF pre bound last])
  have "fs s' = t" using fs_frame[OF fr] by simp
  then show thesis using save ins rel' fr env by (intro that[of s' rs']) (simp_all add: cbind_Inr)
qed

text \<open>A chunk whose file exists is reported as saved, and nothing is written.\<close>

lemma saveChunkToFile_exists:
  assumes "file_exists (chunk_path f c) (fs s)" "d \<noteq> NULL" "n \<noteq> 0"
  shows "saveChunkToFile (Some f) d n c s = Inr (True, s)"
  using assms by (simp add: saveChunkToFile_def cbind_def)

end
