(* ===== verification/Delete_File.thy ===== *)
theory Delete_File
  imports Chunk_Files
begin

text \<open>
  httpServer/deleteFile.c: the recursive removal of a file's directory and of its catalogue
  record. The call stack holds a given number of frames of \<open>remove_directory\<close>; a call
  too many is a stack overflow. Every call keeps its directory open over the calls below it: the
  descriptors that are left are counted, and without one \<open>opendir\<close> fails.
\<close>

section \<open>The code\<close>

text \<open>The loop over the directory's entries; \<open>False\<close> is a \<open>return -1\<close> inside it.\<close>

primrec remove_entries ::
  "(string \<Rightarrow> (fsys, int) cm) \<Rightarrow> string \<Rightarrow> string list \<Rightarrow> (fsys, bool) cm" where
  "remove_entries remove_subdir path [] = cret True"
| "remove_entries remove_subdir path (name # names) =
     (if name = ''.'' \<or> name = ''..'' then remove_entries remove_subdir path names
      else
        let filepath = snprintf 1024 (path @ ''/'' @ name) in
        cbind (cget (fs_lstat filepath)) (\<lambda>stat.
        case stat of
          None \<Rightarrow> cret False
        | Some FDir \<Rightarrow>
            cbind (remove_subdir filepath) (\<lambda>r.
            if r = - 1 then cret False else remove_entries remove_subdir path names)
        | Some _ \<Rightarrow>
            cbind (\<lambda>s. Inr (fs_unlink filepath s)) (\<lambda>ok.
            if \<not> ok then cret False else remove_entries remove_subdir path names)))"

primrec remove_directory :: "nat \<Rightarrow> nat \<Rightarrow> string \<Rightarrow> (fsys, int) cm" where
  "remove_directory 0 fds path = cfail StackOverflow"
| "remove_directory (Suc depth) fds path =
     cbind (cget (\<lambda>s. if fds = 0 then None else fs_opendir path s)) (\<lambda>dir.
     case dir of
       None \<Rightarrow> cret (- 1)
     | Some (l, names) \<Rightarrow>
         cbind (remove_entries (remove_directory depth (fds - 1)) path names) (\<lambda>finished.
         if \<not> finished then cret (- 1)
         else
           cbind (\<lambda>s. Inr (fs_rmdir path s)) (\<lambda>ok.
           if \<not> ok then cret (- 1) else cret 0)))"

text \<open>An operation on the disk, as one of the whole node.\<close>

definition on_fs :: "(fsys, 'a) cm \<Rightarrow> ('h, 'a) nm" where
  "on_fs m s = (case m (fs s) of Inl e \<Rightarrow> Inl e | Inr (x, t) \<Rightarrow> Inr (x, s\<lparr>fs := t\<rparr>))"

definition delete_file :: "nat \<Rightarrow> string \<Rightarrow> ('h, bool) nm" where
  "delete_file depth filename =
     cbind (on_fs (\<lambda>t. remove_directory depth (spare_fds t) (snprintf 512 (''data/'' @ filename)) t)) (\<lambda>del_result.
     if del_result \<noteq> 0 then cret False
     else cbind (remove_from_struct filename) (\<lambda>_. cret True))"

section \<open>What a removal does\<close>

text \<open>The directory is at \<open>ws\<close> below the working directory, and all above it is there.\<close>

definition at_dir :: "fsys \<Rightarrow> string list \<Rightarrow> bool" where
  "at_dir s ws \<longleftrightarrow> proper_path ws \<and> (\<forall>n \<le> length ws. is_dir s (cwd s @ take n ws))"

text \<open>Every path the removal builds fits into its buffer.\<close>

definition paths_short :: "fsys \<Rightarrow> string list \<Rightarrow> bool" where
  "paths_short s ws \<longleftrightarrow>
     (\<forall>vs. fs_lookup s (cwd s @ ws @ vs) \<noteq> None \<longrightarrow> length (join_slash (ws @ vs)) < 1024)"

text \<open>The stack holds a frame for every level of the directory, and there is a descriptor for each directory.\<close>

definition deep_enough :: "fsys \<Rightarrow> string list \<Rightarrow> nat \<Rightarrow> nat \<Rightarrow> bool" where
  "deep_enough s ws depth fds \<longleftrightarrow>
     (\<forall>vs. fs_lookup s (cwd s @ ws @ vs) \<noteq> None \<longrightarrow> length vs < depth) \<and>
     (\<forall>vs. is_dir s (cwd s @ ws @ vs) \<longrightarrow> length vs < fds)"

lemma at_dir_path: "at_dir s ws \<Longrightarrow> proper_path ws" "at_dir s ws \<Longrightarrow> is_dir s (cwd s @ ws)"
  by (auto simp: at_dir_def)

lemma resolve_at_dir: "at_dir s ws \<Longrightarrow> resolve s (join_slash ws) = Some (cwd s @ ws)"
  by (simp add: resolve_join at_dir_def)

lemma at_dir_snoc:
  assumes "at_dir s ws" "proper_name w"
  shows "resolve s (join_slash (ws @ [w])) = Some (cwd s @ ws @ [w])"
    and "is_dir s (cwd s @ ws @ [w]) \<Longrightarrow> at_dir s (ws @ [w])"
proof -
  have low: "is_dir s (cwd s @ take n (ws @ [w]))" if "n \<le> length ws" for n
    using assms that by (simp add: at_dir_def)
  have path: "proper_path (ws @ [w])" using assms by (simp add: at_dir_def proper_path_snoc)
  show "resolve s (join_slash (ws @ [w])) = Some (cwd s @ ws @ [w])"
    using low by (simp add: resolve_join[OF path])
  show "at_dir s (ws @ [w])" if "is_dir s (cwd s @ ws @ [w])"
    using low that path by (auto simp: at_dir_def le_Suc_eq)
qed

lemma at_dir_prune:
  assumes "at_dir s ws" "l = cwd s @ ws @ v # vs"
  shows "at_dir (prune l s) ws"
proof -
  have "\<not> prefix l (cwd s @ take n ws)" for n
    using assms(2) by (auto simp: prefix_def dest!: arg_cong[of _ _ length])
  then show ?thesis using assms(1) by (simp add: at_dir_def fs_lookup_prune)
qed

text \<open>
  A string that leads to the directory: its names, whatever slashes are between them or at its end. The
  path of an entry leads to the entry.
\<close>

definition leads_to :: "string \<Rightarrow> string list \<Rightarrow> bool" where
  "leads_to p ws \<longleftrightarrow> p \<noteq> [] \<and> hd p \<noteq> CHR ''/'' \<and> filter (\<lambda>w. w \<noteq> []) (split_slash p) = ws \<and>
     last (split_slash (strip_trailing p)) \<noteq> ''.''"

lemma walk_dirs:
  assumes "\<forall>w \<in> set (filter (\<lambda>w. w \<noteq> []) cs). proper_name w"
    and "\<forall>n \<le> length (filter (\<lambda>w. w \<noteq> []) cs). is_dir s (cur @ take n (filter (\<lambda>w. w \<noteq> []) cs))"
  shows "walk s cur (cs @ ds) = walk s (cur @ filter (\<lambda>w. w \<noteq> []) cs) ds"
  using assms
proof (induction cs arbitrary: cur)
  case (Cons c cs)
  have here: "is_dir s cur" using Cons.prems(2)[rule_format, of 0] by simp
  show ?case
  proof (cases "c = []")
    case True
    then show ?thesis using Cons here by simp
  next
    case False
    let ?ws = "filter (\<lambda>w. w \<noteq> []) cs"
    have "is_dir s ((cur @ [c]) @ take n ?ws)" if "n \<le> length ?ws" for n
      using Cons.prems(2)[rule_format, of "Suc n"] that False by simp
    then show ?thesis using Cons.IH[of "cur @ [c]"] Cons.prems(1) False here by (simp add: proper_name_def)
  qed
qed simp

lemma resolve_leads:
  assumes "at_dir s ws" "leads_to p ws"
  shows "resolve s p = Some (cwd s @ ws)"
proof -
  have "\<forall>w \<in> set ws. proper_name w" "\<forall>n \<le> length ws. is_dir s (cwd s @ take n ws)"
    using assms(1) by (simp_all add: at_dir_def proper_path_def)
  with walk_dirs[of "split_slash p" s "cwd s" "[]"] show ?thesis
    using assms(2) by (auto simp: leads_to_def resolve_def)
qed

lemma resolve_entry:
  assumes "at_dir s ws" "leads_to p ws" "proper_name w"
  shows "resolve s (p @ ''/'' @ w) = Some (cwd s @ ws @ [w])"
proof -
  have split: "split_slash (p @ ''/'' @ w) = split_slash p @ [w]"
    using assms(3) by (simp only: split_slash_append) (simp add: split_slash_plain proper_name_def)
  have "\<forall>w \<in> set ws. proper_name w" "\<forall>n \<le> length ws. is_dir s (cwd s @ take n ws)"
    using assms(1) by (simp_all add: at_dir_def proper_path_def)
  with walk_dirs[of "split_slash p" s "cwd s" "[w]"]
  have "walk s (cwd s) (split_slash p @ [w]) = walk s (cwd s @ ws) [w]" using assms(2) by (auto simp: leads_to_def)
  also have "\<dots> = Some (cwd s @ ws @ [w])" using at_dir_path(2)[OF assms(1)] assms(3) by (simp add: proper_name_def)
  finally have "walk s (cwd s) (split_slash (p @ ''/'' @ w)) = Some (cwd s @ ws @ [w])" unfolding split .
  moreover have "hd (p @ ''/'' @ w) = hd p" "p @ ''/'' @ w \<noteq> []" using assms(2) by (auto simp: leads_to_def)
  ultimately show ?thesis using assms(2) by (simp only: resolve_def leads_to_def if_False)
qed

lemma leads_to_entry:
  assumes "leads_to p ws" "proper_name w"
  shows "leads_to (p @ ''/'' @ w) (ws @ [w])"
proof -
  have split: "split_slash (p @ ''/'' @ w) = split_slash p @ [w]"
    using assms(2) by (simp only: split_slash_append) (simp add: split_slash_plain proper_name_def)
  obtain v c where w: "w = v @ [c]" "c \<noteq> CHR ''/''" using assms(2) by (cases w rule: rev_cases) (auto simp: proper_name_def)
  have strip: "strip_trailing (p @ ''/'' @ w) = p @ ''/'' @ w" using w by (simp add: strip_trailing_def)
  have "p \<noteq> []" "hd p \<noteq> CHR ''/''" "filter (\<lambda>w. w \<noteq> []) (split_slash p) = ws" using assms(1) by (simp_all add: leads_to_def)
  then show ?thesis unfolding leads_to_def strip split using assms(2) by (simp add: proper_name_def)
qed

lemma leads_to_join: "proper_path ws \<Longrightarrow> leads_to (join_slash ws) ws"
  using proper_path_join[of ws] by (auto simp: leads_to_def proper_path_def proper_name_def intro!: filter_True)

text \<open>Every path below the directory fits into the buffer.\<close>

definition fits_below :: "string \<Rightarrow> fsys \<Rightarrow> string list \<Rightarrow> bool" where
  "fits_below p s ws \<longleftrightarrow>
     (\<forall>vs. fs_lookup s (cwd s @ ws @ vs) \<noteq> None \<longrightarrow> length (p @ concat (map ((#) (CHR ''/'')) vs)) < 1024)"

lemma join_slash_below: "ws \<noteq> [] \<Longrightarrow> join_slash (ws @ vs) = join_slash ws @ concat (map ((#) (CHR ''/'')) vs)"
proof (induction vs rule: rev_induct)
  case (snoc v vs)
  have "join_slash (ws @ vs @ [v]) = join_slash (ws @ vs) @ ''/'' @ v" using snoc(2) join_slash_snoc[of "ws @ vs" v] by simp
  then show ?case using snoc by simp
qed simp

lemma fits_below_join: "proper_path ws \<Longrightarrow> fits_below (join_slash ws) s ws = paths_short s ws"
  by (simp add: fits_below_def paths_short_def join_slash_below proper_path_def del: length_append)

text \<open>What a removal of a subdirectory is relied on for.\<close>

definition removes_dir :: "(string \<Rightarrow> (fsys, int) cm) \<Rightarrow> string \<Rightarrow> fsys \<Rightarrow> string list \<Rightarrow> bool" where
  "removes_dir rm p s ws \<longleftrightarrow> rm p s = Inr (0, prune (cwd s @ ws) s)"

lemma remove_entry:
  assumes tree: "tree_ok s" and quiet: "fs_quiet s" and dir: "at_dir s ws" and p: "leads_to p ws" and w: "proper_name w"
    and there: "fs_lookup s (cwd s @ ws @ [w]) \<noteq> None"
    and short: "length (p @ ''/'' @ w) < 1024"
    and rm: "is_dir s (cwd s @ ws @ [w]) \<Longrightarrow> removes_dir rm (p @ ''/'' @ w) s (ws @ [w])"
  shows "remove_entries rm p (w # names) s = remove_entries rm p names (prune (cwd s @ ws @ [w]) s)"
proof -
  let ?l = "cwd s @ ws @ [w]" and ?p = "p @ ''/'' @ w"
  have nm: "w \<noteq> ''.''" "w \<noteq> ''..''" using w by (auto simp: proper_name_def)
  have path: "snprintf 1024 ?p = ?p" using short by (simp add: snprintf_def)
  have res: "resolve s ?p = Some ?l" by (rule resolve_entry[OF dir p w])
  obtain e where e: "fs_lookup s ?l = Some e" using there by blast
  have stat: "fs_lstat ?p s = Some e" using quiet res e by (simp add: fs_lstat_def)
  show ?thesis
  proof (cases "e = FDir")
    case True
    then have "rm ?p s = Inr (0, prune ?l s)" using rm e by (simp add: removes_dir_def)
    then show ?thesis using nm path stat True by (simp add: cbind_Inr Let_def del: append.simps)
  next
    case False
    then have "fs_unlink ?p s = (True, prune ?l s)"
      using quiet res e prune_leaf[OF tree, of ?l] by (simp add: fs_unlink_def)
    then show ?thesis using nm path stat False
      by (cases e) (simp_all add: cbind_Inr Let_def del: append.simps)
  qed
qed

lemma remove_entries_run:
  assumes "tree_ok s" "fs_quiet s" "at_dir s ws" "distinct names"
    and "\<And>w. w \<in> set names \<Longrightarrow> fs_lookup s (cwd s @ ws @ [w]) \<noteq> None"
    and "fits_below p s ws" and p: "leads_to p ws"
    and rm: "\<And>t w. w \<in> set names \<Longrightarrow> tree_ok t \<Longrightarrow> fs_quiet t \<Longrightarrow> at_dir t (ws @ [w]) \<Longrightarrow> cwd t = cwd s \<Longrightarrow>
      (\<And>k. fs_lookup t k \<in> {None, fs_lookup s k}) \<Longrightarrow> removes_dir rm (p @ ''/'' @ w) t (ws @ [w])"
  shows "remove_entries rm p names s = Inr (True, prune_entries (cwd s @ ws) names s)"
  using assms(1-6) rm
proof (induction names arbitrary: s)
  case Nil
  then show ?case by simp
next
  case (Cons w names)
  let ?l = "cwd s @ ws @ [w]" and ?s1 = "prune (cwd s @ ws @ [w]) s"
  note prems = Cons.prems(1-6)
  have w: "proper_name w" using prems(1) prems(5)[of w] by (auto simp: tree_ok_def)
  have "length (p @ ''/'' @ w) < 1024"
    using prems(6)[unfolded fits_below_def, rule_format, of "[w]"] prems(5)[of w] by simp
  moreover have "removes_dir rm (p @ ''/'' @ w) s (ws @ [w])" if "is_dir s ?l"
    using Cons.prems(7)[of w s] prems at_dir_snoc(2)[OF prems(3) w that] by simp
  ultimately have "remove_entries rm p (w # names) s = remove_entries rm p names ?s1"
    using prems(5)[of w] by (intro remove_entry[OF prems(1-3) p w]) simp_all
  also have "\<dots> = Inr (True, prune_entries (cwd ?s1 @ ws) names ?s1)"
  proof (rule Cons.IH)
    show "tree_ok ?s1" "fs_quiet ?s1" "at_dir ?s1 ws" "distinct names"
      using prems tree_ok_prune at_dir_prune[OF prems(3), of ?l w "[]"] by simp_all
    show "fits_below p ?s1 ws" using prems(6) by (auto simp: fits_below_def fs_lookup_prune)
    fix v assume v: "v \<in> set names"
    with prems(4) show "fs_lookup ?s1 (cwd ?s1 @ ws @ [v]) \<noteq> None"
      using prems(5)[of v] by (auto simp: fs_lookup_prune)
    fix t assume "tree_ok t" "fs_quiet t" "at_dir t (ws @ [v])" "cwd t = cwd ?s1"
      and sub: "\<And>k. fs_lookup t k \<in> {None, fs_lookup ?s1 k}"
    moreover have "fs_lookup t k \<in> {None, fs_lookup s k}" for k
      using sub[of k] by (auto simp: fs_lookup_prune split: if_splits)
    ultimately show "removes_dir rm (p @ ''/'' @ v) t (ws @ [v])" using v by (intro Cons.prems(7)) simp_all
  qed
  finally show ?case by simp
qed

lemma at_dir_prune_entries: "at_dir s ws \<Longrightarrow> at_dir (prune_entries (cwd s @ ws) names s) ws"
proof (induction names arbitrary: s)
  case Nil
  then show ?case by simp
next
  case (Cons w names)
  then show ?case using Cons.IH[OF at_dir_prune[OF Cons.prems, of _ w "[]"]] by simp
qed

text \<open>A subdirectory has room when the directory has, also once some of it is gone.\<close>

lemma room_below:
  assumes "cwd t = cwd s" "\<And>k. fs_lookup t k \<in> {None, fs_lookup s k}"
  shows "fits_below p s ws \<Longrightarrow> fits_below (p @ ''/'' @ w) t (ws @ [w])"
    "deep_enough s ws (Suc depth) fds \<Longrightarrow> deep_enough t (ws @ [w]) depth (fds - 1)"
proof -
  have sub: "fs_lookup s (cwd s @ ws @ w # vs) = Some e" if "fs_lookup t (cwd t @ (ws @ [w]) @ vs) = Some e" for vs e
    using assms(2)[of "cwd s @ ws @ w # vs"] that assms(1) by auto
  show "fits_below (p @ ''/'' @ w) t (ws @ [w])" if "fits_below p s ws"
    unfolding fits_below_def
  proof (intro allI impI)
    fix vs
    assume "fs_lookup t (cwd t @ (ws @ [w]) @ vs) \<noteq> None"
    then have "fs_lookup s (cwd s @ ws @ w # vs) \<noteq> None" using sub by blast
    then show "length ((p @ ''/'' @ w) @ concat (map ((#) (CHR ''/'')) vs)) < 1024"
      using that[unfolded fits_below_def, rule_format, of "w # vs"] by simp
  qed
  show "deep_enough t (ws @ [w]) depth (fds - 1)" if d: "deep_enough s ws (Suc depth) fds"
    unfolding deep_enough_def
  proof (intro conjI allI impI)
    fix vs
    assume "fs_lookup t (cwd t @ (ws @ [w]) @ vs) \<noteq> None"
    then have "fs_lookup s (cwd s @ ws @ w # vs) \<noteq> None" using sub by blast
    then have "length (w # vs) < Suc depth" using d unfolding deep_enough_def by blast
    then show "length vs < depth" by simp
  next
    fix vs
    assume "is_dir t (cwd t @ (ws @ [w]) @ vs)"
    then have "length (w # vs) < fds" using sub d unfolding deep_enough_def by blast
    then show "length vs < fds - 1" by simp
  qed
qed

text \<open>The removal returns 0, and exactly the directory and what is below it are gone.\<close>

lemma remove_directory_at:
  assumes "tree_ok s" "fs_quiet s" "at_dir s ws" "leads_to p ws" "fits_below p s ws" "deep_enough s ws depth fds"
  shows "remove_directory depth fds p s = Inr (0, prune (cwd s @ ws) s)"
  using assms
proof (induction depth arbitrary: s ws p fds)
  case 0
  from 0(3) have "is_dir s (cwd s @ ws @ [])" by (simp add: at_dir_path)
  then have False using 0(6) unfolding deep_enough_def by blast
  then show ?case ..
next
  case (Suc depth)
  let ?l = "cwd s @ ws" and ?rm = "remove_directory depth (fds - 1)"
  let ?s1 = "prune_entries ?l (children s ?l) s"
  have "is_dir s (cwd s @ ws @ [])" using Suc.prems(3) by (simp add: at_dir_path)
  then have "length ([] :: string list) < fds" using Suc.prems(6) unfolding deep_enough_def by blast
  then have fds: "fds \<noteq> 0" by simp
  have opened: "fs_opendir p s = Some (?l, [''.'', ''..''] @ children s ?l)"
    using Suc.prems(2,3) resolve_leads[OF Suc.prems(3,4)] at_dir_path by (simp add: fs_opendir_def)
  have entries: "remove_entries ?rm p (children s ?l) s = Inr (True, ?s1)"
  proof (rule remove_entries_run)
    fix t w
    assume w: "w \<in> set (children s ?l)" and t: "tree_ok t" "fs_quiet t" "at_dir t (ws @ [w])" "cwd t = cwd s"
      and sub: "\<And>k. fs_lookup t k \<in> {None, fs_lookup s k}"
    have "proper_name w" using t(3) by (simp add: at_dir_def proper_path_def)
    with t show "removes_dir ?rm (p @ ''/'' @ w) t (ws @ [w])" unfolding removes_dir_def
      by (intro Suc.IH leads_to_entry room_below[OF t(4) sub] Suc.prems)
  qed (use Suc.prems distinct_children in \<open>simp_all add: in_children\<close>)
  have at1: "at_dir ?s1 ws" using at_dir_prune_entries[OF Suc.prems(3)] .
  have env: "cwd ?s1 = cwd s" "fs_quiet ?s1"
    using Suc.prems(2) unfolding prune_entries_files fs_quiet_def by simp_all
  have "?l \<noteq> []" "last (split_slash (strip_trailing p)) \<noteq> ''.''"
    using at_dir_path(1)[OF Suc.prems(3)] Suc.prems(4) by (auto simp: proper_path_def leads_to_def)
  then have "fs_rmdir p ?s1 = (True, prune ?l s)"
    using env resolve_leads[OF at1 Suc.prems(4)] at_dir_path(2)[OF at1] prune_children[OF Suc.prems(1), of ?l]
    by (simp add: fs_rmdir_def)
  then show ?case using opened entries fds by (simp add: cbind_Inr)
qed

lemma remove_directory_run:
  assumes "tree_ok s" "fs_quiet s" "at_dir s ws" "paths_short s ws" "deep_enough s ws depth fds"
  shows "remove_directory depth fds (join_slash ws) s = Inr (0, prune (cwd s @ ws) s)"
  using remove_directory_at[OF assms(1-3) leads_to_join _ assms(5)] assms(3,4)
  by (simp add: at_dir_def fits_below_join)

section \<open>Deleting a file\<close>

lemma dir_path_words: "length f \<le> 506 \<Longrightarrow> snprintf 512 (''data/'' @ f) = join_slash (dir_words f)"
  by (simp add: join_dir_words)

lemma on_fs_Inr: "m (fs s) = Inr (x, t) \<Longrightarrow> on_fs m s = Inr (x, s\<lparr>fs := t\<rparr>)"
  by (simp add: on_fs_def)

lemma delete_file_run:
  assumes rel: "storage_rel s rs cat F" and free: "\<not> locked s"
    and gone: "remove_directory depth (spare_fds (fs s)) (snprintf 512 (''data/'' @ f)) (fs s) = Inr (0, t)"
  obtains rs' s' where "delete_file depth f s = Inr (True, s')"
    "storage_rel s' rs' (cat_remove f cat) F" "fs s' = t" "hframe F (s\<lparr>fs := fs s'\<rparr>) s'"
proof -
  have "storage_rel (s\<lparr>fs := t\<rparr>) rs cat F" "\<not> locked (s\<lparr>fs := t\<rparr>)" using rel free by simp_all
  then obtain rs' s' where rem: "remove_from_struct f (s\<lparr>fs := t\<rparr>) = Inr ((), s')"
    and rel': "storage_rel s' rs' (cat_remove f cat) F" and fr: "hframe F (s\<lparr>fs := t\<rparr>) s'"
    by (rule remove_from_struct_run)
  have "delete_file depth f s = Inr (True, s')"
    using rem gone by (simp add: delete_file_def cbind_Inr[OF on_fs_Inr] cbind_Inr)
  then show thesis using rel' fs_frame[OF fr] fr by (intro that[of s' rs']) simp_all
qed

text \<open>A directory that cannot be opened: nothing is removed, on disk or in the catalogue.\<close>

lemma delete_file_missing:
  assumes "fs_opendir (snprintf 512 (''data/'' @ f)) (fs s) = None"
  shows "delete_file (Suc depth) f s = Inr (False, s)"
  using assms by (simp add: delete_file_def cbind_def on_fs_def)

text \<open>
  The path of an entry is cut at 1023 characters. A directory whose own path has that length
  is then taken for its own subdirectory, and opened again and again.
\<close>

lemma remove_directory_cut:
  assumes "length path = 1023" and dir: "fs_opendir path s = Some (l, [''.'', ''..''] @ names)"
    and names: "names \<noteq> []" "hd names \<noteq> ''.''" "hd names \<noteq> ''..''"
    and stat: "fs_lstat path s = Some FDir"
  shows "remove_directory depth fds path s = (if depth \<le> fds then Inl StackOverflow else Inr (- 1, s))"
proof (induction depth arbitrary: fds)
  case 0
  then show ?case by simp
next
  case (Suc depth)
  show ?case
  proof (cases fds)
    case 0
    then show ?thesis by (simp add: cbind_def)
  next
    case (Suc n)
    obtain w ws where w: "names = w # ws" using names by (cases names) auto
    have cut: "snprintf 1024 (path @ ''/'' @ w) = path" using assms(1) by (simp add: snprintf_def)
    have "remove_entries (remove_directory depth n) path ([''.'', ''..''] @ names) s
        = (if depth \<le> n then Inl StackOverflow else Inr (False, s))"
      using w names stat cut Suc.IH[of n] by (simp add: cbind_def)
    then show ?thesis using dir Suc by (auto simp: cbind_def)
  qed
qed

end
