(* ===== verification/Get_File_Descriptor.thy ===== *)
theory Get_File_Descriptor
  imports Chunk_Files
begin

text \<open>
  httpServer/getFileDescriptor.c: a chunk is served when some record of its file lists its
  id; the search runs under the mutex. A descriptor is the location it was opened at, and
  \<open>None\<close> is the descriptor -1.
\<close>

section \<open>The code\<close>

primrec scan_chunk_ids :: "ptr \<Rightarrow> int \<Rightarrow> nat \<Rightarrow> nat \<Rightarrow> ('h heap_scheme, bool) cm" where
  "scan_chunk_ids ids chunk_id j 0 = cret False"
| "scan_chunk_ids ids chunk_id j (Suc k) =
     cbind (read_int ids (int j)) (\<lambda>x.
     if chunk_id = x then cret True else scan_chunk_ids ids chunk_id (Suc j) k)"

primrec scan_files :: "ptr \<Rightarrow> string \<Rightarrow> int \<Rightarrow> nat \<Rightarrow> nat \<Rightarrow> ('h heap_scheme, bool) cm" where
  "scan_files base filename chunk_id i 0 = cret False"
| "scan_files base filename chunk_id i (Suc k) =
     cbind (read_rec base (int i)) (\<lambda>r.
     cbind (load_str (file_path r)) (\<lambda>p.
     if filename = p then
       cbind (scan_chunk_ids (chunk_ids r) chunk_id 0 (nat (num_chunks r))) (\<lambda>found.
       if found then cret True else scan_files base filename chunk_id (Suc i) k)
     else scan_files base filename chunk_id (Suc i) k))"

definition getFileDescriptor :: "string \<Rightarrow> int \<Rightarrow> ('h, loc option) nm" where
  "getFileDescriptor filename chunk_id =
     cbind mutex_lock (\<lambda>_.
     cbind (cget (\<lambda>s. (file_to_chunk_state s, nat (num_file_count s)))) (\<lambda>(base, n).
     cbind (scan_files base filename chunk_id 0 n) (\<lambda>found.
     cbind (cget (\<lambda>s. if found then fs_open_read (chunk_path filename chunk_id) (fs s) else None)) (\<lambda>fd.
     cbind mutex_unlock (\<lambda>_.
     cret fd)))))"

section \<open>What it finds\<close>

definition cat_has :: "string \<Rightarrow> int \<Rightarrow> catalogue \<Rightarrow> bool" where
  "cat_has filename chunk_id cat \<longleftrightarrow> (\<exists>(f, ids) \<in> set cat. f = filename \<and> chunk_id \<in> set ids)"

lemma cat_has_simps [simp]:
  "\<not> cat_has f c []"
  "cat_has f c ((g, ids) # cat) \<longleftrightarrow> f = g \<and> c \<in> set ids \<or> cat_has f c cat"
  by (auto simp: cat_has_def)

lemma scan_chunk_ids_run:
  "(\<And>i. i < length xs \<Longrightarrow> read_int p (int (j + i)) s = Inr (xs ! i, s)) \<Longrightarrow>
   scan_chunk_ids p c j (length xs) s = Inr (c \<in> set xs, s)"
proof (induction xs arbitrary: j)
  case Nil
  then show ?case by simp
next
  case (Cons x xs)
  have first: "read_int p (int j) s = Inr (x, s)" using Cons.prems[of 0] by simp
  have "read_int p (int (Suc j + i)) s = Inr (xs ! i, s)" if "i < length xs" for i
    using Cons.prems[of "Suc i"] that by simp
  then have "scan_chunk_ids p c (Suc j) (length xs) s = Inr (c \<in> set xs, s)" by (rule Cons.IH)
  with first show ?case by (simp add: cbind_Inr)
qed

lemma scan_files_run:
  assumes rel: "storage_rel s rs (ca @ cb) F"
  shows "scan_files (file_to_chunk_state s) f c (length ca) (length cb) s = Inr (cat_has f c cb, s)"
  using rel
proof (induction cb arbitrary: ca)
  case Nil
  then show ?case by simp
next
  case (Cons e cb)
  obtain g ids where e: "e = (g, ids)" by (cases e)
  let ?i = "length ca" and ?b = "file_to_chunk_state s"
  have i: "?i < length (ca @ e # cb)" and at: "(ca @ e # cb) ! ?i = (g, ids)" by (simp_all add: e)
  have r: "read_rec ?b (int ?i) s = Inr (rs ! ?i, s)"
    and p: "load_str (file_path (rs ! ?i)) s = Inr (g, s)"
    and n: "num_chunks (rs ! ?i) = int (length ids)"
    using storage_rel_read[OF Cons.prems i] storage_rel_path[OF Cons.prems i]
      storage_rel_num[OF Cons.prems i] at by simp_all
  have ids: "scan_chunk_ids (chunk_ids (rs ! ?i)) c 0 (length ids) s = Inr (c \<in> set ids, s)"
    using storage_rel_ids[OF Cons.prems i] at by (intro scan_chunk_ids_run) simp
  have rest: "scan_files ?b f c (Suc ?i) (length cb) s = Inr (cat_has f c cb, s)"
    using Cons.IH[of "ca @ [e]"] Cons.prems by simp
  show ?case using r p n ids rest by (auto simp: cbind_Inr e)
qed

text \<open>The descriptor of the chunk's file for a listed chunk, and -1 for any other.\<close>

lemma getFileDescriptor_run:
  assumes rel: "storage_rel s rs cat F" and free: "\<not> locked s"
  shows "getFileDescriptor f c s
    = Inr (if cat_has f c cat then fs_open_read (chunk_path f c) (fs s) else None, s)"
proof -
  have "scan_files (file_to_chunk_state s) f c 0 (length cat) (s\<lparr>locked := True\<rparr>)
      = Inr (cat_has f c cat, s\<lparr>locked := True\<rparr>)"
    using scan_files_run[of "s\<lparr>locked := True\<rparr>" rs "[]" cat F f c] rel by simp
  moreover have "nat (num_file_count s) = length cat" using rel by (simp add: storage_rel_def)
  ultimately show ?thesis using free
    by (simp add: getFileDescriptor_def cbind_def mutex_lock_def mutex_unlock_def)
qed

end
