(* ===== verification/Http_Main.thy ===== *)
theory Http_Main
  imports Delete_File Get_File_Descriptor
begin

text \<open>
  httpServer/httpMain.c and httpServer/handleNewChunk.c: the callbacks libmicrohttpd runs
  for a request. The library is not part of the repository: what it answers is the
  argument \<open>mhd\<close>, and a response it is given to queue is part of the result.
\<close>

section \<open>The library's side\<close>

text \<open>
  The header fields of the connection, whether a response can be made from a descriptor of
  a given size, and whether a response with a given status is queued.
\<close>

record mhd =
  connection_value :: "string \<Rightarrow> string option"
  response_from_fd :: "nat \<Rightarrow> loc \<Rightarrow> bool"
  queue_response :: "nat \<Rightarrow> bool"

datatype body = PageBody string | FdBody nat loc

record response =
  resp_status :: nat
  resp_type :: string
  resp_body :: body

text \<open>
  What a call of the handler leaves: \<open>MHD_YES\<close> or \<open>MHD_NO\<close>, the connection's
  \<open>con_cls\<close>, the bytes of \<open>upload_data\<close> not consumed, and the queued response.
\<close>

record handled =
  mhd_yes :: bool
  con_cls :: ptr
  upload_left :: nat
  queued :: "response option"

text \<open>\<open>const char *page\<close>: \<open>NULL\<close>, a string literal, or the text on the heap.\<close>

datatype page = NoPage | Literal string | OnHeap ptr

record reply =
  page :: page
  response_text :: ptr
  status :: nat
  should_free :: bool

abbreviation http_ok :: nat where "http_ok \<equiv> 200"
abbreviation http_bad_request :: nat where "http_bad_request \<equiv> 400"
abbreviation http_not_found :: nat where "http_not_found \<equiv> 404"
abbreviation http_not_allowed :: nat where "http_not_allowed \<equiv> 405"
abbreviation http_internal_error :: nat where "http_internal_error \<equiv> 500"

definition literal_reply :: "string \<Rightarrow> nat \<Rightarrow> reply" where
  "literal_reply text code =
     \<lparr>page = Literal text, response_text = NULL, status = code, should_free = False\<rparr>"

section \<open>The connection's record\<close>

definition read_conn :: "ptr \<Rightarrow> ('h heap_scheme, conn_info) cm" where
  "read_conn p = cbind (load p) (\<lambda>b. case b of
     ConnB (Some c) \<Rightarrow> cret c
   | ConnB None \<Rightarrow> cfail Uninitialised
   | _ \<Rightarrow> cfail TypeConfusion)"

definition write_conn :: "ptr \<Rightarrow> conn_info \<Rightarrow> ('h heap_scheme, unit) cm" where
  "write_conn p c = cbind (load p) (\<lambda>b. case b of
     ConnB _ \<Rightarrow> store p (ConnB (Some c))
   | _ \<Rightarrow> cfail TypeConfusion)"

text \<open>The first call for a request.\<close>

definition new_connection :: "byte list \<Rightarrow> ('h heap_scheme, handled) cm" where
  "new_connection upload_data =
     cbind (malloc_block (ConnB None)) (\<lambda>con_info.
     if con_info = NULL then
       cret \<lparr>mhd_yes = False, con_cls = NULL, upload_left = length upload_data, queued = None\<rparr>
     else
       cbind (write_conn con_info \<lparr>conn_data = NULL, conn_size = 0\<rparr>) (\<lambda>_.
       cret \<lparr>mhd_yes = True, con_cls = con_info, upload_left = length upload_data, queued = None\<rparr>))"

text \<open>A piece of the body of a \<open>POST\<close>.\<close>

definition append_upload :: "ptr \<Rightarrow> byte list \<Rightarrow> ('h heap_scheme, handled) cm" where
  "append_upload con_info upload_data =
     cbind (read_conn con_info) (\<lambda>c.
     cbind (realloc_block (conn_data c) (ByteB []) (conn_size c + length upload_data)) (\<lambda>new_data.
     if new_data = NULL then
       cbind (c_free con_info) (\<lambda>_.
       cret \<lparr>mhd_yes = False, con_cls = NULL, upload_left = length upload_data, queued = None\<rparr>)
     else
       cbind (write_conn con_info (c\<lparr>conn_data := new_data\<rparr>)) (\<lambda>_.
       cbind (copy_bytes new_data (conn_size c) upload_data) (\<lambda>_.
       cbind (write_conn con_info
               \<lparr>conn_data = new_data, conn_size = conn_size c + length upload_data\<rparr>) (\<lambda>_.
       cret \<lparr>mhd_yes = True, con_cls = con_info, upload_left = 0, queued = None\<rparr>)))))"

section \<open>POST /new-chunk\<close>

definition new_chunk_json :: "int \<Rightarrow> nat \<Rightarrow> string" where
  "new_chunk_json chunk_id n =
     ''{\"success\": true, \"chunkId\": '' @ show_int chunk_id @ '', \"bytes\": '' @ show_nat n @ ''}''"

text \<open>
  handleNewChunk.c. It gets the reply as it stands, with the page and the text still
  \<open>NULL\<close>, and gives back whether the chunk was saved and the reply with its changes.
\<close>

definition handleNewChunk :: "ptr \<Rightarrow> reply \<Rightarrow> string \<Rightarrow> int \<Rightarrow> ('h, bool \<times> reply) nm" where
  "handleNewChunk con_info r filename chunk_id =
     cbind (read_conn con_info) (\<lambda>c.
     cbind (saveChunkToFile (Some filename) (conn_data c) (conn_size c) chunk_id) (\<lambda>write_result.
     if \<not> write_result then cret (False, r)
     else
       cbind (malloc_block (StrB [])) (\<lambda>text.
       if text = NULL then cret (True, r\<lparr>response_text := NULL\<rparr>)
       else
         cbind (store text (StrB (snprintf 200 (new_chunk_json chunk_id (conn_size c))))) (\<lambda>_.
         cret (True, r\<lparr>response_text := text, page := OnHeap text, should_free := True\<rparr>)))))"

definition answer_post :: "mhd \<Rightarrow> string \<Rightarrow> ptr \<Rightarrow> ('h, reply) nm" where
  "answer_post m url con_info =
     (if url = ''/new-chunk'' then
        (case (connection_value m ''X-Filename'', connection_value m ''X-Chunk-ID'') of
           (Some filename, Some chunk_id_str) \<Rightarrow>
             cbind (atoi chunk_id_str) (\<lambda>chunk_id.
             cbind (read_conn con_info) (\<lambda>c.
             if conn_data c \<noteq> NULL \<and> conn_size c > 0 then
               cbind (handleNewChunk con_info
                       \<lparr>page = NoPage, response_text = NULL, status = http_ok, should_free = False\<rparr>
                       filename chunk_id) (\<lambda>(ok, r).
               cret (if \<not> ok then r\<lparr>status := http_internal_error\<rparr> else r))
             else
               cret (literal_reply ''{\"error\":\"No request body\"}'' http_bad_request)))
         | _ \<Rightarrow>
             cret (literal_reply ''{\"error\":\"Missing X-Filename or X-Chunk-ID\"}'' http_bad_request))
      else cret (literal_reply ''{\"error\":\"404 Not Found\"}'' http_not_found))"

section \<open>GET /chunk\<close>

text \<open>The left result is the response queued, or not, by the branch itself.\<close>

definition send_fd :: "mhd \<Rightarrow> loc \<Rightarrow> ('h, (bool \<times> response option) + reply) nm" where
  "send_fd m fd =
     cbind (cget (\<lambda>s. fs_fstat fd (fs s))) (\<lambda>st.
     case st of
       None \<Rightarrow> cret (Inr (literal_reply ''{\"error\":\"Could not stat file\"}'' http_internal_error))
     | Some st_size \<Rightarrow>
         if \<not> response_from_fd m st_size fd then cret (Inl (False, None))
         else
           cret (Inl (queue_response m http_ok,
             if queue_response m http_ok
             then Some \<lparr>resp_status = http_ok, resp_type = ''application/octet-stream'',
                        resp_body = FdBody st_size fd\<rparr>
             else None)))"

definition answer_get :: "mhd \<Rightarrow> string \<Rightarrow> ('h, (bool \<times> response option) + reply) nm" where
  "answer_get m url =
     (if url = ''/chunk'' then
        (case (connection_value m ''X-Filename'', connection_value m ''X-Chunk-ID'') of
           (Some filename, Some chunk_id_str) \<Rightarrow>
             cbind (atoi chunk_id_str) (\<lambda>chunk_id.
             cbind (getFileDescriptor filename chunk_id) (\<lambda>fd.
             case fd of
               None \<Rightarrow> cret (Inr (literal_reply ''{\"error\":\"404 Not Found\"}'' http_not_found))
             | Some l \<Rightarrow> send_fd m l))
         | _ \<Rightarrow>
             cret (Inr (literal_reply ''{\"error\":\"Missing X-Filename or X-Chunk-ID\"}''
               http_bad_request)))
      else cret (Inr (literal_reply ''{\"error\":\"404 Not Found\"}'' http_not_found)))"

section \<open>DELETE /remove-file\<close>

definition answer_delete :: "mhd \<Rightarrow> nat \<Rightarrow> string \<Rightarrow> ('h, reply) nm" where
  "answer_delete m depth url =
     (if url = ''/remove-file'' then
        (case connection_value m ''X-Filename'' of
           None \<Rightarrow> cret (literal_reply ''{\"error\":\"Missing X-Filename \"}'' http_bad_request)
         | Some filename \<Rightarrow>
             cbind (delete_file depth filename) (\<lambda>ok.
             if \<not> ok then cret (literal_reply ''{\"error\":\"404 Not Found\"}'' http_internal_error)
             else cret (literal_reply ''{\"message\":\"successfully deleted\"}'' http_ok)))
      else cret (literal_reply ''{\"error\":\"404 Not Found\"}'' http_not_found))"

section \<open>The handler\<close>

text \<open>\<open>strlen(page)\<close> and the copy of the page, then the end of the handler.\<close>

definition page_text :: "page \<Rightarrow> ('h heap_scheme, string) cm" where
  "page_text p = (case p of
     NoPage \<Rightarrow> cfail NullDeref
   | Literal text \<Rightarrow> cret text
   | OnHeap q \<Rightarrow> load_str q)"

definition send_reply :: "mhd \<Rightarrow> ptr \<Rightarrow> nat \<Rightarrow> reply \<Rightarrow> ('h heap_scheme, handled) cm" where
  "send_reply m con_info left r =
     cbind (page_text (page r)) (\<lambda>text.
     cbind (if should_free r then c_free (response_text r) else cret ()) (\<lambda>_.
     cret \<lparr>mhd_yes = queue_response m (status r), con_cls = con_info, upload_left = left,
           queued = (if queue_response m (status r)
             then Some \<lparr>resp_status = status r, resp_type = ''application/json'',
                        resp_body = PageBody text\<rparr>
             else None)\<rparr>))"

definition answer_to_connection ::
  "mhd \<Rightarrow> nat \<Rightarrow> string \<Rightarrow> string \<Rightarrow> byte list \<Rightarrow> ptr \<Rightarrow> ('h, handled) nm" where
  "answer_to_connection m depth url method upload_data con_info =
     (if con_info = NULL then new_connection upload_data
      else if method = ''POST'' \<and> length upload_data \<noteq> 0 then append_upload con_info upload_data
      else if method = ''POST'' then
        cbind (answer_post m url con_info) (send_reply m con_info (length upload_data))
      else if method = ''GET'' then
        cbind (answer_get m url) (\<lambda>r.
        case r of
          Inl (yes, resp) \<Rightarrow>
            cret \<lparr>mhd_yes = yes, con_cls = con_info, upload_left = length upload_data, queued = resp\<rparr>
        | Inr rep \<Rightarrow> send_reply m con_info (length upload_data) rep)
      else if method = ''DELETE'' then
        cbind (answer_delete m depth url) (send_reply m con_info (length upload_data))
      else
        send_reply m con_info (length upload_data)
          (literal_reply ''{\"error\":\"Method Not Allowed\"}'' http_not_allowed))"

definition request_completed :: "ptr \<Rightarrow> ('h heap_scheme, ptr) cm" where
  "request_completed con_info =
     (if con_info = NULL then cret NULL
      else
        cbind (read_conn con_info) (\<lambda>c.
        cbind (if conn_data c \<noteq> NULL then c_free (conn_data c) else cret ()) (\<lambda>_.
        cbind (c_free con_info) (\<lambda>_.
        cret NULL))))"

end
