(* ===== verification/Http_Requests.thy ===== *)
theory Http_Requests
  imports Http_Main
begin

text \<open>
  What the callbacks of httpServer/httpMain.c do over a whole request: the pieces of a body
  are collected in order whatever their sizes, the request's memory is given back, and each
  method has its effect on catalogue and disk.
\<close>

section \<open>The record of a connection\<close>

text \<open>
  The connection at \<open>con\<close> holds the bytes \<open>bs\<close> received so far, in the block
  \<open>d\<close> once there are any.
\<close>

definition conn_ok :: "(ptr \<Rightarrow> block option) \<Rightarrow> ptr \<Rightarrow> ptr \<Rightarrow> byte list \<Rightarrow> bool" where
  "conn_ok m con d bs \<longleftrightarrow>
     m con = Some (ConnB (Some \<lparr>conn_data = d, conn_size = length bs\<rparr>)) \<and>
     (if bs = [] then d = NULL else d \<noteq> NULL \<and> m d = Some (ByteB (map Some bs)))"

definition conn_blocks :: "ptr \<Rightarrow> ptr \<Rightarrow> ptr set" where
  "conn_blocks con d = insert con (if d = NULL then {} else {d})"

definition serving ::
  "'h StorageStateOuter_scheme \<Rightarrow> file_rec list \<Rightarrow> catalogue \<Rightarrow> ptr \<Rightarrow> ptr \<Rightarrow> byte list \<Rightarrow> ptr set \<Rightarrow> bool" where
  "serving s rs cat con d bs F \<longleftrightarrow>
     storage_rel s rs cat (conn_blocks con d \<union> F) \<and> conn_blocks con d \<inter> F = {} \<and>
     conn_ok (mem s) con d bs"

lemma servingD:
  assumes "serving s rs cat con d bs F"
  shows "storage_rel s rs cat (conn_blocks con d \<union> F)" "con \<noteq> NULL" "con \<noteq> brk s"
    "mem s con = Some (ConnB (Some \<lparr>conn_data = d, conn_size = length bs\<rparr>))"
    "bs = [] \<longleftrightarrow> d = NULL" "bs \<noteq> [] \<Longrightarrow> mem s d = Some (ByteB (map Some bs))"
    "d \<noteq> con" "d \<noteq> brk s" "con \<notin> F" "d \<notin> F"
proof -
  show rel: "storage_rel s rs cat (conn_blocks con d \<union> F)" using assms by (simp add: serving_def)
  show con: "con \<noteq> NULL" "con \<noteq> brk s"
    using storage_rel_F_old[OF rel, of con] by (simp_all add: conn_blocks_def)
  have brk: "brk s \<noteq> NULL" "mem s NULL = None" using rel heap_ok_NULL by (auto simp: storage_rel_def heap_ok_def)
  show c: "mem s con = Some (ConnB (Some \<lparr>conn_data = d, conn_size = length bs\<rparr>))"
    "bs = [] \<longleftrightarrow> d = NULL" "bs \<noteq> [] \<Longrightarrow> mem s d = Some (ByteB (map Some bs))"
    using assms by (auto simp: serving_def conn_ok_def split: if_splits)
  show "d \<noteq> con" using c con by (cases "bs = []") auto
  show "d \<noteq> brk s" using brk storage_rel_F_old[OF rel, of d] by (cases "d = NULL") (auto simp: conn_blocks_def)
  have disj: "conn_blocks con d \<inter> F = {}" using assms by (simp add: serving_def)
  then show "con \<notin> F" by (auto simp: conn_blocks_def)
  show "d \<notin> F"
  proof (cases "d = NULL")
    case True
    then show ?thesis using storage_rel_F_old(2)[OF rel, of NULL] by blast
  next
    case False
    then show ?thesis using disj by (auto simp: conn_blocks_def)
  qed
qed

lemma read_conn_ok:
  "con \<noteq> NULL \<Longrightarrow> mem s con = Some (ConnB (Some c)) \<Longrightarrow> read_conn con s = Inr (c, s)"
  by (simp add: read_conn_def cbind_def load_def)

lemma write_conn_ok:
  "con \<noteq> NULL \<Longrightarrow> mem s con = Some (ConnB c') \<Longrightarrow>
   write_conn con c s = Inr ((), s\<lparr>mem := (mem s)(con \<mapsto> ConnB (Some c))\<rparr>)"
  by (simp add: write_conn_def cbind_def load_def store_def)

lemma new_connection_run:
  assumes rel: "storage_rel s rs cat F" and mem: "\<not> oom s (brk s)"
  obtains con s' where
    "new_connection up s = Inr (\<lparr>mhd_yes = True, con_cls = con, upload_left = length up, queued = None\<rparr>, s')"
    "serving s' rs cat con NULL [] F" "hframe F s s'" "con \<noteq> NULL"
proof -
  let ?s1 = "s\<lparr>mem := (mem s)(brk s \<mapsto> ConnB None), brk := Suc (brk s)\<rparr>"
  let ?s' = "?s1\<lparr>mem := (mem ?s1)(brk s \<mapsto> ConnB (Some \<lparr>conn_data = NULL, conn_size = 0\<rparr>))\<rparr>"
  have pos: "brk s \<noteq> NULL" using rel by (simp add: storage_rel_def heap_ok_def)
  have rel': "storage_rel ?s' rs cat (insert (brk s) F)"
    by (rule storage_rel_store[OF storage_rel_alloc[OF rel]]) simp
  have w: "write_conn (brk s) \<lparr>conn_data = NULL, conn_size = 0\<rparr> ?s1 = Inr ((), ?s')"
    using pos by (intro write_conn_ok) simp_all
  have "malloc_block (ConnB None) s = Inr (brk s, ?s1)" using mem by (simp add: malloc_block_def)
  then have "new_connection up s
      = Inr (\<lparr>mhd_yes = True, con_cls = brk s, upload_left = length up, queued = None\<rparr>, ?s')"
    using w pos by (simp add: new_connection_def cbind_Inr)
  moreover have notF: "brk s \<notin> F" using storage_rel_F_old[OF rel] by blast
  then have "serving ?s' rs cat (brk s) NULL [] F" using rel' by (simp add: serving_def conn_blocks_def conn_ok_def)
  moreover have "hframe F s ?s'" using notF by (auto simp: hframe_def)
  ultimately show thesis using pos by (intro that)
qed

text \<open>A piece is appended to what is there, and no other block changes.\<close>

lemma append_upload_run:
  assumes srv: "serving s rs cat con d bs F" and up: "up \<noteq> []" and mem: "\<not> oom s (brk s)"
  obtains d' s' where
    "append_upload con up s = Inr (\<lparr>mhd_yes = True, con_cls = con, upload_left = 0, queued = None\<rparr>, s')"
    "serving s' rs cat con d' (bs @ up) F" "hframe F s s'"
proof -
  note sD = servingD[OF srv]
  let ?q = "brk s" and ?n = "length bs + length up"
  let ?old = "ByteB (map Some bs @ replicate (length up) None)"
  let ?s1 = "s\<lparr>mem := (mem s)(d := None, ?q \<mapsto> ?old), brk := Suc ?q\<rparr>"
  let ?s2 = "?s1\<lparr>mem := (mem ?s1)(con \<mapsto> ConnB (Some \<lparr>conn_data = ?q, conn_size = length bs\<rparr>))\<rparr>"
  let ?s3 = "?s2\<lparr>mem := (mem ?s2)(?q \<mapsto> ByteB (map Some (bs @ up)))\<rparr>"
  let ?s4 = "?s3\<lparr>mem := (mem ?s3)(con \<mapsto> ConnB (Some \<lparr>conn_data = ?q, conn_size = ?n\<rparr>))\<rparr>"
  have null: "mem s NULL = None" "?q \<noteq> NULL" using sD(1) heap_ok_NULL by (auto simp: storage_rel_def heap_ok_def)
  have re: "realloc_block d (ByteB []) ?n s = Inr (?q, ?s1)"
  proof (cases "bs = []")
    case True
    then have "(mem s)(NULL := None) = mem s" using null by auto
    with True show ?thesis using mem sD(5) by (simp add: realloc_block_def malloc_block_def resize_def)
  next
    case False
    then show ?thesis using mem sD(5,6) by (simp add: realloc_block_def resize_def)
  qed
  have r: "read_conn con s = Inr (\<lparr>conn_data = d, conn_size = length bs\<rparr>, s)"
    using sD(2,4) by (rule read_conn_ok)
  have w1: "write_conn con \<lparr>conn_data = ?q, conn_size = length bs\<rparr> ?s1 = Inr ((), ?s2)"
    using sD by (intro write_conn_ok) simp_all
  have cp: "copy_bytes ?q (length bs) up ?s2 = Inr ((), ?s3)"
    using sD(3) null by (simp add: copy_bytes_def cbind_def load_def store_def)
  have w2: "write_conn con \<lparr>conn_data = ?q, conn_size = ?n\<rparr> ?s3 = Inr ((), ?s4)"
    using sD by (intro write_conn_ok) simp_all
  have "append_upload con up s = Inr (\<lparr>mhd_yes = True, con_cls = con, upload_left = 0, queued = None\<rparr>, ?s4)"
    using r re w1 cp w2 null(2) by (simp add: append_upload_def cbind_def)
  moreover have rel1: "storage_rel ?s1 rs cat (insert ?q (insert con F))"
  proof (cases "d = NULL")
    case True
    then have "(mem s)(d := None) = mem s" using null by auto
    with True show ?thesis using storage_rel_alloc[OF sD(1), of ?old] by (simp add: conn_blocks_def)
  next
    case False
    have "(conn_blocks con d \<union> F) - {d} = insert con F" "d \<in> conn_blocks con d \<union> F"
      using False sD(7,10) by (auto simp: conn_blocks_def)
    then have "storage_rel (s\<lparr>mem := (mem s)(d := None)\<rparr>) rs cat (insert con F)"
      using storage_rel_free[OF sD(1)] by metis
    from storage_rel_alloc[OF this, of ?old] show ?thesis by simp
  qed
  have rel4: "storage_rel ?s4 rs cat (insert ?q (insert con F))"
    by (intro storage_rel_store[OF storage_rel_store[OF storage_rel_store[OF rel1]]]) simp_all
  have qF: "?q \<notin> F" using storage_rel_F_old[OF sD(1)] by auto
  have "serving ?s4 rs cat con ?q (bs @ up) F"
    using rel4 up sD(3,9) qF null by (simp add: serving_def conn_blocks_def conn_ok_def insert_commute)
  moreover have "hframe F s ?s4" using sD(9,10) qF by (auto simp: hframe_def)
  ultimately show thesis by (rule that)
qed

section \<open>The calls of one request\<close>

text \<open>
  libmicrohttpd's documented sequence: a first call with no \<open>con_cls\<close> when the headers
  are there, a call for each piece of the body, a last call with no data, and the
  completion callback. After \<open>MHD_NO\<close> the connection is closed.
\<close>

primrec upload_pieces ::
  "mhd \<Rightarrow> nat \<Rightarrow> string \<Rightarrow> string \<Rightarrow> byte list list \<Rightarrow> ptr \<Rightarrow> ('h, bool \<times> ptr) nm" where
  "upload_pieces m depth url method [] con = cret (True, con)"
| "upload_pieces m depth url method (p # ps) con =
     cbind (answer_to_connection m depth url method p con) (\<lambda>h.
     if mhd_yes h then upload_pieces m depth url method ps (con_cls h) else cret (False, con_cls h))"

definition serve_request ::
  "mhd \<Rightarrow> nat \<Rightarrow> string \<Rightarrow> string \<Rightarrow> byte list list \<Rightarrow> ('h, response option) nm" where
  "serve_request m depth url method pieces =
     cbind (answer_to_connection m depth url method [] NULL) (\<lambda>h0.
     if \<not> mhd_yes h0 then cbind (request_completed (con_cls h0)) (\<lambda>_. cret None)
     else
       cbind (upload_pieces m depth url method pieces (con_cls h0)) (\<lambda>(ok, con).
       if \<not> ok then cbind (request_completed con) (\<lambda>_. cret None)
       else
         cbind (answer_to_connection m depth url method [] con) (\<lambda>h.
         cbind (request_completed (con_cls h)) (\<lambda>_.
         cret (queued h)))))"

lemma upload_pieces_run:
  assumes "serving s rs cat con d bs F" "no_oom s" "\<forall>p \<in> set ps. p \<noteq> []"
  obtains d' s' where "upload_pieces m depth url ''POST'' ps con s = Inr ((True, con), s')"
    "serving s' rs cat con d' (bs @ concat ps) F" "hframe F s s'"
  using assms
proof (induction ps arbitrary: s d bs thesis)
  case Nil
  then show ?case by simp
next
  case (Cons p ps)
  have p: "p \<noteq> []" and oom: "\<not> oom s (brk s)" using Cons.prems by (simp_all add: no_oom_def)
  have con: "con \<noteq> NULL" using servingD(2)[OF Cons.prems(2)] .
  obtain d1 s1 where one: "append_upload con p s
      = Inr (\<lparr>mhd_yes = True, con_cls = con, upload_left = 0, queued = None\<rparr>, s1)"
    and srv1: "serving s1 rs cat con d1 (bs @ p) F" and fr1: "hframe F s s1"
    by (rule append_upload_run[OF Cons.prems(2) p oom])
  have mem1: "no_oom s1" using Cons.prems(3) no_oom_frame[OF fr1] by simp
  obtain d' s' where rest: "upload_pieces m depth url ''POST'' ps con s1 = Inr ((True, con), s')"
    and srv': "serving s' rs cat con d' ((bs @ p) @ concat ps) F" and fr': "hframe F s1 s'"
    using Cons.IH[OF _ srv1 mem1] Cons.prems(4) by auto
  have "answer_to_connection m depth url ''POST'' p con s
      = Inr (\<lparr>mhd_yes = True, con_cls = con, upload_left = 0, queued = None\<rparr>, s1)"
    using one p con by (simp add: answer_to_connection_def)
  then have "upload_pieces m depth url ''POST'' (p # ps) con s = Inr ((True, con), s')"
    using rest by (simp add: cbind_Inr)
  then show ?case using srv' hframe_trans[OF fr1 fr'] by (intro Cons.prems(1)) simp_all
qed

text \<open>The request's memory is given back.\<close>

lemma request_completed_run:
  assumes srv: "serving s rs cat con d bs F"
  obtains s' where "request_completed con s = Inr (NULL, s')" "storage_rel s' rs cat F" "hframe F s s'"
    "mem s' = (mem s)(d := None, con := None)"
proof -
  note sD = servingD[OF srv]
  let ?s1 = "s\<lparr>mem := (mem s)(d := None)\<rparr>"
  let ?s' = "?s1\<lparr>mem := (mem ?s1)(con := None)\<rparr>"
  have r: "read_conn con s = Inr (\<lparr>conn_data = d, conn_size = length bs\<rparr>, s)"
    using sD(2,4) by (rule read_conn_ok)
  have rel1: "storage_rel ?s1 rs cat (insert con F)"
    and f1: "(if d \<noteq> NULL then c_free d else cret ()) s = Inr ((), ?s1)"
  proof -
    have "storage_rel ?s1 rs cat (insert con F) \<and>
      (if d \<noteq> NULL then c_free d else cret ()) s = Inr ((), ?s1)"
    proof (cases "d = NULL")
      case True
      have "mem s NULL = None" using sD(1) heap_ok_NULL by (auto simp: storage_rel_def)
      then have "(mem s)(d := None) = mem s" using True by auto
      with True show ?thesis using sD(1) by (simp add: conn_blocks_def)
    next
      case False
      have "(conn_blocks con d \<union> F) - {d} = insert con F" "d \<in> conn_blocks con d \<union> F"
        using False sD(7,10) by (auto simp: conn_blocks_def)
      then have "storage_rel ?s1 rs cat (insert con F)" using storage_rel_free[OF sD(1)] by metis
      moreover have "mem s d \<noteq> None" using sD(5,6) False by auto
      ultimately show ?thesis using False by (simp add: c_free_def)
    qed
    then show "storage_rel ?s1 rs cat (insert con F)"
      "(if d \<noteq> NULL then c_free d else cret ()) s = Inr ((), ?s1)" by blast+
  qed
  have "c_free con ?s1 = Inr ((), ?s')" using sD(2,4,7) by (simp add: c_free_def)
  then have "cbind (c_free con) (\<lambda>_. cret NULL) ?s1 = Inr (NULL, ?s')" by (simp add: cbind_def)
  moreover have "request_completed con s
      = cbind (if d \<noteq> NULL then c_free d else cret ()) (\<lambda>_. cbind (c_free con) (\<lambda>_. cret NULL)) s"
    using r sD(2) by (simp add: request_completed_def cbind_Inr)
  ultimately have "request_completed con s = Inr (NULL, ?s')"
    by (simp only: cbind_def[of "if d \<noteq> NULL then c_free d else cret ()"] f1 sum.case prod.case)
  moreover have "storage_rel ?s' rs cat F"
  proof -
    have "insert con F - {con} = F" using sD(9) by blast
    with storage_rel_free[OF rel1, of con] show ?thesis by simp
  qed
  moreover have "hframe F s ?s'" using sD(9,10) by (auto simp: hframe_def)
  moreover have "mem ?s' = (mem s)(d := None, con := None)" by simp
  ultimately show thesis by (rule that)
qed

section \<open>A new chunk\<close>

lemma serving_frame:
  assumes srv: "serving s rs cat con d bs F" and rel: "storage_rel s' rs' cat' (conn_blocks con d \<union> F)"
    and fr: "\<And>p. p \<in> conn_blocks con d \<Longrightarrow> mem s' p = mem s p"
  shows "serving s' rs' cat' con d bs F"
proof -
  have "conn_ok (mem s') con d bs"
    using srv fr[of con] fr[of d] by (auto simp: serving_def conn_ok_def conn_blocks_def split: if_splits)
  with srv rel show ?thesis by (simp add: serving_def)
qed

abbreviation fresh_reply :: reply where
  "fresh_reply \<equiv> \<lparr>page = NoPage, response_text = NULL, status = http_ok, should_free = False\<rparr>"

definition page_reply :: "mhd \<Rightarrow> nat \<Rightarrow> string \<Rightarrow> response option" where
  "page_reply m code text =
     (if queue_response m code
      then Some \<lparr>resp_status = code, resp_type = ''application/json'', resp_body = PageBody text\<rparr>
      else None)"

text \<open>
  What follows a successful save: the text is made on the heap, sent and freed, and the node
  is back where the save left it.
\<close>

lemma saved_reply:
  assumes save: "saveChunkToFile (Some f) d (length bs) c s = Inr (True, s1)"
    and con: "read_conn con s = Inr (\<lparr>conn_data = d, conn_size = length bs\<rparr>, s)"
    and heap: "heap_ok s1" "\<not> oom s1 (brk s1)"
  shows "cbind (handleNewChunk con fresh_reply f c)
           (\<lambda>(ok, r). cbind (cret (if \<not> ok then r\<lparr>status := http_internal_error\<rparr> else r))
              (send_reply m con left)) s
    = Inr (\<lparr>mhd_yes = queue_response m http_ok, con_cls = con, upload_left = left,
            queued = page_reply m http_ok (snprintf 200 (new_chunk_json c (length bs)))\<rparr>,
           s1\<lparr>brk := Suc (brk s1)\<rparr>)"
proof -
  let ?q = "brk s1" and ?text = "snprintf 200 (new_chunk_json c (length bs))"
  let ?s2 = "s1\<lparr>mem := (mem s1)(?q \<mapsto> StrB ?text), brk := Suc ?q\<rparr>"
  let ?r = "\<lparr>page = OnHeap ?q, response_text = ?q, status = http_ok, should_free = True\<rparr>"
  have q: "?q \<noteq> NULL" "mem s1 ?q = None" using heap heap_ok_fresh by (auto simp: heap_ok_def)
  have "handleNewChunk con fresh_reply f c s = Inr ((True, ?r), ?s2)"
    using con save heap q by (simp add: handleNewChunk_def cbind_def malloc_block_def store_def)
  moreover have "(mem s1)(?q := None) = mem s1" using q by auto
  then have "send_reply m con left ?r ?s2
    = Inr (\<lparr>mhd_yes = queue_response m http_ok, con_cls = con, upload_left = left,
            queued = page_reply m http_ok ?text\<rparr>, s1\<lparr>brk := Suc ?q\<rparr>)"
    using q by (simp add: send_reply_def page_text_def load_str_def load_def cbind_def c_free_def page_reply_def)
  ultimately show ?thesis by (simp add: cbind_def)
qed

text \<open>The headers of an upload.\<close>

definition chunk_headers :: "mhd \<Rightarrow> string \<Rightarrow> int \<Rightarrow> bool" where
  "chunk_headers m f c \<longleftrightarrow> connection_value m ''X-Filename'' = Some f \<and>
     (\<exists>str. connection_value m ''X-Chunk-ID'' = Some str \<and> atoi_value str = c) \<and> in_int c"

lemma post_start:
  assumes rel: "storage_rel s rs cat F" and mem: "no_oom s" and ps: "\<forall>p \<in> set ps. p \<noteq> []"
  obtains con d s1 where "con \<noteq> NULL" "serving s1 rs cat con d (concat ps) F" "hframe F s s1"
    "serve_request m depth url ''POST'' ps s
      = cbind (answer_to_connection m depth url ''POST'' [] con) (\<lambda>h.
        cbind (request_completed (con_cls h)) (\<lambda>_. cret (queued h))) s1"
proof -
  have oom: "\<not> oom s (brk s)" using mem by (simp add: no_oom_def)
  obtain con s0 where new: "new_connection [] s = Inr (\<lparr>mhd_yes = True, con_cls = con,
      upload_left = length ([] :: byte list), queued = None\<rparr>, s0)"
    and srv0: "serving s0 rs cat con NULL [] F" and fr0: "hframe F s s0" and con: "con \<noteq> NULL"
    by (rule new_connection_run[OF rel oom])
  have mem0: "no_oom s0" using mem no_oom_frame[OF fr0] by simp
  obtain d s1 where up: "upload_pieces m depth url ''POST'' ps con s0 = Inr ((True, con), s1)"
    and srv1: "serving s1 rs cat con d ([] @ concat ps) F" and fr1: "hframe F s0 s1"
    by (rule upload_pieces_run[OF srv0 mem0 ps])
  have "answer_to_connection m depth url ''POST'' [] NULL s
    = Inr (\<lparr>mhd_yes = True, con_cls = con, upload_left = 0, queued = None\<rparr>, s0)"
    using new by (simp add: answer_to_connection_def)
  then have "serve_request m depth url ''POST'' ps s
      = cbind (answer_to_connection m depth url ''POST'' [] con) (\<lambda>h.
        cbind (request_completed (con_cls h)) (\<lambda>_. cret (queued h))) s1"
    using up by (simp add: serve_request_def cbind_Inr)
  then show thesis using con srv1 hframe_trans[OF fr0 fr1] by (intro that) simp_all
qed

lemma answer_post_save:
  assumes m: "chunk_headers m f c" and con: "con \<noteq> NULL"
    and r: "read_conn con s = Inr (\<lparr>conn_data = d, conn_size = n\<rparr>, s)" and d: "d \<noteq> NULL" "n > 0"
  shows "answer_to_connection m depth ''/new-chunk'' ''POST'' [] con s
    = cbind (handleNewChunk con fresh_reply f c)
        (\<lambda>(ok, r). cbind (cret (if \<not> ok then r\<lparr>status := http_internal_error\<rparr> else r))
           (send_reply m con 0)) s"
proof -
  obtain str where str: "connection_value m ''X-Filename'' = Some f"
    "connection_value m ''X-Chunk-ID'' = Some str" "atoi str s = Inr (c, s)"
    using m by (auto simp: chunk_headers_def atoi_def)
  then have "answer_post m ''/new-chunk'' con s
    = cbind (handleNewChunk con fresh_reply f c)
        (\<lambda>(ok, r). cret (if \<not> ok then r\<lparr>status := http_internal_error\<rparr> else r)) s"
    using r d by (simp add: answer_post_def cbind_Inr)
  then show ?thesis using con
    by (simp add: answer_to_connection_def cbind_def split: sum.split prod.split)
qed

lemma hframe_fs: "hframe F s t \<Longrightarrow> hframe F (s\<lparr>fs := x\<rparr>) (t\<lparr>fs := x\<rparr>)"
  by (cases s; cases t) (simp add: hframe_def)

lemma hframe_sub: "hframe A s t \<Longrightarrow> F \<subseteq> A \<Longrightarrow> hframe F s t"
  by (auto simp: hframe_def)

lemma hframe_fs_same: "hframe F (s\<lparr>fs := fs s\<rparr>) s"
  by (simp add: hframe_def)

text \<open>A save that returns \<open>True\<close> makes the whole request succeed and leave no memory behind.\<close>

lemma post_saved:
  assumes rel: "storage_rel s rs cat F" and mem: "no_oom s"
    and m: "chunk_headers m f c" and ps: "\<forall>p \<in> set ps. p \<noteq> []" "ps \<noteq> []"
    and save: "\<And>t con d. serving t rs cat con d (concat ps) F \<Longrightarrow> hframe F s t \<Longrightarrow>
      \<exists>rs' t'. saveChunkToFile (Some f) d (length (concat ps)) c t = Inr (True, t') \<and>
        storage_rel t' rs' cat' (conn_blocks con d \<union> F) \<and>
        hframe (conn_blocks con d \<union> F) (t\<lparr>fs := fs t'\<rparr>) t' \<and> Q (fs t')"
  obtains rs' s' where "serve_request m depth ''/new-chunk'' ''POST'' ps s
      = Inr (page_reply m http_ok (snprintf 200 (new_chunk_json c (length (concat ps)))), s')"
    "storage_rel s' rs' cat' F" "hframe F (s\<lparr>fs := fs s'\<rparr>) s'" "Q (fs s')"
proof -
  let ?bs = "concat ps"
  have ne: "?bs \<noteq> []" using ps by (cases ps) auto
  obtain con d s1 where con: "con \<noteq> NULL" and srv: "serving s1 rs cat con d ?bs F" and fr1: "hframe F s s1"
    and start: "serve_request m depth ''/new-chunk'' ''POST'' ps s
      = cbind (answer_to_connection m depth ''/new-chunk'' ''POST'' [] con) (\<lambda>h.
        cbind (request_completed (con_cls h)) (\<lambda>_. cret (queued h))) s1"
    by (rule post_start[OF rel mem ps(1)])
  note sD = servingD[OF srv]
  have r: "read_conn con s1 = Inr (\<lparr>conn_data = d, conn_size = length ?bs\<rparr>, s1)"
    using sD(2,4) by (rule read_conn_ok)
  obtain rs' t' where sv: "saveChunkToFile (Some f) d (length ?bs) c s1 = Inr (True, t')"
    and rel': "storage_rel t' rs' cat' (conn_blocks con d \<union> F)"
    and fr': "hframe (conn_blocks con d \<union> F) (s1\<lparr>fs := fs t'\<rparr>) t'" and Q: "Q (fs t')"
    using save[OF srv fr1] by blast
  let ?s2 = "t'\<lparr>brk := Suc (brk t')\<rparr>"
  have oom: "heap_ok t'" "\<not> oom t' (brk t')"
    using rel' mem fr1 fr' by (simp_all add: storage_rel_def hframe_def no_oom_def)
  have d: "d \<noteq> NULL" using ne sD(5) by blast
  have len: "length ?bs > 0" using ne by simp
  have ans: "answer_to_connection m depth ''/new-chunk'' ''POST'' [] con s1
    = Inr (\<lparr>mhd_yes = queue_response m http_ok, con_cls = con, upload_left = 0,
        queued = page_reply m http_ok (snprintf 200 (new_chunk_json c (length ?bs)))\<rparr>, ?s2)"
    unfolding answer_post_save[OF m con r d len] by (rule saved_reply[OF sv r oom])
  have "serving ?s2 rs' cat' con d ?bs F"
    using serving_frame[OF srv storage_rel_brk[OF rel']] fr' by (simp add: hframe_def)
  then obtain s' where fin: "request_completed con ?s2 = Inr (NULL, s')" and rel'': "storage_rel s' rs' cat' F"
    and fr'': "hframe F ?s2 s'" by (rule request_completed_run)
  have "serve_request m depth ''/new-chunk'' ''POST'' ps s
      = Inr (page_reply m http_ok (snprintf 200 (new_chunk_json c (length ?bs))), s')"
    using start ans fin by (simp add: cbind_def)
  moreover have "fs s' = fs t'" using fs_frame[OF fr''] by simp
  moreover have "hframe F (s\<lparr>fs := fs s'\<rparr>) s'"
  proof -
    have "hframe F (s\<lparr>fs := fs t'\<rparr>) (s1\<lparr>fs := fs t'\<rparr>)" using fr1 by (rule hframe_fs)
    also have "hframe F \<dots> t'" using fr' by (rule hframe_sub) simp
    also have "hframe F t' ?s2" by (simp add: hframe_def)
    also have "hframe F ?s2 s'" by (rule fr'')
    finally show ?thesis using \<open>fs s' = fs t'\<close> by simp
  qed
  ultimately show thesis using rel'' Q by (intro that[of s' rs']) simp_all
qed

section \<open>Requests\<close>

lemma new_chunk_json_fits: "in_int c \<Longrightarrow> n < 2 ^ 64 \<Longrightarrow> snprintf 200 (new_chunk_json c n) = new_chunk_json c n"
proof -
  assume c: "in_int c" and n: "n < 2 ^ 64"
  have "path_fits (replicate 494 CHR ''x'') c" using c by (intro path_fits_int) simp_all
  then have "length (show_int c) \<le> 11" by (simp add: path_fits_def)
  moreover have "length (show_nat n) \<le> 20" using n by (intro length_show_nat) simp_all
  ultimately show ?thesis by (intro snprintf_fits) (simp add: new_chunk_json_def)
qed

text \<open>What the disk must be like for the chunk to be stored.\<close>

definition chunk_free :: "fsys \<Rightarrow> string \<Rightarrow> int \<Rightarrow> bool" where
  "chunk_free s f c \<longleftrightarrow> fs_quiet s \<and> good_name f \<and> path_fits f c \<and> dirs_free s (dir_words f) \<and>
     fs_lookup s (chunk_loc s f c) = None"

lemma post_new_chunk:
  assumes rel: "storage_rel s rs cat F" and free: "\<not> locked s" and mem: "no_oom s"
    and bound: "cat_bounded cat" and has: "has = directoryHasFiles (dir_path f) (fs s)"
    and last: "has \<Longrightarrow> cat \<noteq> []" and disk: "chunk_free (fs s) f c"
    and m: "chunk_headers m f c" and ps: "\<forall>p \<in> set ps. p \<noteq> []" "ps \<noteq> []"
  obtains rs' s' where "serve_request m depth ''/new-chunk'' ''POST'' ps s
      = Inr (page_reply m http_ok (snprintf 200 (new_chunk_json c (length (concat ps)))), s')"
    "storage_rel s' rs' (cat_insert f c has cat) F" "hframe F (s\<lparr>fs := fs s'\<rparr>) s'"
    "cwd (fs s') = cwd (fs s)" "fs_quiet (fs s')"
    "\<And>k. fs_lookup (fs s') k = saved_lookup (fs s) f c (concat ps) k"
    "tree_ok (fs s) \<Longrightarrow> tree_ok (fs s')"
proof -
  let ?Q = "\<lambda>t. cwd t = cwd (fs s) \<and> fs_quiet t \<and> (tree_ok (fs s) \<longrightarrow> tree_ok t) \<and>
      (\<forall>k. fs_lookup t k = saved_lookup (fs s) f c (concat ps) k)"
  have ne: "concat ps \<noteq> []" using ps by (cases ps) auto
  have save: "\<exists>rs' t'. saveChunkToFile (Some f) d (length (concat ps)) c t = Inr (True, t') \<and>
        storage_rel t' rs' (cat_insert f c has cat) (conn_blocks con d \<union> F) \<and>
        hframe (conn_blocks con d \<union> F) (t\<lparr>fs := fs t'\<rparr>) t' \<and> ?Q (fs t')"
    if srv: "serving t rs cat con d (concat ps) F" and fr: "hframe F s t" for t con d
  proof -
    note sD = servingD[OF srv]
    have fs: "fs t = fs s" using fs_frame[OF fr] .
    have pre: "\<not> locked t" "no_oom t" "has = directoryHasFiles (dir_path f) (fs t)"
      using fr free mem has fs by (simp_all add: hframe_def no_oom_def)
    have dk: "fs_quiet (fs t)" "good_name f" "path_fits f c" "dirs_free (fs t) (dir_words f)"
      "fs_lookup (fs t) (chunk_loc (fs t) f c) = None" using disk by (simp_all add: chunk_free_def fs)
    have d: "d \<noteq> NULL" "heap.mem t d = Some (ByteB (map Some (concat ps)))" using sD(5,6) ne by blast+
    show ?thesis
      by (rule saveChunkToFile_new[OF sD(1) pre(1,2) bound pre(3) last dk d ne]) (auto simp: fs)
  qed
  show thesis
    by (rule post_saved[OF rel mem m ps save]) (auto intro: that)
qed

text \<open>A chunk whose file exists: the same answer, and neither catalogue nor disk changes.\<close>

lemma post_existing_chunk:
  assumes rel: "storage_rel s rs cat F" and mem: "no_oom s"
    and disk: "file_exists (chunk_path f c) (fs s)"
    and m: "chunk_headers m f c" and ps: "\<forall>p \<in> set ps. p \<noteq> []" "ps \<noteq> []"
  obtains rs' s' where "serve_request m depth ''/new-chunk'' ''POST'' ps s
      = Inr (page_reply m http_ok (snprintf 200 (new_chunk_json c (length (concat ps)))), s')"
    "storage_rel s' rs' cat F" "hframe F s s'" "fs s' = fs s"
proof -
  have ne: "concat ps \<noteq> []" using ps by (cases ps) auto
  have save: "\<exists>rs' t'. saveChunkToFile (Some f) d (length (concat ps)) c t = Inr (True, t') \<and>
        storage_rel t' rs' cat (conn_blocks con d \<union> F) \<and>
        hframe (conn_blocks con d \<union> F) (t\<lparr>fs := fs t'\<rparr>) t' \<and> fs t' = fs s"
    if srv: "serving t rs cat con d (concat ps) F" and fr: "hframe F s t" for t con d
  proof -
    note sD = servingD[OF srv]
    have "file_exists (chunk_path f c) (fs t)" "d \<noteq> NULL" "length (concat ps) \<noteq> 0"
      using disk fs_frame[OF fr] sD(5) ne by (simp, blast, simp)
    from saveChunkToFile_exists[OF this] show ?thesis
      using sD(1) fs_frame[OF fr] hframe_fs_same by blast
  qed
  obtain rs' s' where "serve_request m depth ''/new-chunk'' ''POST'' ps s
      = Inr (page_reply m http_ok (snprintf 200 (new_chunk_json c (length (concat ps)))), s')"
    "storage_rel s' rs' cat F" "hframe F (s\<lparr>fs := fs s'\<rparr>) s'" "fs s' = fs s"
    by (rule post_saved[OF rel mem m ps save])
  then show thesis by (intro that[of s' rs']) (simp_all add: hframe_def del: length_concat)
qed

text \<open>A request without a body, up to its last call.\<close>

lemma no_body_start:
  assumes rel: "storage_rel s rs cat F" and mem: "no_oom s"
  obtains con s1 where "con \<noteq> NULL" "serving s1 rs cat con NULL [] F" "hframe F s s1"
    "serve_request m depth url method [] s
      = cbind (answer_to_connection m depth url method [] con) (\<lambda>h.
        cbind (request_completed (con_cls h)) (\<lambda>_. cret (queued h))) s1"
proof -
  have oom: "\<not> oom s (brk s)" using mem by (simp add: no_oom_def)
  obtain con s0 where new: "new_connection [] s = Inr (\<lparr>mhd_yes = True, con_cls = con,
      upload_left = length ([] :: byte list), queued = None\<rparr>, s0)"
    and srv0: "serving s0 rs cat con NULL [] F" and fr0: "hframe F s s0" and con: "con \<noteq> NULL"
    by (rule new_connection_run[OF rel oom])
  have "answer_to_connection m depth url method [] NULL s
    = Inr (\<lparr>mhd_yes = True, con_cls = con, upload_left = 0, queued = None\<rparr>, s0)"
    using new by (simp add: answer_to_connection_def)
  then have "serve_request m depth url method [] s
      = cbind (answer_to_connection m depth url method [] con) (\<lambda>h.
        cbind (request_completed (con_cls h)) (\<lambda>_. cret (queued h))) s0"
    by (simp add: serve_request_def cbind_Inr)
  then show thesis using con srv0 fr0 by (intro that) simp_all
qed

text \<open>The last call answers, and the connection's memory is given back.\<close>

lemma no_body_finish:
  assumes srv: "serving s1 rs cat con NULL [] F" and fr: "hframe F s s1"
    and start: "serve_request m depth url method [] s
      = cbind (answer_to_connection m depth url method [] con) (\<lambda>h.
        cbind (request_completed (con_cls h)) (\<lambda>_. cret (queued h))) s1"
    and ans: "answer_to_connection m depth url method [] con s1
      = Inr (\<lparr>mhd_yes = yes, con_cls = con, upload_left = 0, queued = resp\<rparr>, s2)"
    and rel: "storage_rel s2 rs' cat' (conn_blocks con NULL \<union> F)"
    and fr2: "hframe (conn_blocks con NULL \<union> F) (s1\<lparr>fs := fs s2\<rparr>) s2"
  obtains s' where "serve_request m depth url method [] s = Inr (resp, s')" "storage_rel s' rs' cat' F"
    "hframe F (s\<lparr>fs := fs s'\<rparr>) s'" "fs s' = fs s2"
proof -
  have "serving s2 rs' cat' con NULL [] F"
    using serving_frame[OF srv rel] fr2 by (simp add: hframe_def)
  then obtain s' where fin: "request_completed con s2 = Inr (NULL, s')" and rel': "storage_rel s' rs' cat' F"
    and fr': "hframe F s2 s'" by (rule request_completed_run)
  have run: "serve_request m depth url method [] s = Inr (resp, s')"
    using start ans fin by (simp add: cbind_def)
  have fs: "fs s' = fs s2" using fs_frame[OF fr'] by simp
  have "hframe F (s\<lparr>fs := fs s2\<rparr>) (s1\<lparr>fs := fs s2\<rparr>)" using fr by (rule hframe_fs)
  also have "hframe F \<dots> s2" using fr2 by (rule hframe_sub) simp
  also have "hframe F s2 s'" by (rule fr')
  finally have "hframe F (s\<lparr>fs := fs s'\<rparr>) s'" using fs by simp
  then show thesis by (rule that[OF run rel' _ fs])
qed

text \<open>What a \<open>GET\<close> of a chunk answers, from the catalogue and the disk.\<close>

definition get_result :: "mhd \<Rightarrow> string \<Rightarrow> int \<Rightarrow> catalogue \<Rightarrow> fsys \<Rightarrow> response option" where
  "get_result m f c cat t =
     (case (if cat_has f c cat then fs_open_read (chunk_path f c) t else None) of
        None \<Rightarrow> page_reply m http_not_found ''{\"error\":\"404 Not Found\"}''
      | Some l \<Rightarrow>
          (case fs_fstat l t of
             None \<Rightarrow> page_reply m http_internal_error ''{\"error\":\"Could not stat file\"}''
           | Some n \<Rightarrow>
               if response_from_fd m n l \<and> queue_response m http_ok
               then Some \<lparr>resp_status = http_ok, resp_type = ''application/octet-stream'',
                          resp_body = FdBody n l\<rparr>
               else None))"

lemma send_literal:
  "send_reply m con left (literal_reply text code) s
    = Inr (\<lparr>mhd_yes = queue_response m code, con_cls = con, upload_left = left,
            queued = page_reply m code text\<rparr>, s)"
  by (simp add: send_reply_def literal_reply_def page_text_def page_reply_def)

lemma answer_get_run:
  assumes rel: "storage_rel s rs cat F" and free: "\<not> locked s" and m: "chunk_headers m f c"
    and con: "con \<noteq> NULL"
  obtains yes where "answer_to_connection m depth ''/chunk'' ''GET'' [] con s
    = Inr (\<lparr>mhd_yes = yes, con_cls = con, upload_left = 0, queued = get_result m f c cat (fs s)\<rparr>, s)"
proof -
  obtain str where str: "connection_value m ''X-Filename'' = Some f"
    "connection_value m ''X-Chunk-ID'' = Some str" "atoi str s = Inr (c, s)"
    using m by (auto simp: chunk_headers_def atoi_def)
  let ?fd = "if cat_has f c cat then fs_open_read (chunk_path f c) (fs s) else None"
  have fd: "getFileDescriptor f c s = Inr (?fd, s)" by (rule getFileDescriptor_run[OF rel free])
  have get: "answer_get m ''/chunk'' s
      = (case ?fd of
           None \<Rightarrow> cret (Inr (literal_reply ''{\"error\":\"404 Not Found\"}'' http_not_found)) s
         | Some l \<Rightarrow> send_fd m l s)"
    using str fd by (simp add: answer_get_def cbind_Inr split: option.split)
  have "\<exists>yes. answer_to_connection m depth ''/chunk'' ''GET'' [] con s
    = Inr (\<lparr>mhd_yes = yes, con_cls = con, upload_left = 0, queued = get_result m f c cat (fs s)\<rparr>, s)"
  proof (cases ?fd)
    case None
    then show ?thesis using get con
      by (simp add: answer_to_connection_def cbind_def send_literal get_result_def)
  next
    case (Some l)
    then show ?thesis using get con
      by (cases "fs_fstat l (fs s)")
        (auto simp: answer_to_connection_def cbind_def send_literal get_result_def send_fd_def)
  qed
  then show thesis using that by blast
qed

lemma get_chunk:
  assumes rel: "storage_rel s rs cat F" and free: "\<not> locked s" and mem: "no_oom s"
    and m: "chunk_headers m f c"
  obtains s' where "serve_request m depth ''/chunk'' ''GET'' [] s = Inr (get_result m f c cat (fs s), s')"
    "storage_rel s' rs cat F" "hframe F s s'" "fs s' = fs s"
proof -
  obtain con s1 where con: "con \<noteq> NULL" and srv: "serving s1 rs cat con NULL [] F" and fr: "hframe F s s1"
    and start: "serve_request m depth ''/chunk'' ''GET'' [] s
      = cbind (answer_to_connection m depth ''/chunk'' ''GET'' [] con) (\<lambda>h.
        cbind (request_completed (con_cls h)) (\<lambda>_. cret (queued h))) s1"
    by (rule no_body_start[OF rel mem])
  have free1: "\<not> locked s1" and fs1: "fs s1 = fs s" using free fr fs_frame[OF fr] by (simp_all add: hframe_def)
  note rel1 = servingD(1)[OF srv]
  obtain yes where ans: "answer_to_connection m depth ''/chunk'' ''GET'' [] con s1
    = Inr (\<lparr>mhd_yes = yes, con_cls = con, upload_left = 0, queued = get_result m f c cat (fs s1)\<rparr>, s1)"
    by (rule answer_get_run[OF rel1 free1 m con])
  obtain s' where "serve_request m depth ''/chunk'' ''GET'' [] s = Inr (get_result m f c cat (fs s1), s')"
    "storage_rel s' rs cat F" "hframe F (s\<lparr>fs := fs s'\<rparr>) s'" "fs s' = fs s1"
    by (rule no_body_finish[OF srv fr start ans rel1 hframe_fs_same])
  then show thesis using fs1 by (intro that[of s']) (simp_all add: hframe_def)
qed

lemma delete_request_gone:
  assumes rel: "storage_rel s rs cat F" and free: "\<not> locked s" and mem: "no_oom s"
    and m: "connection_value m ''X-Filename'' = Some f"
    and gone: "remove_directory depth (spare_fds (fs s)) (snprintf 512 (''data/'' @ f)) (fs s) = Inr (0, t)"
  obtains rs' s' where "serve_request m depth ''/remove-file'' ''DELETE'' [] s
      = Inr (page_reply m http_ok ''{\"message\":\"successfully deleted\"}'', s')"
    "storage_rel s' rs' (cat_remove f cat) F" "hframe F (s\<lparr>fs := fs s'\<rparr>) s'" "fs s' = t"
proof -
  obtain con s1 where con: "con \<noteq> NULL" and srv: "serving s1 rs cat con NULL [] F" and fr: "hframe F s s1"
    and start: "serve_request m depth ''/remove-file'' ''DELETE'' [] s
      = cbind (answer_to_connection m depth ''/remove-file'' ''DELETE'' [] con) (\<lambda>h.
        cbind (request_completed (con_cls h)) (\<lambda>_. cret (queued h))) s1"
    by (rule no_body_start[OF rel mem])
  have free1: "\<not> locked s1" and fs1: "fs s1 = fs s" using free fr fs_frame[OF fr] by (simp_all add: hframe_def)
  obtain rs' s2 where del: "delete_file depth f s1 = Inr (True, s2)"
    and rel2: "storage_rel s2 rs' (cat_remove f cat) (conn_blocks con NULL \<union> F)"
    and fs2: "fs s2 = t"
    and fr2: "hframe (conn_blocks con NULL \<union> F) (s1\<lparr>fs := fs s2\<rparr>) s2"
    by (rule delete_file_run[OF servingD(1)[OF srv] free1 gone[folded fs1]])
  have ans: "answer_to_connection m depth ''/remove-file'' ''DELETE'' [] con s1
    = Inr (\<lparr>mhd_yes = queue_response m http_ok, con_cls = con, upload_left = 0,
            queued = page_reply m http_ok ''{\"message\":\"successfully deleted\"}''\<rparr>, s2)"
    using con m del by (simp add: answer_to_connection_def answer_delete_def cbind_def send_literal)
  obtain s' where "serve_request m depth ''/remove-file'' ''DELETE'' [] s
      = Inr (page_reply m http_ok ''{\"message\":\"successfully deleted\"}'', s')"
    "storage_rel s' rs' (cat_remove f cat) F" "hframe F (s\<lparr>fs := fs s'\<rparr>) s'" "fs s' = fs s2"
    by (rule no_body_finish[OF srv fr start ans rel2 fr2])
  then show thesis using fs2 by (intro that[of s' rs']) simp_all
qed

lemma delete_request:
  assumes rel: "storage_rel s rs cat F" and free: "\<not> locked s" and mem: "no_oom s"
    and disk: "tree_ok (fs s)" "fs_quiet (fs s)" "at_dir (fs s) (dir_words f)"
    and name: "length f \<le> 506" and m: "connection_value m ''X-Filename'' = Some f"
    and room: "paths_short (fs s) (dir_words f)" "deep_enough (fs s) (dir_words f) depth (spare_fds (fs s))"
  obtains rs' s' where "serve_request m depth ''/remove-file'' ''DELETE'' [] s
      = Inr (page_reply m http_ok ''{\"message\":\"successfully deleted\"}'', s')"
    "storage_rel s' rs' (cat_remove f cat) F" "hframe F (s\<lparr>fs := fs s'\<rparr>) s'"
    "fs s' = prune (cwd (fs s) @ dir_words f) (fs s)"
proof -
  have "remove_directory depth (spare_fds (fs s)) (snprintf 512 (''data/'' @ f)) (fs s) = Inr (0, prune (cwd (fs s) @ dir_words f) (fs s))"
    using remove_directory_run[OF disk room] dir_path_words[OF name] by simp
  from delete_request_gone[OF rel free mem m this] that show thesis by blast
qed

section \<open>When things fail\<close>

lemma createDirectories_fst: "fst (createDirectories p s) = True"
  by (simp add: createDirectories_def split: option.split)

text \<open>The file that cannot be opened for writing: the save fails.\<close>

lemma saveChunkToFile_no_open:
  assumes "\<not> file_exists (chunk_path f c) (fs s)" "d \<noteq> NULL" "n \<noteq> 0"
    and "fs_open_append (chunk_path f c) (snd (createDirectories (chunk_path f c) (fs s))) = None"
  shows "saveChunkToFile (Some f) d n c s
    = Inr (False, s\<lparr>fs := snd (createDirectories (chunk_path f c) (fs s))\<rparr>)"
proof -
  obtain t where t: "createDirectories (chunk_path f c) (fs s) = (True, t)"
    using createDirectories_fst by (metis prod.collapse)
  with assms show ?thesis by (simp add: saveChunkToFile_def cbind_def write_chunk_def)
qed

text \<open>A failed save leaves \<open>page\<close> \<open>NULL\<close>, and the handler takes its length.\<close>

lemma failed_save_reply:
  assumes "saveChunkToFile (Some f) d n c s = Inr (False, s1)"
    and "read_conn con s = Inr (\<lparr>conn_data = d, conn_size = n\<rparr>, s)"
  shows "cbind (handleNewChunk con fresh_reply f c)
           (\<lambda>(ok, r). cbind (cret (if \<not> ok then r\<lparr>status := http_internal_error\<rparr> else r))
              (send_reply m con left)) s = Inl NullDeref"
  using assms by (simp add: handleNewChunk_def cbind_def send_reply_def page_text_def)

lemma post_open_fails:
  assumes rel: "storage_rel s rs cat F" and mem: "no_oom s"
    and m: "chunk_headers m f c" and ps: "\<forall>p \<in> set ps. p \<noteq> []" "ps \<noteq> []"
    and disk: "\<not> file_exists (chunk_path f c) (fs s)"
      "fs_open_append (chunk_path f c) (snd (createDirectories (chunk_path f c) (fs s))) = None"
  shows "serve_request m depth ''/new-chunk'' ''POST'' ps s = Inl NullDeref"
proof -
  let ?bs = "concat ps"
  have ne: "?bs \<noteq> []" using ps by (cases ps) auto
  obtain con d s1 where con: "con \<noteq> NULL" and srv: "serving s1 rs cat con d ?bs F" and fr1: "hframe F s s1"
    and start: "serve_request m depth ''/new-chunk'' ''POST'' ps s
      = cbind (answer_to_connection m depth ''/new-chunk'' ''POST'' [] con) (\<lambda>h.
        cbind (request_completed (con_cls h)) (\<lambda>_. cret (queued h))) s1"
    by (rule post_start[OF rel mem ps(1)])
  note sD = servingD[OF srv]
  have r: "read_conn con s1 = Inr (\<lparr>conn_data = d, conn_size = length ?bs\<rparr>, s1)"
    using sD(2,4) by (rule read_conn_ok)
  have d: "d \<noteq> NULL" using ne sD(5) by blast
  have len: "length ?bs > 0" using ne by simp
  have "length ?bs \<noteq> 0" using ne by simp
  note sv = saveChunkToFile_no_open[of f c s1, unfolded fs_frame[OF fr1], OF disk(1) d this disk(2)]
  show ?thesis unfolding start cbind_def answer_post_save[OF m con r d len]
      failed_save_reply[OF sv r, unfolded cbind_def] sum.case ..
qed

text \<open>
  A body that no longer fits into memory: the connection is closed, its record is freed,
  and the bytes received so far stay allocated with no pointer left to them.
\<close>

lemma append_upload_leak:
  assumes srv: "serving s rs cat con d bs F" and bs: "bs \<noteq> []" and oom: "oom s (brk s)"
  shows "\<exists>s'. append_upload con up s
      = Inr (\<lparr>mhd_yes = False, con_cls = NULL, upload_left = length up, queued = None\<rparr>, s') \<and>
    mem s' con = None \<and> mem s' d = Some (ByteB (map Some bs)) \<and> storage_rel s' rs cat (insert d F)"
proof -
  note sD = servingD[OF srv]
  let ?s1 = "s\<lparr>brk := Suc (brk s)\<rparr>"
  let ?s' = "?s1\<lparr>mem := (mem ?s1)(con := None)\<rparr>"
  have d: "d \<noteq> NULL" "mem s d = Some (ByteB (map Some bs))" using bs sD(5,6) by blast+
  have r: "read_conn con s = Inr (\<lparr>conn_data = d, conn_size = length bs\<rparr>, s)"
    using sD(2,4) by (rule read_conn_ok)
  have "append_upload con up s
      = Inr (\<lparr>mhd_yes = False, con_cls = NULL, upload_left = length up, queued = None\<rparr>, ?s')"
    using r d oom sD(2,4) by (simp add: append_upload_def cbind_def realloc_block_def c_free_def)
  moreover have "(conn_blocks con d \<union> F) - {con} = insert d F"
    using sD(7,9) d by (auto simp: conn_blocks_def)
  then have "storage_rel ?s' rs cat (insert d F)"
    using storage_rel_free[OF storage_rel_brk[OF sD(1)], of con] by (simp add: conn_blocks_def)
  ultimately show ?thesis using d sD(7) by simp
qed

section \<open>Reading back\<close>

lemma saved_chunk_open:
  assumes disk: "chunk_free s f c" and quiet: "fs_quiet s'" and cwd: "cwd s' = cwd s"
    and look: "\<And>k. fs_lookup s' k = saved_lookup s f c bs k"
  shows "fs_open_read (chunk_path f c) s' = Some (chunk_loc s f c)"
    and "fs_lookup s' (chunk_loc s f c) = Some (FReg bs)"
proof -
  show reg: "fs_lookup s' (chunk_loc s f c) = Some (FReg bs)" by (simp add: look saved_lookup_def)
  have path: "proper_path (chunk_words f c)" "chunk_path f c = join_slash (chunk_words f c)"
    using disk proper_chunk_words chunk_path_join by (simp_all add: chunk_free_def)
  have "is_dir s' (cwd s @ take n (chunk_words f c))" if n: "n < length (chunk_words f c)" for n
  proof -
    have le: "n \<le> length (dir_words f)" using n by (simp add: chunk_words_def)
    then have take: "take n (chunk_words f c) = take n (dir_words f)" by (simp add: chunk_words_def)
    have "length (take n (chunk_words f c)) \<noteq> length (chunk_words f c)" using n by simp
    then have ne: "cwd s @ take n (chunk_words f c) \<noteq> chunk_loc s f c"
      by (metis chunk_loc_def same_append_eq)
    show ?thesis
    proof (cases "n = 0")
      case True
      then show ?thesis using ne disk by (auto simp: look saved_lookup_def chunk_free_def dirs_free_def)
    next
      case False
      then have "\<exists>k \<le> length (dir_words f). 0 < k \<and> cwd s @ take n (chunk_words f c) = cwd s @ take k (dir_words f)"
        using le take by (intro exI[of _ n]) simp
      then show ?thesis using ne by (simp add: look saved_lookup_def)
    qed
  qed
  then have "resolve s' (chunk_path f c) = Some (chunk_loc s f c)"
    by (simp add: path(2) resolve_join[OF path(1)] cwd chunk_loc_def)
  then show "fs_open_read (chunk_path f c) s' = Some (chunk_loc s f c)"
    using quiet reg by (simp add: fs_open_read_def)
qed

lemma saved_chunk_served:
  assumes "chunk_free s f c" "fs_quiet s'" "cwd s' = cwd s"
    and "\<And>k. fs_lookup s' k = saved_lookup s f c bs k" "cat_has f c cat"
    and "response_from_fd m (length bs) (chunk_loc s f c)" "queue_response m http_ok"
  shows "get_result m f c cat s' = Some \<lparr>resp_status = http_ok, resp_type = ''application/octet-stream'',
      resp_body = FdBody (length bs) (chunk_loc s f c)\<rparr>"
  using saved_chunk_open[OF assms(1-4)] assms by (simp add: get_result_def fs_fstat_def)

lemma cat_has_append [simp]: "cat_has f c (ca @ cb) \<longleftrightarrow> cat_has f c ca \<or> cat_has f c cb"
  by (auto simp: cat_has_def)

text \<open>Which upload is listed under its own name: the first of a file, or one to the last file.\<close>

lemma cat_has_insert:
  assumes "has \<Longrightarrow> cat \<noteq> []"
  shows "cat_has g e (cat_insert f c has cat) \<longleftrightarrow>
    cat_has g e cat \<or> g = (if has then fst (last cat) else f) \<and> e = c"
proof (cases has)
  case True
  with assms obtain ca p ids where "cat = ca @ [(p, ids)]" by (metis rev_exhaust surj_pair)
  with True show ?thesis by (auto simp: cat_insert_last)
next
  case False
  then show ?thesis by (auto simp: cat_insert_new)
qed

lemma cat_has_remove_other: "g \<noteq> f \<Longrightarrow> cat_has g c cat \<Longrightarrow> cat_has g c (cat_remove f cat)"
  by (induction f cat rule: cat_remove.induct) auto

lemma cat_has_remove:
  assumes "distinct (map fst cat)"
  shows "cat_has g e (cat_remove f cat) \<longleftrightarrow> g \<noteq> f \<and> cat_has g e cat"
  using assms by (induction f cat rule: cat_remove.induct) (force simp: cat_has_def)+

text \<open>The test for an earlier chunk: some regular file stands in the file's directory.\<close>

lemma directoryHasFiles_iff:
  assumes "tree_ok s" "fs_quiet s" "good_name f" "length f \<le> 506" "dirs_free s (dir_words f)"
  shows "directoryHasFiles (dir_path f) s \<longleftrightarrow>
    at_dir s (dir_words f) \<and> (\<exists>w bs. fs_lookup s (cwd s @ dir_words f @ [w]) = Some (FReg bs))"
proof -
  let ?ws = "dir_words f"
  have path: "proper_path ?ws" "dir_path f = join_slash ?ws"
    using assms(3,4) proper_dir_words by (simp_all add: dir_path_def join_dir_words)
  have at: "at_dir s ?ws \<longleftrightarrow> (\<forall>n \<le> length ?ws. is_dir s (cwd s @ take n ?ws))"
    using path by (simp add: at_dir_def)
  show ?thesis
  proof (cases "at_dir s ?ws")
    case True
    have names: "w \<noteq> ''.'' \<and> w \<noteq> ''..''" if "w \<in> set (children s (cwd s @ ?ws))" for w
      using that assms(1) unfolding in_children by (auto simp: tree_ok_def proper_name_def)
    have reg: "d_type_reg s l w \<longleftrightarrow> (\<exists>bs. fs_lookup s (l @ [w]) = Some (FReg bs))" for l w
      by (auto simp: d_type_reg_def split: option.split fentry.split)
    have "fs_opendir (dir_path f) s = Some (cwd s @ ?ws, [''.'', ''..''] @ children s (cwd s @ ?ws))"
      using True assms(2) at_dir_path(2)[OF True] resolve_at_dir[OF True] by (simp add: fs_opendir_def path(2))
    then have "directoryHasFiles (dir_path f) s
        \<longleftrightarrow> (\<exists>w \<in> set (children s (cwd s @ ?ws)). d_type_reg s (cwd s @ ?ws) w)"
      using names by (auto simp: directoryHasFiles_def list_ex_iff)
    also have "\<dots> \<longleftrightarrow> (\<exists>w bs. fs_lookup s (cwd s @ ?ws @ [w]) = Some (FReg bs))"
      unfolding in_children[THEN eq_reflection] reg by (auto simp: Bex_def in_children)
    finally show ?thesis using True by simp
  next
    case False
    have "fs_opendir (dir_path f) s = None"
    proof (cases "resolve s (join_slash ?ws)")
      case None
      then show ?thesis by (simp add: fs_opendir_def path(2))
    next
      case (Some l)
      then have l: "l = cwd s @ ?ws" and low: "\<forall>n < length ?ws. is_dir s (cwd s @ take n ?ws)"
        by (auto simp: resolve_join[OF path(1)] split: if_splits)
      have "\<not> is_dir s l"
      proof
        assume "is_dir s l"
        with low l have "\<forall>n \<le> length ?ws. is_dir s (cwd s @ take n ?ws)" by (auto simp: le_less)
        with at False show False by simp
      qed
      with Some show ?thesis by (simp add: fs_opendir_def path(2))
    qed
    with False show ?thesis by (simp add: directoryHasFiles_def)
  qed
qed

end
