(* ===== verification/Store_Spec.thy ===== *)
theory Store_Spec
  imports Catalogue
begin

text \<open>
  The interfaces the components are used through, as locales: a component whose operations
  simulate those of an abstract state, and one whose state can be observed too. Their client
  lemmas are about whole histories of operations. Then the abstract store of chunks, and the
  catalogue of state/fileState.c as an instance.
\<close>

section \<open>Histories of operations\<close>

primrec run_all :: "('op \<Rightarrow> ('s, 'r) cm) \<Rightarrow> 'op list \<Rightarrow> ('s, 'r list) cm" where
  "run_all step [] = cret []"
| "run_all step (x # xs) = cbind (step x) (\<lambda>r. cbind (run_all step xs) (\<lambda>rs. cret (r # rs)))"

text \<open>Each operation is admissible where it comes in the history.\<close>

primrec admissible :: "('op \<Rightarrow> 'a \<Rightarrow> bool) \<Rightarrow> ('op \<Rightarrow> 'a \<Rightarrow> 'a) \<Rightarrow> 'op list \<Rightarrow> 'a \<Rightarrow> bool" where
  "admissible pre spec [] a \<longleftrightarrow> True"
| "admissible pre spec (x # xs) a \<longleftrightarrow> pre x a \<and> admissible pre spec xs (spec x a)"

locale simulation =
  fixes rel :: "'s \<Rightarrow> 'a \<Rightarrow> bool"
    and step :: "'op \<Rightarrow> ('s, 'r) cm"
    and spec :: "'op \<Rightarrow> 'a \<Rightarrow> 'a"
    and pre :: "'op \<Rightarrow> 'a \<Rightarrow> bool"
  assumes sim: "rel s a \<Longrightarrow> pre x a \<Longrightarrow> \<exists>r s'. step x s = Inr (r, s') \<and> rel s' (spec x a)"
begin

lemma run_all_refines:
  "rel s a \<Longrightarrow> admissible pre spec xs a \<Longrightarrow>
   \<exists>rs s'. run_all step xs s = Inr (rs, s') \<and> rel s' (fold spec xs a)"
proof (induction xs arbitrary: s a)
  case Nil
  then show ?case by simp
next
  case (Cons x xs)
  then obtain r s1 where one: "step x s = Inr (r, s1)" and rel1: "rel s1 (spec x a)"
    using sim by fastforce
  from Cons.IH[OF rel1] Cons.prems(2) obtain rs s' where "run_all step xs s1 = Inr (rs, s')"
    "rel s' (fold spec xs (spec x a))" by auto
  with one show ?case by (auto simp: cbind_Inr)
qed

lemma never_fails: "rel s a \<Longrightarrow> admissible pre spec xs a \<Longrightarrow> run_all step xs s \<noteq> Inl e"
  using run_all_refines by fastforce

end

locale observed = simulation +
  fixes view :: "'q \<Rightarrow> ('s, 'v) cm"
    and obs :: "'q \<Rightarrow> 'a \<Rightarrow> 'v"
    and asked :: "'q \<Rightarrow> bool"
  assumes view_law: "rel s a \<Longrightarrow> asked q \<Longrightarrow> \<exists>s'. view q s = Inr (obs q a, s') \<and> rel s' a"
begin

lemma view_after:
  assumes "rel s a" "admissible pre spec xs a" "asked q"
  shows "\<exists>s'. cbind (run_all step xs) (\<lambda>_. view q) s = Inr (obs q (fold spec xs a), s') \<and>
    rel s' (fold spec xs a)"
proof -
  obtain rs s1 where "run_all step xs s = Inr (rs, s1)" and rel1: "rel s1 (fold spec xs a)"
    using run_all_refines[OF assms(1,2)] by blast
  then show ?thesis using view_law[OF rel1 assms(3)] by (auto simp: cbind_Inr)
qed

end

section \<open>The catalogue as an instance\<close>

datatype cat_op = InsertOp string int bool | RemoveOp string

fun cat_step :: "cat_op \<Rightarrow> ('h, unit) sm" where
  "cat_step (InsertOp path c has) = insert_to_struct path c has"
| "cat_step (RemoveOp path) = remove_from_struct path"

fun cat_spec :: "cat_op \<Rightarrow> catalogue \<Rightarrow> catalogue" where
  "cat_spec (InsertOp path c has) cat = cat_insert path c has cat"
| "cat_spec (RemoveOp path) cat = cat_remove path cat"

text \<open>The counters do not overflow, and a chunk of a known file has a record to go to.\<close>

fun cat_pre :: "cat_op \<Rightarrow> catalogue \<Rightarrow> bool" where
  "cat_pre (InsertOp path c has) cat \<longleftrightarrow> cat_bounded cat \<and> (has \<longrightarrow> cat \<noteq> [])"
| "cat_pre (RemoveOp path) cat \<longleftrightarrow> True"

definition cat_rel :: "ptr set \<Rightarrow> 'h StorageStateOuter_scheme \<Rightarrow> catalogue \<Rightarrow> bool" where
  "cat_rel F s cat \<longleftrightarrow> (\<exists>rs. storage_rel s rs cat F) \<and> \<not> locked s \<and> no_oom s"

lemma cat_relI: "storage_rel s' rs cat F \<Longrightarrow> hframe F s s' \<Longrightarrow> \<not> locked s \<Longrightarrow> no_oom s \<Longrightarrow> cat_rel F s' cat"
  by (auto simp: cat_rel_def hframe_def no_oom_def)

lemma cat_step_frame:
  assumes "cat_rel F s cat" "cat_pre x cat"
  shows "\<exists>r s'. cat_step x s = Inr (r, s') \<and> cat_rel F s' (cat_spec x cat) \<and> hframe F s s'"
proof -
  obtain rs where rel: "storage_rel s rs cat F" and free: "\<not> locked s" and mem: "no_oom s"
    using assms(1) by (auto simp: cat_rel_def)
  show ?thesis
  proof (cases x)
    case (InsertOp path c has)
    then have pre: "cat_bounded cat" "has \<Longrightarrow> cat \<noteq> []" using assms(2) by auto
    obtain rs' s' where "insert_to_struct path c has s = Inr ((), s')"
      "storage_rel s' rs' (cat_insert path c has cat) F" "hframe F s s'"
      by (rule insert_to_struct_run[OF rel free mem pre])
    then show ?thesis using cat_relI free mem InsertOp by fastforce
  next
    case (RemoveOp path)
    obtain rs' s' where "remove_from_struct path s = Inr ((), s')"
      "storage_rel s' rs' (cat_remove path cat) F" "hframe F s s'"
      by (rule remove_from_struct_run[OF rel free])
    then show ?thesis using cat_relI free mem RemoveOp by fastforce
  qed
qed

lemma cat_view: "cat_rel F s cat \<Longrightarrow> \<exists>s'. print_storage_state s = Inr (cat, s') \<and> cat_rel F s' cat"
  using print_storage_state_run by (fastforce simp: cat_rel_def)

interpretation cat_store: observed "cat_rel F" cat_step cat_spec cat_pre "\<lambda>_ :: unit. print_storage_state"
    "\<lambda>_ cat. cat" "\<lambda>_. True" for F :: "ptr set"
  by unfold_locales (use cat_step_frame cat_view in blast)+

text \<open>The same histories leave the blocks that belong to others as they were.\<close>

interpretation cat_kept: simulation "\<lambda>s cat. cat_rel F s cat \<and> hframe F s0 s" cat_step cat_spec cat_pre
  for F :: "ptr set" and s0 :: "'h StorageStateOuter_scheme"
  by unfold_locales (use cat_step_frame hframe_trans in blast)

section \<open>The abstract store\<close>

type_synonym store = "string \<times> int \<Rightarrow> byte list option"

abbreviation cat_names :: "catalogue \<Rightarrow> string set" where
  "cat_names cat \<equiv> fst ` set cat"

definition spec_upload :: "string \<Rightarrow> int \<Rightarrow> byte list \<Rightarrow> catalogue \<times> store \<Rightarrow> catalogue \<times> store" where
  "spec_upload f c bs = (\<lambda>(cat, st).
     if st (f, c) \<noteq> None then (cat, st)
     else (cat_insert f c (f \<in> cat_names cat) cat, st((f, c) \<mapsto> bs)))"

definition spec_delete :: "string \<Rightarrow> catalogue \<times> store \<Rightarrow> catalogue \<times> store" where
  "spec_delete f = (\<lambda>(cat, st). (cat_remove f cat, \<lambda>k. if fst k = f then None else st k))"

text \<open>The file is new, or it is the file uploaded to last.\<close>

definition serial :: "string \<Rightarrow> catalogue \<Rightarrow> bool" where
  "serial f cat \<longleftrightarrow> f \<notin> cat_names cat \<or> f = fst (last cat)"

end
