(* ===== verification/Node_Store.thy ===== *)
theory Node_Store
  imports Http_Requests Store_Spec
begin

text \<open>
  The storage node as a store of chunks. The abstract state is the catalogue and a map from
  file and chunk id to the chunk's bytes; \<open>disk_rel\<close> says that the tree below
  \<open>data\<close> holds exactly these chunks. For flat file names each request then refines one
  operation of the store, as long as a file's chunks are uploaded without another file
  beginning in between.
\<close>

section \<open>The store on disk\<close>

definition simple_name :: "string \<Rightarrow> bool" where
  "simple_name f \<longleftrightarrow> proper_name f \<and> length f \<le> 494"

definition cat_ok :: "catalogue \<Rightarrow> bool" where
  "cat_ok cat \<longleftrightarrow> distinct (map fst cat) \<and> (\<forall>(f, ids) \<in> set cat. simple_name f \<and> ids \<noteq> [])"

definition disk_rel :: "fsys \<Rightarrow> catalogue \<Rightarrow> store \<Rightarrow> bool" where
  "disk_rel t cat st \<longleftrightarrow>
     fs_quiet t \<and> tree_ok t \<and> is_dir t (cwd t) \<and> cat_ok cat \<and>
     fs_lookup t (cwd t @ [''data'']) \<in> {None, Some FDir} \<and>
     (\<forall>f. fs_lookup t (cwd t @ [''data'', f]) = (if f \<in> cat_names cat then Some FDir else None)) \<and>
     (\<forall>f w. fs_lookup t (cwd t @ [''data'', f, w])
        = (if w = show_int (atoi_value w) then map_option FReg (st (f, atoi_value w)) else None)) \<and>
     (\<forall>f c. (st (f, c) \<noteq> None) = cat_has f c cat) \<and> (\<forall>f c. st (f, c) \<noteq> None \<longrightarrow> in_int c)"

definition node_rel :: "'h storage_node_scheme \<Rightarrow> catalogue \<Rightarrow> store \<Rightarrow> ptr set \<Rightarrow> bool" where
  "node_rel s cat st F \<longleftrightarrow>
     (\<exists>rs. storage_rel s rs cat F) \<and> \<not> locked s \<and> no_oom s \<and> disk_rel (fs s) cat st"

lemma simple_words:
  assumes "simple_name f"
  shows "dir_words f = [''data'', f]" "chunk_words f c = [''data'', f, show_int c]" "good_name f"
    "in_int c \<Longrightarrow> path_fits f c"
proof -
  have "split_slash f = [f]" using assms by (simp add: simple_name_def proper_name_def split_slash_plain)
  then show "dir_words f = [''data'', f]" "chunk_words f c = [''data'', f, show_int c]" "good_name f"
    using assms by (simp_all add: dir_words_def chunk_words_def good_name_def simple_name_def)
  show "in_int c \<Longrightarrow> path_fits f c" using assms by (simp add: simple_name_def path_fits_int)
qed

lemma take_two:
  assumes "n \<le> 2"
  shows "n = 0 \<and> take n [a, b] = [] \<or> n = 1 \<and> take n [a, b] = [a] \<or> n = 2 \<and> take n [a, b] = [a, b]"
proof -
  from assms consider "n = 0" | "n = 1" | "n = 2" by linarith
  then show ?thesis by cases simp_all
qed

lemma take_two_ex:
  "(\<exists>n \<le> length [a, b]. 0 < n \<and> k = p @ take n [a, b]) \<longleftrightarrow> k = p @ [a] \<or> k = p @ [a, b]"
proof
  assume "\<exists>n \<le> length [a, b]. 0 < n \<and> k = p @ take n [a, b]"
  then obtain n where n: "n \<le> length [a, b]" "0 < n" "k = p @ take n [a, b]" by blast
  then have n: "n \<le> 2" "0 < n" "k = p @ take n [a, b]" by simp_all
  from take_two[OF n(1), of a b] n(2,3) show "k = p @ [a] \<or> k = p @ [a, b]" by auto
next
  assume "k = p @ [a] \<or> k = p @ [a, b]"
  then show "\<exists>n \<le> length [a, b]. 0 < n \<and> k = p @ take n [a, b]"
    by (elim disjE) (rule exI[of _ 1], simp, rule exI[of _ 2], simp)
qed

lemma disk_relD:
  assumes "disk_rel t cat st"
  shows "fs_quiet t" "tree_ok t" "is_dir t (cwd t)" "cat_ok cat"
    "fs_lookup t (cwd t @ [''data'']) \<in> {None, Some FDir}"
    "fs_lookup t (cwd t @ [''data'', f]) = (if f \<in> cat_names cat then Some FDir else None)"
    "fs_lookup t (cwd t @ [''data'', f, w])
      = (if w = show_int (atoi_value w) then map_option FReg (st (f, atoi_value w)) else None)"
    "(st (f, c) \<noteq> None) = cat_has f c cat" "st (f, c) \<noteq> None \<Longrightarrow> in_int c"
proof -
  note D = assms[unfolded disk_rel_def]
  from D show "fs_quiet t" by (elim conjE)
  from D show "tree_ok t" by (elim conjE)
  from D show "is_dir t (cwd t)" by (elim conjE)
  from D show "cat_ok cat" by (elim conjE)
  from D show "fs_lookup t (cwd t @ [''data'']) \<in> {None, Some FDir}" by (elim conjE)
  from D have "\<forall>f. fs_lookup t (cwd t @ [''data'', f]) = (if f \<in> cat_names cat then Some FDir else None)"
    by (elim conjE)
  then show "fs_lookup t (cwd t @ [''data'', f]) = (if f \<in> cat_names cat then Some FDir else None)" ..
  from D have "\<forall>f w. fs_lookup t (cwd t @ [''data'', f, w])
      = (if w = show_int (atoi_value w) then map_option FReg (st (f, atoi_value w)) else None)"
    by (elim conjE)
  then show "fs_lookup t (cwd t @ [''data'', f, w])
      = (if w = show_int (atoi_value w) then map_option FReg (st (f, atoi_value w)) else None)" by (elim allE)
  from D have "\<forall>f c. (st (f, c) \<noteq> None) = cat_has f c cat" by (elim conjE)
  then show "(st (f, c) \<noteq> None) = cat_has f c cat" by (elim allE)
  from D have "\<forall>f c. st (f, c) \<noteq> None \<longrightarrow> in_int c" by (elim conjE)
  then show "st (f, c) \<noteq> None \<Longrightarrow> in_int c" by blast
qed

lemma cat_has_name: "cat_has f c cat \<Longrightarrow> f \<in> cat_names cat"
  by (force simp: cat_has_def)

lemma name_has: "cat_ok cat \<Longrightarrow> f \<in> cat_names cat \<Longrightarrow> \<exists>c. cat_has f c cat"
proof -
  assume ok: "cat_ok cat" and f: "f \<in> cat_names cat"
  then obtain ids where ids: "(f, ids) \<in> set cat" by auto
  with ok have "ids \<noteq> []" by (auto simp: cat_ok_def)
  then have "hd ids \<in> set ids" by simp
  with ids show "\<exists>c. cat_has f c cat" unfolding cat_has_def by blast
qed

text \<open>The paths of the node, on such a disk.\<close>

lemma disk_at_dir:
  assumes d: "disk_rel t cat st" and f: "f \<in> cat_names cat"
  shows "at_dir t (dir_words f)" "simple_name f"
proof -
  show s: "simple_name f" using disk_relD(4)[OF d] f by (auto simp: cat_ok_def)
  have top: "is_dir t (cwd t @ [''data'', f])" using disk_relD(6)[OF d] f by simp
  then have "is_dir t (cwd t @ [''data''])"
    using tree_ok_parent[OF disk_relD(2)[OF d], of "cwd t @ [''data'']" f] by simp
  then have "is_dir t (cwd t @ take n [''data'', f])" if "n \<le> 2" for n
    using take_two[OF that, of "''data''" f] top disk_relD(3)[OF d] by (elim disjE) simp_all
  then show "at_dir t (dir_words f)"
    using s proper_dir_words[of f] simple_words[OF s] by (simp add: at_dir_def)
qed

lemma disk_dirs_free:
  assumes d: "disk_rel t cat st" and s: "simple_name f"
  shows "dirs_free t (dir_words f)"
proof -
  have "fs_lookup t (cwd t @ take n [''data'', f]) \<in> {None, Some FDir}" if "n \<le> 2" for n
  proof -
    have "fs_lookup t (cwd t @ [''data'', f]) \<in> {None, Some FDir}" unfolding disk_relD(6)[OF d] by simp
    then show ?thesis
      using take_two[OF that, of "''data''" f] disk_relD(3,5)[OF d] by (elim disjE) simp_all
  qed
  then show ?thesis using disk_relD(3)[OF d] simple_words[OF s] by (simp add: dirs_free_def)
qed

lemma disk_chunk:
  assumes d: "disk_rel t cat st" and s: "simple_name f"
  shows "fs_lookup t (chunk_loc t f c) = map_option FReg (st (f, c))"
  using disk_relD(7)[OF d, of f "show_int c"] simple_words[OF s] by (simp add: chunk_loc_def)

text \<open>The test of the node for an earlier chunk is whether the file is listed.\<close>

lemma disk_has_files:
  assumes d: "disk_rel t cat st" and s: "simple_name f"
  shows "directoryHasFiles (dir_path f) t \<longleftrightarrow> f \<in> cat_names cat"
proof -
  have iff: "directoryHasFiles (dir_path f) t \<longleftrightarrow>
      at_dir t (dir_words f) \<and> (\<exists>w bs. fs_lookup t (cwd t @ dir_words f @ [w]) = Some (FReg bs))"
    using disk_dirs_free[OF d s] disk_relD(1,2)[OF d] simple_words[OF s] s
    by (intro directoryHasFiles_iff) (simp_all add: simple_name_def)
  show ?thesis
  proof
    assume "directoryHasFiles (dir_path f) t"
    with iff have "is_dir t (cwd t @ dir_words f)" using at_dir_path by blast
    then show "f \<in> cat_names cat"
      using disk_relD(6)[OF d, of f] simple_words[OF s] by (simp split: if_splits)
  next
    assume f: "f \<in> cat_names cat"
    obtain c where "cat_has f c cat" using name_has[OF disk_relD(4)[OF d] f] by blast
    then obtain bs where "st (f, c) = Some bs" using disk_relD(8)[OF d, of f c] by blast
    then have "fs_lookup t (cwd t @ dir_words f @ [show_int c]) = Some (FReg bs)"
      using disk_chunk[OF d s, of c] by (simp add: chunk_loc_def chunk_words_def)
    then show "directoryHasFiles (dir_path f) t" using iff disk_at_dir(1)[OF d f] by blast
  qed
qed

section \<open>Uploads\<close>

lemma disk_chunk_free:
  assumes "disk_rel t cat st" "simple_name f" "in_int c" "st (f, c) = None"
  shows "chunk_free t f c"
  using assms disk_relD(1) disk_dirs_free disk_chunk simple_words by (simp add: chunk_free_def)

lemma serial_last: "serial f cat \<Longrightarrow> f \<in> cat_names cat \<Longrightarrow> cat \<noteq> [] \<and> fst (last cat) = f"
  by (auto simp: serial_def)

lemma cat_has_serial:
  assumes "serial f cat"
  shows "cat_has g e (cat_insert f c (f \<in> cat_names cat) cat) \<longleftrightarrow> cat_has g e cat \<or> g = f \<and> e = c"
  using cat_has_insert[of "f \<in> cat_names cat" cat g e f c] serial_last[OF assms] by auto

lemma cat_names_serial:
  assumes "serial f cat"
  shows "cat_names (cat_insert f c (f \<in> cat_names cat) cat) = insert f (cat_names cat)"
proof (cases "f \<in> cat_names cat")
  case True
  with serial_last[OF assms] obtain ca ids where "cat = ca @ [(f, ids)]"
    by (metis prod.collapse append_butlast_last_id)
  with True show ?thesis by (auto simp: cat_insert_last)
qed (auto simp: cat_insert_new)

lemma cat_ok_serial:
  assumes "cat_ok cat" "serial f cat" "simple_name f"
  shows "cat_ok (cat_insert f c (f \<in> cat_names cat) cat)"
proof (cases "f \<in> cat_names cat")
  case True
  with serial_last[OF assms(2)] obtain ca ids where "cat = ca @ [(f, ids)]"
    by (metis prod.collapse append_butlast_last_id)
  with True assms show ?thesis by (auto simp: cat_insert_last cat_ok_def)
qed (use assms in \<open>auto simp: cat_insert_new cat_ok_def\<close>)

lemma disk_rel_saved:
  assumes d: "disk_rel t cat st" and s: "simple_name f" and c: "in_int c" and ser: "serial f cat"
    and new: "st (f, c) = None" and env: "cwd t' = cwd t" "fs_quiet t'" and tree: "tree_ok t'"
    and look: "\<And>k. fs_lookup t' k = saved_lookup t f c bs k"
  shows "disk_rel t' (cat_insert f c (f \<in> cat_names cat) cat) (st((f, c) \<mapsto> bs))"
proof -
  note sw = simple_words[OF s]
  have dirs: "(\<exists>n \<le> length (dir_words f). 0 < n \<and> k = cwd t @ take n (dir_words f)) \<longleftrightarrow>
      k = cwd t @ [''data''] \<or> k = cwd t @ [''data'', f]" for k
    unfolding sw by (rule take_two_ex)
  have L: "fs_lookup t' k = (if k = cwd t @ [''data'', f, show_int c] then Some (FReg bs)
      else if k = cwd t @ [''data''] \<or> k = cwd t @ [''data'', f] then Some FDir else fs_lookup t k)" for k
    unfolding look saved_lookup_def dirs chunk_loc_def sw(2) by (rule refl)
  have "fs_lookup t' (cwd t @ [''data'', g]) = (if g \<in> insert f (cat_names cat) then Some FDir else None)" for g
    using disk_relD(6)[OF d, of g] by (simp add: L)
  moreover have "fs_lookup t' (cwd t @ [''data'', g, w])
      = (if w = show_int (atoi_value w) then map_option FReg ((st((f, c) \<mapsto> bs)) (g, atoi_value w)) else None)" for g w
    using disk_relD(7)[OF d, of g w] by (auto simp: L)
  moreover have "is_dir t' (cwd t)" using disk_relD(3)[OF d] by (simp add: L)
  moreover have "((st((f, c) \<mapsto> bs)) (g, e) \<noteq> None) = cat_has g e (cat_insert f c (f \<in> cat_names cat) cat)" for g e
    unfolding cat_has_serial[OF ser] using disk_relD(8)[OF d, of g e] by auto
  moreover have "in_int e" if "(st((f, c) \<mapsto> bs)) (g, e) \<noteq> None" for g e
    using that c disk_relD(9)[OF d, of g e] by (auto split: if_splits)
  moreover have "fs_lookup t' (cwd t @ [''data'']) \<in> {None, Some FDir}" by (simp add: L)
  moreover have "cat_ok (cat_insert f c (f \<in> cat_names cat) cat)"
    by (rule cat_ok_serial[OF disk_relD(4)[OF d] ser s])
  ultimately show ?thesis
    unfolding disk_rel_def env(1) cat_names_serial[OF ser] using env(2) tree by blast
qed

lemma upload_refines:
  assumes rel: "node_rel s cat st F" and bound: "cat_bounded cat" and name: "simple_name f"
    and ser: "serial f cat" and m: "chunk_headers m f c" and ps: "\<forall>p \<in> set ps. p \<noteq> []" "ps \<noteq> []"
  shows "\<exists>s'. serve_request m depth ''/new-chunk'' ''POST'' ps s
      = Inr (page_reply m http_ok (snprintf 200 (new_chunk_json c (length (concat ps)))), s') \<and>
    (case spec_upload f c (concat ps) (cat, st) of (cat', st') \<Rightarrow> node_rel s' cat' st' F)"
proof -
  obtain rs where sr: "storage_rel s rs cat F" and free: "\<not> locked s" and mem: "no_oom s"
    and d: "disk_rel (fs s) cat st" using rel by (auto simp: node_rel_def)
  have c: "in_int c" using m by (simp add: chunk_headers_def)
  show ?thesis
  proof (cases "st (f, c)")
    case None
    have has: "(f \<in> cat_names cat) = directoryHasFiles (dir_path f) (fs s)" using disk_has_files[OF d name] by simp
    obtain rs' s' where run: "serve_request m depth ''/new-chunk'' ''POST'' ps s
        = Inr (page_reply m http_ok (snprintf 200 (new_chunk_json c (length (concat ps)))), s')"
      and sr': "storage_rel s' rs' (cat_insert f c (f \<in> cat_names cat) cat) F"
      and fr: "hframe F (s\<lparr>fs := fs s'\<rparr>) s'" and env: "cwd (fs s') = cwd (fs s)" "fs_quiet (fs s')"
      and look: "\<And>k. fs_lookup (fs s') k = saved_lookup (fs s) f c (concat ps) k"
      and tree: "tree_ok (fs s) \<Longrightarrow> tree_ok (fs s')"
      by (rule post_new_chunk[OF sr free mem bound has _ disk_chunk_free[OF d name c None] m ps])
        (use serial_last[OF ser] in auto)
    have "disk_rel (fs s') (cat_insert f c (f \<in> cat_names cat) cat) (st((f, c) \<mapsto> concat ps))"
      by (rule disk_rel_saved[OF d name c ser None env tree[OF disk_relD(2)[OF d]] look])
    then have "node_rel s' (cat_insert f c (f \<in> cat_names cat) cat) (st((f, c) \<mapsto> concat ps)) F"
      using sr' fr free mem by (auto simp: node_rel_def hframe_def no_oom_def)
    with run None show ?thesis by (auto simp: spec_upload_def)
  next
    case (Some bs)
    then have "cat_has f c cat" using disk_relD(8)[OF d, of f c] by simp
    then have "at_dir (fs s) (dir_words f)" by (rule disk_at_dir(1)[OF d cat_has_name])
    then have "\<forall>n < length (chunk_words f c). is_dir (fs s) (cwd (fs s) @ take n (chunk_words f c))"
      by (simp add: at_dir_def chunk_words_def)
    moreover have "fs_lookup (fs s) (cwd (fs s) @ chunk_words f c) \<noteq> None"
      using disk_chunk[OF d name, of c] Some by (simp add: chunk_loc_def)
    ultimately have ex: "file_exists (chunk_path f c) (fs s)"
      using proper_chunk_words[OF simple_words(3)[OF name], of c] chunk_path_join[OF simple_words(4)[OF name c]]
      by (simp add: file_exists_join[OF disk_relD(1)[OF d]])
    obtain rs' s' where "serve_request m depth ''/new-chunk'' ''POST'' ps s
        = Inr (page_reply m http_ok (snprintf 200 (new_chunk_json c (length (concat ps)))), s')"
      "storage_rel s' rs' cat F" "hframe F s s'" "fs s' = fs s"
      by (rule post_existing_chunk[OF sr mem ex m ps])
    then show ?thesis using d free mem Some by (auto simp: spec_upload_def node_rel_def hframe_def no_oom_def)
  qed
qed

section \<open>Downloads and deletions\<close>

text \<open>The chunk's bytes for a stored chunk, and 404 for any other.\<close>

lemma disk_get_result:
  assumes d: "disk_rel t cat st"
  shows "st (f, c) = None \<Longrightarrow> get_result m f c cat t = page_reply m http_not_found ''{\"error\":\"404 Not Found\"}''"
    and "st (f, c) = Some bs \<Longrightarrow> response_from_fd m (length bs) (chunk_loc t f c) \<Longrightarrow> queue_response m http_ok \<Longrightarrow>
      get_result m f c cat t = Some \<lparr>resp_status = http_ok, resp_type = ''application/octet-stream'',
        resp_body = FdBody (length bs) (chunk_loc t f c)\<rparr>"
proof -
  note has = disk_relD(8)[OF d, of f c]
  show "get_result m f c cat t = page_reply m http_not_found ''{\"error\":\"404 Not Found\"}''" if "st (f, c) = None"
  proof -
    from that has have "\<not> cat_has f c cat" by simp
    then show ?thesis by (simp add: get_result_def)
  qed
  assume st: "st (f, c) = Some bs" and mhd: "response_from_fd m (length bs) (chunk_loc t f c)" "queue_response m http_ok"
  then have h: "cat_has f c cat" and c: "in_int c" using has disk_relD(9)[OF d, of f c] by simp_all
  note at = disk_at_dir[OF d cat_has_name[OF h]]
  have chunk: "fs_lookup t (chunk_loc t f c) = Some (FReg bs)" using disk_chunk[OF d at(2), of c] st by simp
  have "\<forall>n < length (chunk_words f c). is_dir t (cwd t @ take n (chunk_words f c))"
    using at(1) by (simp add: at_dir_def chunk_words_def)
  then have "resolve t (chunk_path f c) = Some (chunk_loc t f c)"
    using proper_chunk_words[OF simple_words(3)[OF at(2)], of c] chunk_path_join[OF simple_words(4)[OF at(2) c]]
    by (simp add: resolve_join chunk_loc_def)
  then have "fs_open_read (chunk_path f c) t = Some (chunk_loc t f c)"
    using disk_relD(1)[OF d] chunk by (simp add: fs_open_read_def)
  moreover have "fs_fstat (chunk_loc t f c) t = Some (length bs)"
    using disk_relD(1)[OF d] chunk by (simp add: fs_fstat_def)
  ultimately show "get_result m f c cat t = Some \<lparr>resp_status = http_ok, resp_type = ''application/octet-stream'',
        resp_body = FdBody (length bs) (chunk_loc t f c)\<rparr>"
    using h mhd by (simp add: get_result_def)
qed

lemma disk_room:
  assumes d: "disk_rel t cat st" and s: "simple_name f"
  shows "paths_short t (dir_words f)" "2 \<le> depth \<Longrightarrow> deep_enough t (dir_words f) depth (spare_fds t)"
proof -
  note sw = simple_words[OF s]
  have shape: "vs = [] \<or> (\<exists>c. vs = [show_int c] \<and> in_int c)"
    if l: "fs_lookup t (cwd t @ dir_words f @ vs) \<noteq> None" for vs
  proof (cases vs)
    case (Cons w us)
    have l1: "fs_lookup t ((cwd t @ [''data'', f]) @ w # us) \<noteq> None" using l Cons by (simp add: sw)
    show ?thesis
    proof (cases us)
      case Nil
      then have e: "fs_lookup t (cwd t @ [''data'', f, w]) \<noteq> None" using l1 by simp
      then have w: "w = show_int (atoi_value w)" and st: "st (f, atoi_value w) \<noteq> None"
        unfolding disk_relD(7)[OF d] by (auto split: if_splits)
      then show ?thesis using Cons Nil disk_relD(9)[OF d st] by blast
    next
      case (Cons v ws)
      have "is_dir t ((cwd t @ [''data'', f]) @ [w])"
        using tree_ok_above[OF disk_relD(2)[OF d], of "(cwd t @ [''data'', f]) @ [w]" v ws] l1 Cons by simp
      then have "fs_lookup t (cwd t @ [''data'', f, w]) = Some FDir" by simp
      then show ?thesis unfolding disk_relD(7)[OF d] by (auto split: if_splits)
    qed
  qed simp
  have "length (join_slash (dir_words f @ vs)) < 1024" if "fs_lookup t (cwd t @ dir_words f @ vs) \<noteq> None" for vs
    using shape[OF that]
  proof (elim disjE exE conjE)
    assume "vs = []"
    then show ?thesis using s join_dir_words[of f] by (simp add: simple_name_def)
  next
    fix c
    assume "vs = [show_int c]" "in_int c"
    then show ?thesis using sw(4)[of c] join_chunk_words[of f c] by (simp add: chunk_words_def path_fits_def)
  qed
  then show "paths_short t (dir_words f)" by (simp add: paths_short_def)
  show "deep_enough t (dir_words f) depth (spare_fds t)" if "2 \<le> depth"
    unfolding deep_enough_def
  proof (intro conjI allI impI)
    show "length vs < depth" if "fs_lookup t (cwd t @ dir_words f @ vs) \<noteq> None" for vs
      using shape[OF that] \<open>2 \<le> depth\<close> by auto
    show "length vs < spare_fds t" if dir: "is_dir t (cwd t @ dir_words f @ vs)" for vs
    proof -
      have "vs = []"
      proof (rule ccontr)
        assume "vs \<noteq> []"
        then obtain w where "vs = [w]" using shape[of vs] dir by auto
        then show False using dir disk_relD(7)[OF d, of f w] by (auto simp: sw split: if_splits option.splits)
      qed
      then show ?thesis using fs_quietD(3)[OF disk_relD(1)[OF d]] by simp
    qed
  qed
qed

lemma cat_remove_filter:
  "distinct (map fst cat) \<Longrightarrow> cat_remove f cat = filter (\<lambda>e. fst e \<noteq> f) cat"
proof (induction cat)
  case Nil
  then show ?case by simp
next
  case (Cons e cat)
  obtain p ids where e: "e = (p, ids)" by (cases e)
  have "filter (\<lambda>e. fst e \<noteq> p) cat = cat" using Cons.prems e by (auto simp: filter_id_conv)
  then show ?case using Cons e by auto
qed

lemma disk_rel_deleted:
  assumes d: "disk_rel t cat st" and s: "simple_name f"
  shows "disk_rel (prune (cwd t @ dir_words f) t) (cat_remove f cat) (\<lambda>k. if fst k = f then None else st k)"
proof -
  let ?t = "prune (cwd t @ dir_words f) t" and ?st = "\<lambda>k. if fst k = f then None else st k"
  note sw = simple_words[OF s]
  have dist: "distinct (map fst cat)" using disk_relD(4)[OF d] by (simp add: cat_ok_def)
  note fil = cat_remove_filter[OF dist, of f]
  have names: "cat_names (cat_remove f cat) = cat_names cat - {f}"
    and dist': "distinct (map fst (cat_remove f cat))" and sub: "set (cat_remove f cat) \<subseteq> set cat"
    using dist unfolding fil by (auto simp: distinct_map_filter)
  have pre: "prefix (cwd t @ dir_words f) (cwd t @ ''data'' # k) \<longleftrightarrow> (\<exists>r. k = f # r)" for k
    unfolding sw by (auto simp: prefix_def)
  have "fs_lookup ?t (cwd t @ [''data'', g]) = (if g \<in> cat_names (cat_remove f cat) then Some FDir else None)" for g
    unfolding fs_lookup_prune pre names disk_relD(6)[OF d] by simp
  moreover have "fs_lookup ?t (cwd t @ [''data'', g, w])
      = (if w = show_int (atoi_value w) then map_option FReg (?st (g, atoi_value w)) else None)" for g w
    unfolding fs_lookup_prune pre disk_relD(7)[OF d] by simp
  moreover have "is_dir ?t (cwd t)"
    using disk_relD(3)[OF d] sw by (simp add: fs_lookup_prune prefix_def)
  moreover have "fs_lookup ?t (cwd t @ [''data'']) \<in> {None, Some FDir}"
    unfolding fs_lookup_prune pre using disk_relD(5)[OF d] by simp
  moreover have "(?st (g, e) \<noteq> None) = cat_has g e (cat_remove f cat)" for g e
    unfolding cat_has_remove[OF dist] using disk_relD(8)[OF d, of g e] by auto
  moreover have "in_int e" if "?st (g, e) \<noteq> None" for g e
    using that disk_relD(9)[OF d, of g e] by (auto split: if_splits)
  moreover have "cat_ok (cat_remove f cat)" using disk_relD(4)[OF d] dist' sub by (auto simp: cat_ok_def)
  ultimately show ?thesis
    unfolding disk_rel_def prune_env using tree_ok_prune[OF disk_relD(2)[OF d]] disk_relD(1)[OF d] by simp
qed

section \<open>The node as an instance\<close>

lemma delete_missing_request:
  assumes rel: "storage_rel s rs cat F" and mem: "no_oom s"
    and m: "connection_value m ''X-Filename'' = Some f"
    and gone: "fs_opendir (snprintf 512 (''data/'' @ f)) (fs s) = None" and depth: "0 < depth"
  obtains s' where "serve_request m depth ''/remove-file'' ''DELETE'' [] s
      = Inr (page_reply m http_internal_error ''{\"error\":\"404 Not Found\"}'', s')"
    "storage_rel s' rs cat F" "hframe F s s'" "fs s' = fs s"
proof -
  obtain con s1 where con: "con \<noteq> NULL" and srv: "serving s1 rs cat con NULL [] F" and fr: "hframe F s s1"
    and start: "serve_request m depth ''/remove-file'' ''DELETE'' [] s
      = cbind (answer_to_connection m depth ''/remove-file'' ''DELETE'' [] con) (\<lambda>h.
        cbind (request_completed (con_cls h)) (\<lambda>_. cret (queued h))) s1"
    by (rule no_body_start[OF rel mem])
  obtain k where k: "depth = Suc k" using depth by (cases depth) auto
  have "delete_file depth f s1 = Inr (False, s1)"
    unfolding k using gone fs_frame[OF fr] by (intro delete_file_missing) simp
  then have ans: "answer_to_connection m depth ''/remove-file'' ''DELETE'' [] con s1
    = Inr (\<lparr>mhd_yes = queue_response m http_internal_error, con_cls = con, upload_left = 0,
            queued = page_reply m http_internal_error ''{\"error\":\"404 Not Found\"}''\<rparr>, s1)"
    using con m by (simp add: answer_to_connection_def answer_delete_def cbind_def send_literal)
  obtain s' where "serve_request m depth ''/remove-file'' ''DELETE'' [] s
      = Inr (page_reply m http_internal_error ''{\"error\":\"404 Not Found\"}'', s')"
    "storage_rel s' rs cat F" "hframe F (s\<lparr>fs := fs s'\<rparr>) s'" "fs s' = fs s1"
    by (rule no_body_finish[OF srv fr start ans servingD(1)[OF srv] hframe_fs_same])
  then show thesis using fs_frame[OF fr] by (intro that[of s']) (simp_all add: hframe_def)
qed

lemma disk_no_dir:
  assumes d: "disk_rel t cat st" and s: "simple_name f" and f: "f \<notin> cat_names cat"
  shows "fs_opendir (snprintf 512 (''data/'' @ f)) t = None"
proof -
  have "snprintf 512 (''data/'' @ f) = join_slash (dir_words f)"
    using s by (intro dir_path_words) (simp add: simple_name_def)
  moreover have "fs_lookup t (cwd t @ dir_words f) = None"
    using disk_relD(6)[OF d, of f] f simple_words[OF s] by simp
  ultimately show ?thesis
    using proper_dir_words[OF simple_words(3)[OF s]] by (simp add: fs_opendir_def resolve_join)
qed

text \<open>A deletion: the file, all its chunks and nothing else; an unknown file is an error page.\<close>

lemma delete_refines:
  assumes rel: "node_rel s cat st F" and name: "simple_name f" and depth: "2 \<le> depth"
    and m: "connection_value m ''X-Filename'' = Some f"
  shows "\<exists>s'. serve_request m depth ''/remove-file'' ''DELETE'' [] s
      = Inr (if f \<in> cat_names cat then page_reply m http_ok ''{\"message\":\"successfully deleted\"}''
             else page_reply m http_internal_error ''{\"error\":\"404 Not Found\"}'', s') \<and>
    (case spec_delete f (cat, st) of (cat', st') \<Rightarrow> node_rel s' cat' st' F)"
proof -
  obtain rs where sr: "storage_rel s rs cat F" and free: "\<not> locked s" and mem: "no_oom s"
    and d: "disk_rel (fs s) cat st" using rel by (auto simp: node_rel_def)
  let ?st = "\<lambda>k. if fst k = f then None else st k"
  show ?thesis
  proof (cases "f \<in> cat_names cat")
    case True
    have len: "length f \<le> 506" using name by (simp add: simple_name_def)
    obtain rs' s' where run: "serve_request m depth ''/remove-file'' ''DELETE'' [] s
        = Inr (page_reply m http_ok ''{\"message\":\"successfully deleted\"}'', s')"
      and sr': "storage_rel s' rs' (cat_remove f cat) F" and fr: "hframe F (s\<lparr>fs := fs s'\<rparr>) s'"
      and fs': "fs s' = prune (cwd (fs s) @ dir_words f) (fs s)"
      by (rule delete_request[OF sr free mem disk_relD(2)[OF d] disk_relD(1)[OF d] disk_at_dir(1)[OF d True]
            len m disk_room(1)[OF d name] disk_room(2)[OF d name depth]])
    have "node_rel s' (cat_remove f cat) ?st F"
      using sr' fr free mem disk_rel_deleted[OF d name] unfolding fs'[symmetric]
      by (auto simp: node_rel_def hframe_def no_oom_def)
    with run True show ?thesis by (auto simp: spec_delete_def)
  next
    case False
    have "0 < depth" using depth by simp
    then obtain s' where run: "serve_request m depth ''/remove-file'' ''DELETE'' [] s
        = Inr (page_reply m http_internal_error ''{\"error\":\"404 Not Found\"}'', s')"
      and sr': "storage_rel s' rs cat F" and fr: "hframe F s s'" and fs': "fs s' = fs s"
      by (rule delete_missing_request[OF sr mem m disk_no_dir[OF d name False]])
    have "st k = None" if "fst k = f" for k
      using that False disk_relD(8)[OF d, of f "snd k"] cat_has_name[of f "snd k" cat] by (cases k) auto
    then have "?st = st" by auto
    moreover have "cat_remove f cat = cat" using False by (rule cat_remove_absent)
    moreover have "node_rel s' cat st F"
      using sr' fr free mem d fs' by (auto simp: node_rel_def hframe_def no_oom_def)
    ultimately show ?thesis using run False by (simp add: spec_delete_def)
  qed
qed

text \<open>The bytes a client gets for a chunk: the body of the answer to its \<open>GET\<close>.\<close>

definition with_headers :: "mhd \<Rightarrow> string \<Rightarrow> int \<Rightarrow> mhd" where
  "with_headers m f c = m\<lparr>connection_value := [''X-Filename'' \<mapsto> f, ''X-Chunk-ID'' \<mapsto> show_int c]\<rparr>"

definition body_bytes :: "fsys \<Rightarrow> response option \<Rightarrow> byte list option" where
  "body_bytes t resp =
     (case resp of
        None \<Rightarrow> None
      | Some r \<Rightarrow>
          (case resp_body r of
             PageBody _ \<Rightarrow> None
           | FdBody n l \<Rightarrow> (case fs_lookup t l of Some (FReg bs) \<Rightarrow> Some (take n bs) | _ \<Rightarrow> None)))"

definition fetch :: "mhd \<Rightarrow> nat \<Rightarrow> string \<times> int \<Rightarrow> ('h, byte list option) nm" where
  "fetch m depth k =
     cbind (serve_request (with_headers m (fst k) (snd k)) depth ''/chunk'' ''GET'' []) (\<lambda>resp.
     cget (\<lambda>s. body_bytes (fs s) resp))"

lemma with_headers [simp]:
  "in_int c \<Longrightarrow> chunk_headers (with_headers m f c) f c"
  "connection_value (with_headers m f c) ''X-Filename'' = Some f"
  "response_from_fd (with_headers m f c) = response_from_fd m"
  "queue_response (with_headers m f c) = queue_response m"
  by (simp_all add: chunk_headers_def with_headers_def)

text \<open>The library answers every descriptor and queues every file.\<close>

definition mhd_serves :: "mhd \<Rightarrow> bool" where
  "mhd_serves m \<longleftrightarrow> (\<forall>n l. response_from_fd m n l) \<and> queue_response m http_ok"

lemma fetch_refines:
  assumes rel: "node_rel s cat st F" and m: "mhd_serves m" and c: "in_int c"
  shows "\<exists>s'. fetch m depth (f, c) s = Inr (st (f, c), s') \<and> node_rel s' cat st F"
proof -
  obtain rs where sr: "storage_rel s rs cat F" and free: "\<not> locked s" and mem: "no_oom s"
    and d: "disk_rel (fs s) cat st" using rel by (auto simp: node_rel_def)
  let ?m = "with_headers m f c"
  obtain s' where run: "serve_request ?m depth ''/chunk'' ''GET'' [] s = Inr (get_result ?m f c cat (fs s), s')"
    and sr': "storage_rel s' rs cat F" and fr: "hframe F s s'" and fs': "fs s' = fs s"
    by (rule get_chunk[OF sr free mem with_headers(1)[OF c]])
  have "body_bytes (fs s) (get_result ?m f c cat (fs s)) = st (f, c)"
  proof (cases "st (f, c)")
    case None
    then show ?thesis using disk_get_result(1)[OF d, of f c ?m] by (simp add: page_reply_def body_bytes_def)
  next
    case (Some bs)
    then have "cat_has f c cat" using disk_relD(8)[OF d, of f c] by simp
    then have "simple_name f" by (rule disk_at_dir(2)[OF d cat_has_name])
    then have "fs_lookup (fs s) (chunk_loc (fs s) f c) = Some (FReg bs)" using disk_chunk[OF d, of f c] Some by simp
    then show ?thesis using disk_get_result(2)[OF d Some, of ?m] m Some by (simp add: mhd_serves_def body_bytes_def)
  qed
  moreover have "node_rel s' cat st F"
    using sr' fr free mem d fs' by (auto simp: node_rel_def hframe_def no_oom_def)
  ultimately show ?thesis using run fs' by (auto simp: fetch_def cbind_Inr)
qed

datatype node_op = UploadOp string int "byte list list" | DeleteOp string

fun node_step :: "mhd \<Rightarrow> nat \<Rightarrow> node_op \<Rightarrow> ('h, response option) nm" where
  "node_step m depth (UploadOp f c ps) = serve_request (with_headers m f c) depth ''/new-chunk'' ''POST'' ps"
| "node_step m depth (DeleteOp f) = serve_request (with_headers m f 0) depth ''/remove-file'' ''DELETE'' []"

fun node_spec :: "node_op \<Rightarrow> catalogue \<times> store \<Rightarrow> catalogue \<times> store" where
  "node_spec (UploadOp f c ps) a = spec_upload f c (concat ps) a"
| "node_spec (DeleteOp f) a = spec_delete f a"

fun node_pre :: "node_op \<Rightarrow> catalogue \<times> store \<Rightarrow> bool" where
  "node_pre (UploadOp f c ps) (cat, st) \<longleftrightarrow>
     cat_bounded cat \<and> simple_name f \<and> in_int c \<and> serial f cat \<and> ps \<noteq> [] \<and> (\<forall>p \<in> set ps. p \<noteq> [])"
| "node_pre (DeleteOp f) (cat, st) \<longleftrightarrow> simple_name f"

definition node_srel ::
  "mhd \<Rightarrow> nat \<Rightarrow> ptr set \<Rightarrow> 'h storage_node_scheme \<Rightarrow> catalogue \<times> store \<Rightarrow> bool" where
  "node_srel m depth F s = (\<lambda>(cat, st). node_rel s cat st F \<and> mhd_serves m \<and> 2 \<le> depth)"

lemma node_step_refines:
  assumes "node_srel m depth F s a" "node_pre x a"
  shows "\<exists>r s'. node_step m depth x s = Inr (r, s') \<and> node_srel m depth F s' (node_spec x a)"
proof -
  obtain cat st where a: "a = (cat, st)" by (cases a)
  with assms(1) have rel: "node_rel s cat st F" and env: "mhd_serves m" "2 \<le> depth"
    by (simp_all add: node_srel_def)
  show ?thesis
  proof (cases x)
    case (UploadOp f c ps)
    then show ?thesis
      using upload_refines[OF rel _ _ _ with_headers(1), of f c ps m depth] assms(2) env a
      by (fastforce simp: node_srel_def)
  next
    case (DeleteOp f)
    then show ?thesis
      using delete_refines[OF rel _ env(2) with_headers(2), of f m 0] assms(2) env a
      by (fastforce simp: node_srel_def)
  qed
qed

lemma node_view:
  assumes "node_srel m depth F s a" "in_int (snd k)"
  shows "\<exists>s'. fetch m depth k s = Inr (snd a k, s') \<and> node_srel m depth F s' a"
  using fetch_refines[of s "fst a" "snd a" F m "snd k" depth "fst k"] assms
  by (auto simp: node_srel_def split: prod.splits)

interpretation node_store: observed "node_srel m depth F" "node_step m depth" node_spec node_pre
    "fetch m depth" "\<lambda>k a. snd a k" "\<lambda>k. in_int (snd k)" for m depth F
  by unfold_locales (use node_step_refines node_view in blast)+

section \<open>Interleaved uploads\<close>

text \<open>
  Two files whose chunks arrive in turn: the chunk is stored and acknowledged, its id goes to
  the record of the other file, and the chunk cannot be fetched.
\<close>

lemma interleaved_upload:
  assumes rel: "node_rel s cat st F" and bound: "cat_bounded cat" and name: "simple_name f"
    and other: "f \<in> cat_names cat" "f \<noteq> fst (last cat)" and new: "st (f, c) = None"
    and m: "chunk_headers m f c" and ps: "\<forall>p \<in> set ps. p \<noteq> []" "ps \<noteq> []"
  shows "\<exists>s1 s2. serve_request m depth ''/new-chunk'' ''POST'' ps s
      = Inr (page_reply m http_ok (snprintf 200 (new_chunk_json c (length (concat ps)))), s1) \<and>
    fs_lookup (fs s1) (chunk_loc (fs s) f c) = Some (FReg (concat ps)) \<and>
    serve_request m depth ''/chunk'' ''GET'' [] s1
      = Inr (page_reply m http_not_found ''{\"error\":\"404 Not Found\"}'', s2)"
proof -
  obtain rs where sr: "storage_rel s rs cat F" and free: "\<not> locked s" and mem: "no_oom s"
    and d: "disk_rel (fs s) cat st" using rel by (auto simp: node_rel_def)
  have c: "in_int c" using m by (simp add: chunk_headers_def)
  have has: "True = directoryHasFiles (dir_path f) (fs s)" using disk_has_files[OF d name] other by simp
  have ne: "cat \<noteq> []" using other by auto
  obtain rs1 s1 where post: "serve_request m depth ''/new-chunk'' ''POST'' ps s
      = Inr (page_reply m http_ok (snprintf 200 (new_chunk_json c (length (concat ps)))), s1)"
    and sr1: "storage_rel s1 rs1 (cat_insert f c True cat) F" and fr: "hframe F (s\<lparr>fs := fs s1\<rparr>) s1"
    and look: "\<And>k. fs_lookup (fs s1) k = saved_lookup (fs s) f c (concat ps) k"
    by (rule post_new_chunk[where depth = depth, OF sr free mem bound has ne disk_chunk_free[OF d name c new] m ps])
      (rule that; assumption)
  have pre: "\<not> locked s1" "no_oom s1" using fr free mem by (simp_all add: hframe_def no_oom_def)
  obtain s2 where get: "serve_request m depth ''/chunk'' ''GET'' [] s1
      = Inr (get_result m f c (cat_insert f c True cat) (fs s1), s2)"
    by (rule get_chunk[where depth = depth, OF sr1 pre m]) (rule that; assumption)
  have "\<not> cat_has f c cat" using new disk_relD(8)[OF d, of f c] by simp
  then have "\<not> cat_has f c (cat_insert f c True cat)"
    using cat_has_insert[of True cat f c f c] ne other(2) by simp
  then have "get_result m f c (cat_insert f c True cat) (fs s1)
      = page_reply m http_not_found ''{\"error\":\"404 Not Found\"}''" by (simp add: get_result_def)
  moreover have "fs_lookup (fs s1) (chunk_loc (fs s) f c) = Some (FReg (concat ps))"
    by (simp add: look saved_lookup_def)
  ultimately show ?thesis using post get by auto
qed

end
