(* ===== verification/Failures.thy ===== *)
theory Failures
  imports Node_Store
begin

text \<open>
  The branches of the storage node that do not end well: allocations that fail inside an
  insertion, a node restarted over existing data, and requests that are refused.
\<close>

section \<open>Insertions\<close>

text \<open>A later chunk of a file when nothing is listed: the record before the first is taken.\<close>

lemma insert_into_empty:
  assumes rel: "storage_rel s [] [] F" and free: "\<not> locked s"
  shows "insert_to_struct f c True s = Inl NullDeref"
proof -
  have "file_to_chunk_state s = NULL" using rel by (simp add: storage_rel_def base_ok_def)
  then show ?thesis using free
    by (simp add: insert_to_struct_def cbind_def mutex_lock_def push_chunk_id_def read_rec_def load_recs_def load_def)
qed

text \<open>The array cannot be enlarged: its only pointer is overwritten with \<open>NULL\<close>, and used.\<close>

lemma insert_array_oom:
  assumes rel: "storage_rel s rs cat F" and free: "\<not> locked s" and oom: "oom s (brk s)"
    and bound: "int (length cat) < int_max"
  shows "insert_to_struct f c False s = Inl NullDeref"
proof -
  have n: "num_file_count s < int_max" using rel bound by (simp add: storage_rel_def)
  have base: "file_to_chunk_state s = NULL \<or> mem s (file_to_chunk_state s) \<noteq> None"
    using rel by (auto simp: storage_rel_def base_ok_def split: if_splits)
  have "realloc_block (file_to_chunk_state s) (RecB []) k (s\<lparr>locked := True\<rparr>)
      = Inr (NULL, s\<lparr>locked := True, brk := Suc (brk s)\<rparr>)" for k
    using base oom by (auto simp: realloc_block_def malloc_block_def)
  moreover have "\<exists>q t. strdup f (s\<lparr>locked := True, brk := Suc (brk s), file_to_chunk_state := NULL\<rparr>) = Inr (q, t)"
    by (auto simp: strdup_def malloc_block_def)
  ultimately show ?thesis using free n
    by (auto simp: insert_to_struct_def new_file_slot_def cbind_def mutex_lock_def int_succ_def write_rec_def
        load_recs_def load_def)
qed

text \<open>The ids cannot be enlarged: the insertion returns, and the id is nowhere.\<close>

lemma insert_id_oom:
  assumes rel: "storage_rel s rs cat F" and free: "\<not> locked s" and oom: "oom s (brk s)"
    and bound: "cat_bounded cat" and ne: "cat \<noteq> []"
  obtains rs' s' where "insert_to_struct f c True s = Inr ((), s')" "storage_rel s' rs' cat F" "hframe F s s'"
proof -
  obtain ca p ids where cat: "cat = ca @ [(p, ids)]" using ne by (metis rev_exhaust surj_pair)
  let ?s0 = "s\<lparr>locked := True\<rparr>"
  have rel0: "storage_rel ?s0 rs (ca @ [(p, ids)]) F" using rel cat by simp
  have b: "int (length ids) < int_max" using bound cat by (simp add: cat_bounded_def)
  obtain rs' s' where tail: "cbind (cget (\<lambda>s. (file_to_chunk_state s, num_file_count s))) (\<lambda>(base, n).
     cbind (push_chunk_id base (n - 1) c) (\<lambda>_.
     cbind mutex_unlock (\<lambda>_.
     cbind print_storage_state (\<lambda>_. cret ())))) ?s0 = Inr ((), s')"
    and rel': "storage_rel s' rs' (ca @ [(p, if oom ?s0 (brk ?s0) then ids else ids @ [c])]) F"
    and fr: "hframe F (?s0\<lparr>locked := False\<rparr>) s'" by (rule insert_tail_run[OF rel0 b]) simp_all
  have "insert_to_struct f c True s = Inr ((), s')"
    using tail free by (simp add: insert_to_struct_def cbind_def[of mutex_lock] mutex_lock_def)
  moreover have "?s0\<lparr>locked := False\<rparr> = s" using free by simp
  ultimately show thesis using rel' fr oom cat by (intro that[of s' rs']) simp_all
qed

section \<open>A node restarted over existing data\<close>

text \<open>
  The catalogue starts empty whatever is on disk. The next chunk of a file that has chunks on
  disk is written, and then the node dereferences \<open>NULL\<close>.
\<close>

lemma post_after_restart:
  assumes rel: "storage_rel s [] [] F" and free: "\<not> locked s" and mem: "no_oom s"
    and has: "directoryHasFiles (dir_path f) (fs s)" and disk: "chunk_free (fs s) f c"
    and m: "chunk_headers m f c" and ps: "\<forall>p \<in> set ps. p \<noteq> []" "ps \<noteq> []"
  shows "serve_request m depth ''/new-chunk'' ''POST'' ps s = Inl NullDeref"
proof -
  let ?bs = "concat ps"
  have ne: "?bs \<noteq> []" using ps by (cases ps) auto
  obtain con d s1 where con: "con \<noteq> NULL" and srv: "serving s1 [] [] con d ?bs F" and fr1: "hframe F s s1"
    and start: "serve_request m depth ''/new-chunk'' ''POST'' ps s
      = cbind (answer_to_connection m depth ''/new-chunk'' ''POST'' [] con) (\<lambda>h.
        cbind (request_completed (con_cls h)) (\<lambda>_. cret (queued h))) s1"
    by (rule post_start[OF rel mem ps(1)])
  note sD = servingD[OF srv]
  have fs1: "fs s1 = fs s" using fs_frame[OF fr1] .
  have r: "read_conn con s1 = Inr (\<lparr>conn_data = d, conn_size = length ?bs\<rparr>, s1)"
    using sD(2,4) by (rule read_conn_ok)
  have d: "d \<noteq> NULL" using ne sD(5) by blast
  have len: "length ?bs > 0" using ne by simp
  have dk: "True = directoryHasFiles (dir_path f) (fs s1)" "fs_quiet (fs s1)" "good_name f" "path_fits f c"
    "dirs_free (fs s1) (dir_words f)" "fs_lookup (fs s1) (chunk_loc (fs s1) f c) = None"
    using disk has by (simp_all add: chunk_free_def fs1)
  obtain t where save: "saveChunkToFile (Some f) d (length ?bs) c s1
      = cbind (insert_to_struct f c True) (\<lambda>_. cret True) (s1\<lparr>fs := t\<rparr>)"
    by (rule saveChunkToFile_insert[OF dk d sD(6)[OF ne] ne])
  have "insert_to_struct f c True (s1\<lparr>fs := t\<rparr>) = Inl NullDeref"
    using sD(1) fr1 free by (intro insert_into_empty) (simp_all add: hframe_def)
  then have "saveChunkToFile (Some f) d (length ?bs) c s1 = Inl NullDeref" unfolding save by (simp add: cbind_Inl)
  then have "handleNewChunk con fresh_reply f c s1 = Inl NullDeref" using r by (simp add: handleNewChunk_def cbind_def)
  then show ?thesis
    unfolding start cbind_def[of "answer_to_connection m depth ''/new-chunk'' ''POST'' [] con"]
      answer_post_save[OF m con r d len] by (simp add: cbind_Inl)
qed

section \<open>Requests refused\<close>

text \<open>A request answered with a text of the program: no state changes.\<close>

lemma refused_request:
  fixes s :: "'h storage_node_scheme"
  assumes rel: "storage_rel s rs cat F" and mem: "no_oom s"
    and ans: "\<And>con (t :: 'h storage_node_scheme). con \<noteq> NULL \<Longrightarrow> mem t con = Some (ConnB (Some \<lparr>conn_data = NULL, conn_size = 0\<rparr>)) \<Longrightarrow>
      answer_to_connection m depth url method [] con t = send_reply m con 0 (literal_reply text code) t"
  shows "\<exists>s'. serve_request m depth url method [] s = Inr (page_reply m code text, s') \<and>
    storage_rel s' rs cat F \<and> hframe F s s' \<and> fs s' = fs s"
proof -
  obtain con s1 where con: "con \<noteq> NULL" and srv: "serving s1 rs cat con NULL [] F" and fr: "hframe F s s1"
    and start: "serve_request m depth url method [] s
      = cbind (answer_to_connection m depth url method [] con) (\<lambda>h.
        cbind (request_completed (con_cls h)) (\<lambda>_. cret (queued h))) s1"
    by (rule no_body_start[OF rel mem])
  have "mem s1 con = Some (ConnB (Some \<lparr>conn_data = NULL, conn_size = 0\<rparr>))" using servingD(4)[OF srv] by simp
  then have run: "answer_to_connection m depth url method [] con s1
    = Inr (\<lparr>mhd_yes = queue_response m code, con_cls = con, upload_left = 0,
            queued = page_reply m code text\<rparr>, s1)"
    using ans[OF con] by (simp add: send_literal)
  obtain s' where "serve_request m depth url method [] s = Inr (page_reply m code text, s')"
    "storage_rel s' rs cat F" "hframe F (s\<lparr>fs := fs s'\<rparr>) s'" "fs s' = fs s1"
    by (rule no_body_finish[OF srv fr start run servingD(1)[OF srv] hframe_fs_same])
  then show ?thesis using fs_frame[OF fr] by (auto simp: hframe_def)
qed

text \<open>The requests without a body that are refused, with the code and the page of the answer.\<close>

definition refusal :: "mhd \<Rightarrow> string \<Rightarrow> string \<Rightarrow> (nat \<times> string) option" where
  "refusal m url method =
     (if method \<notin> {''POST'', ''GET'', ''DELETE''} then Some (405, ''{\"error\":\"Method Not Allowed\"}'')
      else if url \<noteq> (if method = ''POST'' then ''/new-chunk'' else if method = ''GET'' then ''/chunk'' else ''/remove-file'')
      then Some (404, ''{\"error\":\"404 Not Found\"}'')
      else if method = ''DELETE'' then
        (if connection_value m ''X-Filename'' = None then Some (400, ''{\"error\":\"Missing X-Filename \"}'') else None)
      else if connection_value m ''X-Filename'' = None \<or> connection_value m ''X-Chunk-ID'' = None
      then Some (400, ''{\"error\":\"Missing X-Filename or X-Chunk-ID\"}'')
      else if method = ''POST'' \<and> in_int (atoi_value (the (connection_value m ''X-Chunk-ID'')))
      then Some (400, ''{\"error\":\"No request body\"}'')
      else None)"

lemma refusal_answer:
  fixes t :: "'h storage_node_scheme"
  assumes ref: "refusal m url method = Some (code, text)" and con: "con \<noteq> NULL"
    and m: "mem t con = Some (ConnB (Some \<lparr>conn_data = NULL, conn_size = 0\<rparr>))"
  shows "answer_to_connection m depth url method [] con t = send_reply m con 0 (literal_reply text code) t"
proof -
  note read = read_conn_ok[OF con m]
  consider (other) "method \<notin> {''POST'', ''GET'', ''DELETE''}" | (post) "method = ''POST''"
    | (get) "method = ''GET''" | (del) "method = ''DELETE''" by blast
  then show ?thesis
  proof cases
    case other
    then show ?thesis using ref con by (auto simp: refusal_def answer_to_connection_def)
  next
    case post
    then show ?thesis using ref con read
      by (auto simp: refusal_def answer_to_connection_def answer_post_def cbind_def atoi_def
          split: if_splits option.splits)
  next
    case get
    then show ?thesis using ref con
      by (auto simp: refusal_def answer_to_connection_def answer_get_def cbind_def split: if_splits option.splits)
  next
    case del
    then show ?thesis using ref con
      by (auto simp: refusal_def answer_to_connection_def answer_delete_def cbind_def split: if_splits option.splits)
  qed
qed

section \<open>The next chunk number\<close>

lemma max_entry_run:
  assumes "\<forall>w \<in> set names. w \<noteq> ''.'' \<and> w \<noteq> ''..'' \<longrightarrow> in_int (atoi_value w)"
  shows "max_entry m names s
    = Inr (fold max (map atoi_value (filter (\<lambda>w. w \<noteq> ''.'' \<and> w \<noteq> ''..'') names)) m, s)"
  using assms
proof (induction names arbitrary: m)
  case Nil
  then show ?case by simp
next
  case (Cons w names)
  then show ?case by (auto simp: atoi_def max_def)
qed

lemma fold_max_ge: "(m :: int) \<le> fold max xs m \<and> (\<forall>x \<in> set xs. x \<le> fold max xs m)"
proof (induction xs arbitrary: m)
  case (Cons x xs)
  from Cons[of "max x m"] show ?case by auto
qed simp

lemma fold_max_mem: "fold max xs (m :: int) \<in> insert m (set xs)"
proof (induction xs arbitrary: m)
  case (Cons x xs)
  from Cons[of "max x m"] show ?case by (auto simp: max_def split: if_splits)
qed simp

lemma next_chunk_number:
  assumes quiet: "fs_quiet (fs s)" and at: "at_dir (fs s) (dir_words f)" and name: "length f \<le> 506"
    and ids: "\<And>w. fs_lookup (fs s) (cwd (fs s) @ dir_words f @ [w]) \<noteq> None \<Longrightarrow> in_int (atoi_value w) \<and> atoi_value w < int_max"
  shows "\<exists>n. getNextChunkNumber f s = Inr (n, s) \<and> 1 \<le> n \<and>
    (\<forall>c. fs_lookup (fs s) (chunk_loc (fs s) f c) \<noteq> None \<longrightarrow> c < n)"
proof -
  let ?l = "cwd (fs s) @ dir_words f"
  let ?names = "[''.'', ''..''] @ children (fs s) ?l"
  let ?m = "fold max (map atoi_value (filter (\<lambda>w. w \<noteq> ''.'' \<and> w \<noteq> ''..'') ?names)) 0"
  have open': "fs_opendir (snprintf 512 (''data/'' @ f)) (fs s) = Some (?l, ?names)"
    using quiet resolve_at_dir[OF at] at_dir_path(2)[OF at] dir_path_words[OF name] by (simp add: fs_opendir_def)
  have child: "in_int (atoi_value w) \<and> atoi_value w < int_max" if "w \<in> set (children (fs s) ?l)" for w
    using that ids[of w] by (simp add: in_children)
  have run: "max_entry 0 ?names s = Inr (?m, s)" using child by (intro max_entry_run) auto
  have "?m < int_max"
    using fold_max_mem[of "map atoi_value (filter (\<lambda>w. w \<noteq> ''.'' \<and> w \<noteq> ''..'') ?names)" 0] child
    by (auto simp: int_max_def)
  then have "getNextChunkNumber f s = Inr (?m + 1, s)"
    using open' run by (simp add: getNextChunkNumber_def cbind_Inr int_succ_def)
  moreover have "c < ?m + 1" if "fs_lookup (fs s) (chunk_loc (fs s) f c) \<noteq> None" for c
  proof -
    have "show_int c \<in> set (children (fs s) ?l)" using that by (simp add: in_children chunk_loc_def chunk_words_def)
    moreover have "show_int c \<noteq> ''.''" "show_int c \<noteq> ''..''" using proper_show_int[of c] by (auto simp: proper_name_def)
    ultimately have "atoi_value (show_int c) \<in> set (map atoi_value (filter (\<lambda>w. w \<noteq> ''.'' \<and> w \<noteq> ''..'') ?names))"
      by (auto simp del: atoi_show_int)
    then show ?thesis using fold_max_ge[of 0] by fastforce
  qed
  ultimately show ?thesis using fold_max_ge[of 0] by fastforce
qed

end
