(* ===== verification/State_Encoding.thy ===== *)
theory State_Encoding
  imports Catalogue
begin

text \<open>
  The health report: \<open>return_current_state_encoded_in_protobufs\<close> of state/fileState.c and
  \<open>join_message\<close> of tcpClient/protoHandler/serialize.c. The report is made in three
  phases, of which only the first holds the mutex: a list of mappings that share the
  catalogue's strings and arrays, the packing of what they point to, and their release. The
  packed form is that of libprotobuf-c, an argument of the functions here.
\<close>

section \<open>The code\<close>

text \<open>
  A mapping for record \<open>i\<close>: \<open>data__file_mappings__init\<close> and the three fields. The initial name, a static empty
  string, is \<open>NULL\<close> here: it is overwritten at once and never read.
\<close>

definition new_mapping :: "ptr \<Rightarrow> nat \<Rightarrow> ('h heap_scheme, ptr) cm" where
  "new_mapping base i =
     cbind (malloc_block (MapB None)) (\<lambda>fm.
     cbind (write_mapping fm \<lparr>fm_filename = NULL, fm_chunk_ids = NULL, fm_n_chunk_ids = 0\<rparr>) (\<lambda>_.
     cbind (read_rec base (int i)) (\<lambda>r.
     cbind (write_mapping fm \<lparr>fm_filename = file_path r, fm_chunk_ids = chunk_ids r,
              fm_n_chunk_ids = num_chunks r\<rparr>) (\<lambda>_.
     cret fm))))"

text \<open>The part under the mutex: \<open>msg.file_mappings\<close> and \<open>msg.n_file_mappings\<close>.\<close>

definition snapshot_mappings :: "('h, ptr \<times> nat) sm" where
  "snapshot_mappings =
     cbind mutex_lock (\<lambda>_.
     cbind (cget (\<lambda>s. (file_to_chunk_state s, nat (num_file_count s)))) (\<lambda>(base, n).
     cbind
       (if n > 0 then
          cbind (malloc_block (PtrB (replicate n None))) (\<lambda>arr.
          cbind (for_up 0 n (\<lambda>i.
            cbind (new_mapping base i) (\<lambda>fm. write_ptr arr (int i) fm))) (\<lambda>_.
          cret arr))
        else cret NULL) (\<lambda>arr.
     cbind mutex_unlock (\<lambda>_.
     cret (arr, n)))))"

text \<open>What libprotobuf-c reads when it sizes or packs the message.\<close>

definition read_mapping_at :: "ptr \<Rightarrow> nat \<Rightarrow> ('h heap_scheme, FileMappings) cm" where
  "read_mapping_at arr i =
     cbind (read_ptr arr (int i)) (\<lambda>fm.
     cbind (read_mapping fm) (\<lambda>r.
     cbind (load_str (fm_filename r)) (\<lambda>name.
     cbind (collect_up 0 (nat (fm_n_chunk_ids r)) (\<lambda>j. read_int (fm_chunk_ids r) (int j))) (\<lambda>ids.
     cret \<lparr>mapping_filename = name, mapping_chunk_ids = ids\<rparr>))))"

definition read_health :: "ptr \<Rightarrow> nat \<Rightarrow> ('h heap_scheme, msg_type) cm" where
  "read_health arr n = cbind (collect_up 0 n (read_mapping_at arr)) (\<lambda>ms. cret (MsgHealth ms))"

definition pack_mappings ::
  "packed_size \<Rightarrow> packer \<Rightarrow> ptr \<Rightarrow> nat \<Rightarrow> ('h heap_scheme, ptr \<times> nat) cm" where
  "pack_mappings get_packed_size pack arr n =
     cbind (read_health arr n) (\<lambda>sized.
     cbind (malloc_block (ByteB (replicate (get_packed_size sized) None))) (\<lambda>buf.
     cbind (read_health arr n) (\<lambda>packed.
     cbind (copy_bytes buf 0 (pack packed)) (\<lambda>_.
     cret (buf, get_packed_size sized)))))"

text \<open>The release reads the file count again, without the mutex.\<close>

definition release_mappings :: "ptr \<Rightarrow> ('h, unit) sm" where
  "release_mappings arr =
     cbind (cget (\<lambda>s. nat (num_file_count s))) (\<lambda>n.
     if n > 0 then
       cbind (for_up 0 n (\<lambda>i. cbind (read_ptr arr (int i)) c_free)) (\<lambda>_. c_free arr)
     else cret ())"

definition return_current_state_encoded_in_protobufs ::
  "packed_size \<Rightarrow> packer \<Rightarrow> ('h, ptr \<times> nat) sm" where
  "return_current_state_encoded_in_protobufs get_packed_size pack =
     cbind snapshot_mappings (\<lambda>(arr, n).
     cbind (pack_mappings get_packed_size pack arr n) (\<lambda>(buf, len).
     cbind (release_mappings arr) (\<lambda>_.
     cret (buf, len))))"

definition join_message :: "packed_size \<Rightarrow> packer \<Rightarrow> ('h heap_scheme, ptr \<times> nat) cm" where
  "join_message get_packed_size pack =
     (let len = get_packed_size MsgJoin in
      cbind (malloc_block (ByteB (replicate len None))) (\<lambda>buffer.
      cbind (copy_bytes buffer 0 (pack MsgJoin)) (\<lambda>_.
      cret (buffer, len))))"

section \<open>The list of mappings\<close>

definition mapping_of :: "file_rec \<Rightarrow> mapping_rec" where
  "mapping_of r = \<lparr>fm_filename = file_path r, fm_chunk_ids = chunk_ids r, fm_n_chunk_ids = num_chunks r\<rparr>"

text \<open>\<open>fms\<close> are the mappings made for the records \<open>rs\<close>.\<close>

definition mappings_ok :: "(ptr \<Rightarrow> block option) \<Rightarrow> ptr list \<Rightarrow> file_rec list \<Rightarrow> bool" where
  "mappings_ok m fms rs \<longleftrightarrow> list_all2 (\<lambda>fm r. fm \<noteq> NULL \<and> m fm = Some (MapB (Some (mapping_of r)))) fms rs"

lemma mappings_ok_cong:
  assumes "mappings_ok m fms rs" "\<And>p. p \<in> set fms \<Longrightarrow> m' p = m p"
  shows "mappings_ok m' fms rs"
  using assms unfolding mappings_ok_def
  by (induction fms rs rule: list_all2_induct) auto

lemma mappings_ok_snoc:
  "mappings_ok m fms rs \<Longrightarrow> q \<noteq> NULL \<Longrightarrow> m q = Some (MapB (Some (mapping_of r))) \<Longrightarrow>
   mappings_ok m (fms @ [q]) (rs @ [r])"
  unfolding mappings_ok_def by (rule list_all2_appendI) simp_all

text \<open>One round of the loop, in closed form.\<close>

lemma mapping_round:
  assumes rel: "storage_rel s rs cat A" and i: "length fms < length cat" and arr: "arr \<in> A"
    and a: "mem s arr = Some (PtrB (map Some fms @ None # rest))" and oom: "\<not> oom s (brk s)"
  defines "s' \<equiv> s\<lparr>mem := (mem s)(brk s \<mapsto> MapB (Some (mapping_of (rs ! length fms))),
      arr \<mapsto> PtrB (map Some (fms @ [brk s]) @ rest)), brk := Suc (brk s)\<rparr>"
  shows "cbind (new_mapping (file_to_chunk_state s) (length fms)) (\<lambda>fm. write_ptr arr (int (length fms)) fm) s
      = Inr ((), s')" "storage_rel s' rs cat (insert (brk s) A)"
proof -
  let ?q = "brk s" and ?b = "file_to_chunk_state s"
  let ?s1 = "\<lambda>b. s\<lparr>mem := (mem s)(?q \<mapsto> b), brk := Suc ?q\<rparr>"
  have q: "?q \<noteq> NULL" "arr \<noteq> ?q" "arr \<noteq> NULL"
    using rel storage_rel_F_old[OF rel arr] by (auto simp: storage_rel_def heap_ok_def)
  have alloc: "storage_rel (?s1 b) rs cat (insert ?q A)" for b by (rule storage_rel_alloc[OF rel])
  have rd: "read_rec ?b (int (length fms)) (?s1 b) = Inr (rs ! length fms, ?s1 b)" for b
    using storage_rel_read[OF alloc i] by simp
  have w: "write_mapping ?q r (?s1 b) = Inr ((), ?s1 (MapB (Some r)))" if "b = MapB x" for b r x
    using q that by (simp add: write_mapping_def cbind_def load_def store_def)
  have new: "new_mapping ?b (length fms) s = Inr (?q, ?s1 (MapB (Some (mapping_of (rs ! length fms)))))"
    using oom rd w q by (simp add: new_mapping_def cbind_def malloc_block_def mapping_of_def)
  have up: "(map Some fms @ None # rest)[length fms := Some ?q] = map Some (fms @ [?q]) @ rest"
    using list_update_length[of "map Some fms" None rest "Some ?q"] by simp
  show "cbind (new_mapping ?b (length fms)) (\<lambda>fm. write_ptr arr (int (length fms)) fm) s = Inr ((), s')"
    using new q a up
    by (simp add: cbind_def write_ptr_def load_ptrs_def load_def store_def s'_def fun_upd_twist)
  have "storage_rel ((?s1 (MapB (Some (mapping_of (rs ! length fms)))))\<lparr>mem := (mem (?s1 (MapB (Some (mapping_of (rs ! length fms))))))(arr \<mapsto> PtrB (map Some (fms @ [?q]) @ rest))\<rparr>)
      rs cat (insert ?q A)"
    by (rule storage_rel_store[OF alloc]) (simp add: arr)
  moreover have "(?s1 b)\<lparr>mem := f\<rparr> = s\<lparr>mem := f, brk := Suc ?q\<rparr>" for b f by (cases s) simp
  ultimately show "storage_rel s' rs cat (insert ?q A)" by (simp add: s'_def)
qed

lemma mapping_loop:
  assumes "storage_rel s rs cat (insert arr (set fms \<union> F))" "no_oom s"
    and "mem s arr = Some (PtrB (map Some fms @ replicate k None))" "length fms + k = length cat"
    and "mappings_ok (mem s) fms (take (length fms) rs)" "distinct (arr # fms)" "set (arr # fms) \<inter> F = {}"
  obtains fms' s' where
    "for_up (length fms) k (\<lambda>i. cbind (new_mapping (file_to_chunk_state s) i) (\<lambda>fm. write_ptr arr (int i) fm)) s
      = Inr ((), s')"
    "storage_rel s' rs cat (insert arr (set fms' \<union> F))" "mem s' arr = Some (PtrB (map Some fms'))"
    "mappings_ok (mem s') fms' rs" "distinct (arr # fms')" "set (arr # fms') \<inter> F = {}" "hframe F s s'"
  using assms
proof (induction k arbitrary: fms s thesis)
  case 0
  have "take (length fms) rs = rs" using storage_rel_length[OF 0(2)] 0(5) by simp
  with 0 show ?case by (intro 0(1)[of s fms]) simp_all
next
  case (Suc k)
  let ?q = "brk s" and ?i = "length fms" and ?A = "insert arr (set fms \<union> F)"
  let ?m = "MapB (Some (mapping_of (rs ! ?i)))"
  let ?s1 = "s\<lparr>mem := (mem s)(?q \<mapsto> ?m, arr \<mapsto> PtrB (map Some (fms @ [?q]) @ replicate k None)), brk := Suc ?q\<rparr>"
  note rel = Suc.prems(2)
  have i: "?i < length cat" "?i < length rs" using Suc.prems(5) storage_rel_length[OF rel] by simp_all
  have a: "mem s arr = Some (PtrB (map Some fms @ None # replicate k None))" using Suc.prems(4) by simp
  have oom: "\<not> oom s ?q" using Suc.prems(3) by (simp add: no_oom_def)
  note round = mapping_round[OF rel i(1) _ a oom, simplified]
  have q: "?q \<notin> ?A" "?q \<noteq> NULL"
    using storage_rel_F_old[OF rel] rel by (auto simp: storage_rel_def heap_ok_def)
  have ok: "mappings_ok (mem ?s1) (fms @ [?q]) (take (length (fms @ [?q])) rs)"
  proof -
    have "mappings_ok (mem ?s1) fms (take ?i rs)"
      by (rule mappings_ok_cong[OF Suc.prems(6)]) (use q Suc.prems(7) in auto)
    moreover have "take (Suc ?i) rs = take ?i rs @ [rs ! ?i]" using i(2) by (rule take_Suc_conv_app_nth)
    moreover have "?q \<noteq> arr" using q by blast
    ultimately show ?thesis using q by (simp del: append_take_drop_id) (rule mappings_ok_snoc, simp_all)
  qed
  have rel1: "storage_rel ?s1 rs cat (insert arr (set (fms @ [?q]) \<union> F))"
    using round(2) by (simp add: insert_commute)
  have mem1: "no_oom ?s1" using Suc.prems(3) by (simp add: no_oom_def)
  have fr1: "hframe F s ?s1" using q Suc.prems(8) by (auto simp: hframe_def)
  show ?case
  proof (rule Suc.IH[OF _ rel1 mem1 _ _ ok])
    show "mem ?s1 arr = Some (PtrB (map Some (fms @ [?q]) @ replicate k None))" by simp
    show "length (fms @ [?q]) + k = length cat" using Suc.prems(5) by simp
    show "distinct (arr # fms @ [?q])" "set (arr # fms @ [?q]) \<inter> F = {}" using q Suc.prems(7,8) by auto
    fix fms' s'
    assume run: "for_up (length (fms @ [?q])) k (\<lambda>i. cbind (new_mapping (file_to_chunk_state ?s1) i)
        (\<lambda>fm. write_ptr arr (int i) fm)) ?s1 = Inr ((), s')" and fr: "hframe F ?s1 s'"
      and out: "storage_rel s' rs cat (insert arr (set fms' \<union> F))" "mem s' arr = Some (PtrB (map Some fms'))"
        "mappings_ok (mem s') fms' rs" "distinct (arr # fms')" "set (arr # fms') \<inter> F = {}"
    show thesis
    proof (rule Suc.prems(1)[OF _ out])
      show "for_up ?i (Suc k) (\<lambda>i. cbind (new_mapping (file_to_chunk_state s) i)
          (\<lambda>fm. write_ptr arr (int i) fm)) s = Inr ((), s')"
        using round(1) run by (simp add: cbind_Inr)
      show "hframe F s s'" using fr1 fr by (rule hframe_trans)
    qed
  qed
qed

definition snapshot_ok :: "(ptr \<Rightarrow> block option) \<Rightarrow> ptr \<Rightarrow> ptr list \<Rightarrow> file_rec list \<Rightarrow> bool" where
  "snapshot_ok m arr fms rs \<longleftrightarrow>
     (if rs = [] then arr = NULL \<and> fms = [] else arr \<noteq> NULL \<and> m arr = Some (PtrB (map Some fms))) \<and>
     mappings_ok m fms rs"

definition snapshot_blocks :: "ptr \<Rightarrow> ptr list \<Rightarrow> ptr set" where
  "snapshot_blocks arr fms = (if arr = NULL then {} else insert arr (set fms))"

lemma snapshot_run:
  assumes rel: "storage_rel s rs cat F" and free: "\<not> locked s" and mem: "no_oom s"
  obtains arr fms s' where "snapshot_mappings s = Inr ((arr, length cat), s')"
    "storage_rel s' rs cat (snapshot_blocks arr fms \<union> F)" "snapshot_ok (mem s') arr fms rs"
    "distinct (arr # fms)" "snapshot_blocks arr fms \<inter> F = {}" "hframe F s s'"
proof (cases "cat = []")
  case True
  then have "rs = []" "num_file_count s = 0" using rel storage_rel_length[OF rel] by (auto simp: storage_rel_def)
  moreover have "s\<lparr>locked := True, locked := False\<rparr> = s" using free by simp
  ultimately show thesis using rel free True
    by (intro that[of NULL s "[]"])
      (simp_all add: snapshot_mappings_def cbind_def mutex_lock_def mutex_unlock_def snapshot_ok_def
        snapshot_blocks_def mappings_ok_def)
next
  case False
  let ?s0 = "s\<lparr>locked := True\<rparr>" and ?q = "brk s" and ?n = "length cat" and ?b = "file_to_chunk_state s"
  let ?s1 = "?s0\<lparr>mem := (mem s)(?q \<mapsto> PtrB (replicate ?n None)), brk := Suc ?q\<rparr>"
  have q: "?q \<noteq> NULL" "?q \<notin> F" using rel storage_rel_F_old[OF rel] by (auto simp: storage_rel_def heap_ok_def)
  have rel1: "storage_rel ?s1 rs cat (insert ?q (set [] \<union> F))"
    using storage_rel_alloc[of ?s0 rs cat F "PtrB (replicate ?n None)"] rel by simp
  have mem1: "no_oom ?s1" and al: "mem ?s1 ?q = Some (PtrB (map Some [] @ replicate ?n None))"
    using mem by (simp_all add: no_oom_def)
  obtain fms s2 where run: "for_up (length ([] :: ptr list)) ?n (\<lambda>i. cbind (new_mapping (file_to_chunk_state ?s1) i)
      (\<lambda>fm. write_ptr ?q (int i) fm)) ?s1 = Inr ((), s2)"
    and rel2: "storage_rel s2 rs cat (insert ?q (set fms \<union> F))"
    and out: "mem s2 ?q = Some (PtrB (map Some fms))" "mappings_ok (mem s2) fms rs"
      "distinct (?q # fms)" "set (?q # fms) \<inter> F = {}" and fr: "hframe F ?s1 s2"
    by (rule mapping_loop[OF rel1 mem1 al]) (use q in \<open>auto simp: mappings_ok_def\<close>)
  let ?s' = "s2\<lparr>locked := False\<rparr>"
  have n: "nat (num_file_count s) = ?n" "?n > 0" using rel False by (simp_all add: storage_rel_def)
  have lock2: "locked s2" using fr by (simp add: hframe_def)
  have "malloc_block (PtrB (replicate ?n None)) ?s0 = Inr (?q, ?s1)"
    using mem by (simp add: malloc_block_def no_oom_def)
  then have "snapshot_mappings s = Inr ((?q, ?n), ?s')"
    using run n free lock2 by (simp add: snapshot_mappings_def cbind_def mutex_lock_def mutex_unlock_def)
  moreover have "storage_rel ?s' rs cat (snapshot_blocks ?q fms \<union> F)"
    using rel2 q by (simp add: snapshot_blocks_def)
  moreover have "rs \<noteq> []" using False storage_rel_length[OF rel] by auto
  then have "snapshot_ok (mem ?s') ?q fms rs" using out q by (simp add: snapshot_ok_def)
  moreover have "snapshot_blocks ?q fms \<inter> F = {}" using out q by (simp add: snapshot_blocks_def)
  moreover have "hframe F s ?s'" using fr free q by (auto simp: hframe_def)
  ultimately show thesis using out(3) by (intro that)
qed

section \<open>Packing and release\<close>

definition to_mapping :: "string \<times> int list \<Rightarrow> FileMappings" where
  "to_mapping f = \<lparr>mapping_filename = fst f, mapping_chunk_ids = snd f\<rparr>"

definition health_of :: "catalogue \<Rightarrow> msg_type" where
  "health_of cat = MsgHealth (map to_mapping cat)"

lemma read_ptr_ok:
  "arr \<noteq> NULL \<Longrightarrow> mem s arr = Some (PtrB xs) \<Longrightarrow> i < length xs \<Longrightarrow> xs ! i = Some p \<Longrightarrow>
   read_ptr arr (int i) s = Inr (p, s)"
  by (simp add: read_ptr_def load_ptrs_def load_def cbind_def read_elem_def)

lemma snapshot_at:
  assumes "snapshot_ok (mem s) arr fms rs" "i < length rs"
  shows "read_ptr arr (int i) s = Inr (fms ! i, s)" "read_mapping (fms ! i) s = Inr (mapping_of (rs ! i), s)"
proof -
  have m: "mappings_ok (mem s) fms rs" and ne: "rs \<noteq> []" using assms by (auto simp: snapshot_ok_def)
  then have len: "length fms = length rs" by (auto simp: mappings_ok_def dest: list_all2_lengthD)
  show "read_ptr arr (int i) s = Inr (fms ! i, s)"
    using assms ne len by (intro read_ptr_ok[where xs = "map Some fms"]) (auto simp: snapshot_ok_def)
  have "fms ! i \<noteq> NULL" "mem s (fms ! i) = Some (MapB (Some (mapping_of (rs ! i))))"
    using m assms(2) len by (auto simp: mappings_ok_def list_all2_conv_all_nth)
  then show "read_mapping (fms ! i) s = Inr (mapping_of (rs ! i), s)"
    by (simp add: read_mapping_def load_def cbind_def)
qed

text \<open>While the catalogue is as it was, what is read is the catalogue.\<close>

lemma read_health_run:
  assumes rel: "storage_rel s rs cat A" and snap: "snapshot_ok (mem s) arr fms rs"
  shows "read_health arr (length cat) s = Inr (health_of cat, s)"
proof -
  have one: "read_mapping_at arr i s = Inr (to_mapping (cat ! i), s)" if i: "i < length cat" for i
  proof -
    have j: "i < length rs" using i storage_rel_length[OF rel] by simp
    have ids: "collect_up 0 (length (snd (cat ! i))) (\<lambda>j. read_int (chunk_ids (rs ! i)) (int j)) s
        = Inr (snd (cat ! i), s)"
      using storage_rel_ids[OF rel i] by (intro collect_up_read) simp
    show ?thesis
      using snapshot_at[OF snap j] storage_rel_path[OF rel i] storage_rel_num[OF rel i] ids
      by (simp add: read_mapping_at_def cbind_Inr mapping_of_def to_mapping_def)
  qed
  have "collect_up 0 (length (map to_mapping cat)) (read_mapping_at arr) s = Inr (map to_mapping cat, s)"
    using one by (intro collect_up_read) simp
  then show ?thesis by (simp add: read_health_def cbind_Inr health_of_def)
qed

text \<open>The packer writes as many bytes as it announced: what libprotobuf-c documents.\<close>

definition packs_to_size :: "packed_size \<Rightarrow> packer \<Rightarrow> bool" where
  "packs_to_size get_packed_size pack \<longleftrightarrow> (\<forall>msg. length (pack msg) = get_packed_size msg)"

lemma copy_all_bytes:
  "p \<noteq> NULL \<Longrightarrow> mem s p = Some (ByteB (replicate n None)) \<Longrightarrow> length bs = n \<Longrightarrow>
   copy_bytes p 0 bs s = Inr ((), s\<lparr>mem := (mem s)(p \<mapsto> ByteB (map Some bs))\<rparr>)"
  by (simp add: copy_bytes_def cbind_def load_def store_def)

lemma pack_mappings_run:
  assumes rel: "storage_rel s rs cat A" and snap: "snapshot_ok (mem s) arr fms rs"
    and old: "snapshot_blocks arr fms \<subseteq> A" and len: "packs_to_size ps pk" and mem: "\<not> oom s (brk s)"
  defines "s' \<equiv> s\<lparr>mem := (mem s)(brk s \<mapsto> ByteB (map Some (pk (health_of cat)))), brk := Suc (brk s)\<rparr>"
  shows "pack_mappings ps pk arr (length cat) s = Inr ((brk s, ps (health_of cat)), s')"
    "storage_rel s' rs cat (insert (brk s) A)" "snapshot_ok (mem s') arr fms rs"
proof -
  let ?q = "brk s"
  let ?s1 = "\<lambda>b. s\<lparr>mem := (mem s)(?q \<mapsto> b), brk := Suc ?q\<rparr>"
  have q: "?q \<noteq> NULL" "?q \<notin> A" using rel storage_rel_F_old[OF rel] by (auto simp: storage_rel_def heap_ok_def)
  have alloc: "storage_rel (?s1 b) rs cat (insert ?q A)" for b by (rule storage_rel_alloc[OF rel])
  have snap1: "snapshot_ok (mem (?s1 b)) arr fms rs" for b
  proof -
    have arr: "?q \<noteq> arr" and fms: "?q \<notin> set fms"
      using old q snap by (cases "rs = []"; auto simp: snapshot_blocks_def snapshot_ok_def split: if_splits)+
    have "mappings_ok (mem s) fms rs" using snap by (simp add: snapshot_ok_def)
    moreover have "mem (?s1 b) p = mem s p" if "p \<in> set fms" for p using that fms by auto
    ultimately have "mappings_ok (mem (?s1 b)) fms rs" by (rule mappings_ok_cong)
    then show ?thesis using snap arr by (simp add: snapshot_ok_def split: if_splits)
  qed
  have "malloc_block (ByteB (replicate (ps (health_of cat)) None)) s
      = Inr (?q, ?s1 (ByteB (replicate (ps (health_of cat)) None)))"
    using mem by (simp add: malloc_block_def)
  moreover note read_health_run[OF rel snap] read_health_run[OF alloc snap1]
  moreover have "copy_bytes ?q 0 (pk (health_of cat)) (?s1 (ByteB (replicate (ps (health_of cat)) None))) = Inr ((), s')"
    using q len by (subst copy_all_bytes) (auto simp: packs_to_size_def s'_def)
  ultimately show "pack_mappings ps pk arr (length cat) s = Inr ((brk s, ps (health_of cat)), s')"
    by (simp only: pack_mappings_def cbind_def sum.case prod.case cret_apply)
  show "storage_rel s' rs cat (insert (brk s) A)" "snapshot_ok (mem s') arr fms rs"
    using alloc snap1 by (simp_all add: s'_def)
qed

lemma release_loop:
  assumes "storage_rel s rs cat (insert arr (set fms \<union> F))" "arr \<noteq> NULL"
    and "mem s arr = Some (PtrB (map Some (done @ fms)))" "distinct (arr # fms)" "set (arr # fms) \<inter> F = {}"
  obtains s' where "for_up (length done) (length fms) (\<lambda>i. cbind (read_ptr arr (int i)) c_free) s = Inr ((), s')"
    "storage_rel s' rs cat (insert arr F)" "hframe F s s'" "mem s' arr = mem s arr"
  using assms
proof (induction fms arbitrary: "done" s thesis)
  case Nil
  then show ?case by simp
next
  case (Cons p fms)
  let ?A = "insert arr (set (p # fms) \<union> F)"
  let ?s1 = "s\<lparr>mem := (mem s)(p := None)\<rparr>"
  have p: "p \<in> ?A" "mem s p \<noteq> None" "p \<noteq> NULL"
    using storage_rel_F_dom[OF Cons.prems(2), of p] storage_rel_F_old[OF Cons.prems(2), of p] by simp_all
  have "read_ptr arr (int (length done)) s = Inr (p, s)"
    by (rule read_ptr_ok[OF Cons.prems(3,4)]) (simp_all add: nth_append)
  then have one: "cbind (read_ptr arr (int (length done))) c_free s = Inr ((), ?s1)"
    using p by (simp add: cbind_Inr c_free_def)
  have "?A - {p} = insert arr (set fms \<union> F)" using Cons.prems(5,6) by auto
  then have rel1: "storage_rel ?s1 rs cat (insert arr (set fms \<union> F))"
    using storage_rel_free[OF Cons.prems(2) p(1)] by metis
  have fr1: "hframe F s ?s1" using Cons.prems(6) by (auto simp: hframe_def)
  show ?case
  proof (rule Cons.IH[OF _ rel1 Cons.prems(3), of "done @ [p]"])
    show "mem ?s1 arr = Some (PtrB (map Some ((done @ [p]) @ fms)))" using Cons.prems(4,5) by simp
    show "distinct (arr # fms)" "set (arr # fms) \<inter> F = {}" using Cons.prems(5,6) by auto
    fix s'
    assume "for_up (length (done @ [p])) (length fms) (\<lambda>i. cbind (read_ptr arr (int i)) c_free) ?s1 = Inr ((), s')"
      and r: "storage_rel s' rs cat (insert arr F)" and fr: "hframe F ?s1 s'" and m: "mem s' arr = mem ?s1 arr"
    with one show thesis
      using Cons.prems(5) by (intro Cons.prems(1)[OF _ r hframe_trans[OF fr1 fr]]) (simp_all add: cbind_Inr)
  qed
qed

lemma release_run:
  assumes rel: "storage_rel s rs cat (snapshot_blocks arr fms \<union> F)" and snap: "snapshot_ok (mem s) arr fms rs"
    and dist: "distinct (arr # fms)" and disj: "snapshot_blocks arr fms \<inter> F = {}"
  obtains s' where "release_mappings arr s = Inr ((), s')" "storage_rel s' rs cat F" "hframe F s s'"
proof (cases "cat = []")
  case True
  then have "rs = []" "num_file_count s = 0" using rel storage_rel_length[OF rel] by (auto simp: storage_rel_def)
  then show thesis using rel snap
    by (intro that[of s]) (simp_all add: release_mappings_def snapshot_ok_def snapshot_blocks_def)
next
  case False
  then have rs: "rs \<noteq> []" and n: "nat (num_file_count s) = length cat" "length cat > 0"
    using rel storage_rel_length[OF rel] by (auto simp: storage_rel_def)
  with snap have arr: "arr \<noteq> NULL" "mem s arr = Some (PtrB (map Some fms))" "mappings_ok (mem s) fms rs"
    by (simp_all add: snapshot_ok_def)
  then have len: "length fms = length cat"
    using storage_rel_length[OF rel] by (auto simp: mappings_ok_def dest: list_all2_lengthD)
  have rel1: "storage_rel s rs cat (insert arr (set fms \<union> F))" and d1: "set (arr # fms) \<inter> F = {}"
    using rel disj arr by (simp_all add: snapshot_blocks_def)
  obtain s1 where loop: "for_up (length ([] :: ptr list)) (length fms) (\<lambda>i. cbind (read_ptr arr (int i)) c_free) s
      = Inr ((), s1)" and rel2: "storage_rel s1 rs cat (insert arr F)" and fr: "hframe F s s1"
    by (rule release_loop[OF rel1 arr(1) _ dist d1, of "[]"]) (use arr in simp_all)
  let ?s' = "s1\<lparr>mem := (mem s1)(arr := None)\<rparr>"
  have "c_free arr s1 = Inr ((), ?s')" using arr(1) storage_rel_F_dom[OF rel2, of arr] by (simp add: c_free_def)
  then have "release_mappings arr s = Inr ((), ?s')"
    using loop n len by (simp add: release_mappings_def cbind_Inr)
  moreover have "insert arr F - {arr} = F" using d1 by auto
  then have "storage_rel ?s' rs cat F" using storage_rel_free[OF rel2, of arr] by simp
  moreover have "hframe F s ?s'" using fr d1 by (auto simp: hframe_def)
  ultimately show thesis by (rule that)
qed

text \<open>Undisturbed, the report is the packed catalogue, and only its buffer is left on the heap.\<close>

lemma encode_state_run:
  assumes rel: "storage_rel s rs cat F" and free: "\<not> locked s" and mem: "no_oom s"
    and len: "packs_to_size ps pk"
  obtains buf s' where "return_current_state_encoded_in_protobufs ps pk s
      = Inr ((buf, length (pk (health_of cat))), s')"
    "storage_rel s' rs cat (insert buf F)" "buf \<noteq> NULL" "buf \<notin> F"
    "mem s' buf = Some (ByteB (map Some (pk (health_of cat))))" "hframe F s s'"
proof -
  obtain arr fms s1 where snap: "snapshot_mappings s = Inr ((arr, length cat), s1)"
    and rel1: "storage_rel s1 rs cat (snapshot_blocks arr fms \<union> F)" and ok1: "snapshot_ok (mem s1) arr fms rs"
    and dist: "distinct (arr # fms)" and disj: "snapshot_blocks arr fms \<inter> F = {}" and fr1: "hframe F s s1"
    by (rule snapshot_run[OF rel free mem])
  let ?q = "brk s1" and ?A = "snapshot_blocks arr fms \<union> F"
  let ?s2 = "s1\<lparr>mem := (mem s1)(?q \<mapsto> ByteB (map Some (pk (health_of cat)))), brk := Suc ?q\<rparr>"
  have oom: "\<not> oom s1 ?q" using mem fr1 by (simp add: hframe_def no_oom_def)
  note pack = pack_mappings_run[OF rel1 ok1 _ len oom, simplified]
  have q: "?q \<noteq> NULL" "?q \<notin> ?A"
    using rel1 storage_rel_F_old[OF rel1] by (auto simp: storage_rel_def heap_ok_def)
  have rel2: "storage_rel ?s2 rs cat (snapshot_blocks arr fms \<union> insert ?q F)" using pack(2) by simp
  obtain s' where rls: "release_mappings arr ?s2 = Inr ((), s')"
    and rel': "storage_rel s' rs cat (insert ?q F)" and fr': "hframe (insert ?q F) ?s2 s'"
    by (rule release_run[OF rel2 _ dist]) (use pack(3) disj q in auto)
  have "ps (health_of cat) = length (pk (health_of cat))" using len by (simp add: packs_to_size_def)
  then have "return_current_state_encoded_in_protobufs ps pk s
      = Inr ((?q, length (pk (health_of cat))), s')"
    using snap pack(1) rls by (simp add: return_current_state_encoded_in_protobufs_def cbind_Inr)
  moreover have "mem s' ?q = Some (ByteB (map Some (pk (health_of cat))))" using fr' by (simp add: hframe_def)
  moreover have "hframe F s s'" using fr1 fr' q by (auto simp: hframe_def)
  ultimately show thesis using rel' q by (intro that[of ?q s']) simp_all
qed

section \<open>The race\<close>

text \<open>
  A listed file removed by the other thread after the mutex was released and before the
  message is packed: libprotobuf-c follows a pointer to a freed string.
\<close>

lemma pack_after_remove:
  assumes rel: "storage_rel s rs cat F" and free: "\<not> locked s" and mem: "no_oom s"
    and listed: "path \<in> fst ` set cat"
  shows "cbind snapshot_mappings (\<lambda>(arr, n).
           cbind (remove_from_struct path) (\<lambda>_. pack_mappings ps pk arr n)) s = Inl UseAfterFree"
proof -
  obtain ca ids cb where cat: "cat = ca @ (path, ids) # cb" and first: "path \<notin> fst ` set ca"
    using listed by (cases rule: cat_remove_cases[of path cat]) auto
  have lr: "length rs = length cat" using rel by (rule storage_rel_length)
  obtain as r bs where rs: "rs = as @ r # bs" and la: "length as = length ca"
  proof (rule that)
    show "rs = take (length ca) rs @ rs ! length ca # drop (Suc (length ca)) rs"
      using lr cat by (simp add: id_take_nth_drop)
    show "length (take (length ca) rs) = length ca" using lr cat by simp
  qed
  obtain arr fms s1 where snap: "snapshot_mappings s = Inr ((arr, length cat), s1)"
    and rel1: "storage_rel s1 rs cat (snapshot_blocks arr fms \<union> F)" and ok1: "snapshot_ok (mem s1) arr fms rs"
    and fr1: "hframe F s s1" by (rule snapshot_run[OF rel free mem])
  let ?A = "snapshot_blocks arr fms \<union> F"
  have free1: "\<not> locked s1" using free fr1 by (simp add: hframe_def)
  obtain s2 where rem: "remove_from_struct path s1 = Inr ((), s2)"
    and rel2: "storage_rel s2 (as @ bs) (ca @ cb) ?A" and fr2: "hframe ?A s1 s2"
    and gone: "mem s2 (file_path r) = None"
    by (rule remove_from_struct_present[OF _ la first free1]) (use rel1 rs cat in simp_all)
  have arr: "arr \<noteq> NULL" using ok1 rs by (simp add: snapshot_ok_def)
  have same: "mem s2 p = mem s1 p" if "p = arr \<or> p \<in> set fms" for p
    using fr2 that arr by (auto simp: hframe_def snapshot_blocks_def)
  have ok2: "snapshot_ok (mem s2) arr fms rs"
    using ok1 same mappings_ok_cong[of "mem s1" fms rs "mem s2"] by (simp add: snapshot_ok_def)
  let ?i = "length ca"
  have before: "read_mapping_at arr (0 + j) s2 = Inr (to_mapping (ca ! j), s2)" if j: "j < ?i" for j
  proof -
    have jr: "j < length rs" "rs ! j = (as @ bs) ! j" using j rs la by (simp_all add: nth_append)
    have jc: "j < length (ca @ cb)" "(ca @ cb) ! j = ca ! j" using j by (simp_all add: nth_append)
    have ids: "collect_up 0 (length (snd (ca ! j))) (\<lambda>k. read_int (chunk_ids (rs ! j)) (int k)) s2
        = Inr (snd (ca ! j), s2)"
      using storage_rel_ids[OF rel2 jc(1)] jc(2) jr(2) by (intro collect_up_read) simp
    show ?thesis
      using snapshot_at[OF ok2 jr(1)] storage_rel_path[OF rel2 jc(1)] storage_rel_num[OF rel2 jc(1)] ids jr(2) jc(2)
      by (simp add: read_mapping_at_def cbind_Inr mapping_of_def to_mapping_def)
  qed
  have at: "read_mapping_at arr (0 + ?i) s2 = Inl UseAfterFree"
  proof -
    have i: "?i < length rs" "rs ! ?i = r" using rs la by (simp_all add: nth_append)
    have "file_path r \<noteq> NULL"
      using storage_rel_live[OF rel, of "file_path r"] rs
      by (auto simp: owned_split rec_ptrs_def)
    then have "load_str (file_path r) s2 = Inl UseAfterFree" using gone by (simp add: load_str_def load_def cbind_def)
    then show ?thesis using snapshot_at[OF ok2 i(1)] i(2)
      by (simp add: read_mapping_at_def cbind_def mapping_of_def)
  qed
  have "collect_up 0 (length cat) (read_mapping_at arr) s2 = Inl UseAfterFree"
    by (rule collect_up_fail[where xs = "\<lambda>j. to_mapping (ca ! j)" and f = "read_mapping_at arr" and i = ?i, OF before at]) (simp_all add: cat)
  then have "pack_mappings ps pk arr (length cat) s2 = Inl UseAfterFree"
    by (simp add: pack_mappings_def read_health_def cbind_def)
  then show ?thesis using snap rem by (simp add: cbind_def)
qed

text \<open>
  A file entered after the report was taken: the release runs over the end of the list of
  mappings, or dereferences \<open>NULL\<close> when the list was empty.
\<close>

lemma release_after_insert:
  assumes rel: "storage_rel s rs cat F" and free: "\<not> locked s" and mem: "no_oom s" and bound: "cat_bounded cat"
  shows "cbind snapshot_mappings (\<lambda>(arr, n).
           cbind (insert_to_struct path c False) (\<lambda>_. release_mappings arr)) s
    = Inl (if cat = [] then NullDeref else OutOfBounds)"
proof -
  obtain arr fms s1 where snap: "snapshot_mappings s = Inr ((arr, length cat), s1)"
    and rel1: "storage_rel s1 rs cat (snapshot_blocks arr fms \<union> F)" and ok1: "snapshot_ok (mem s1) arr fms rs"
    and dist: "distinct (arr # fms)" and disj: "snapshot_blocks arr fms \<inter> F = {}"
    and fr1: "hframe F s s1" by (rule snapshot_run[OF rel free mem])
  let ?A = "snapshot_blocks arr fms \<union> F"
  have pre: "\<not> locked s1" "no_oom s1" using free mem fr1 by (simp_all add: hframe_def no_oom_def)
  obtain rs2 s2 where ins: "insert_to_struct path c False s1 = Inr ((), s2)"
    and rel2: "storage_rel s2 rs2 (cat_insert path c False cat) ?A" and fr2: "hframe ?A s1 s2"
    by (rule insert_to_struct_run[OF rel1 pre bound, where has = False and path = path and c = c])
      (simp, assumption)
  have n: "nat (num_file_count s2) = Suc (length cat)"
    using rel2 by (simp add: storage_rel_def cat_insert_new)
  have "release_mappings arr s2 = Inl (if cat = [] then NullDeref else OutOfBounds)"
  proof (cases "cat = []")
    case True
    then have "arr = NULL" using ok1 storage_rel_length[OF rel1] by (simp add: snapshot_ok_def)
    then show ?thesis using True n
      by (simp add: release_mappings_def cbind_def read_ptr_def load_ptrs_def load_def)
  next
    case False
    then have rs: "rs \<noteq> []" using storage_rel_length[OF rel1] by auto
    then have arr: "arr \<noteq> NULL" "mem s1 arr = Some (PtrB (map Some fms))" "mappings_ok (mem s1) fms rs"
      using ok1 by (simp_all add: snapshot_ok_def)
    then have len: "length fms = length cat"
      using storage_rel_length[OF rel1] by (auto simp: mappings_ok_def dest: list_all2_lengthD)
    have arr2: "mem s2 arr = Some (PtrB (map Some ([] @ fms)))" using fr2 arr by (simp add: hframe_def snapshot_blocks_def)
    have relA: "storage_rel s2 rs2 (cat_insert path c False cat) (insert arr (set fms \<union> F))"
      and d: "set (arr # fms) \<inter> F = {}" using rel2 disj arr by (simp_all add: snapshot_blocks_def)
    obtain s3 where loop: "for_up (length ([] :: ptr list)) (length fms)
        (\<lambda>i. cbind (read_ptr arr (int i)) c_free) s2 = Inr ((), s3)"
      and arr3: "mem s3 arr = mem s2 arr"
      by (rule release_loop[OF relA arr(1) arr2 dist d])
    have "read_ptr arr (int (length cat)) s3 = Inl OutOfBounds"
      using arr arr2 arr3 len by (simp add: read_ptr_def load_ptrs_def load_def cbind_def read_elem_def)
    then have "for_up 0 (Suc (length cat)) (\<lambda>i. cbind (read_ptr arr (int i)) c_free) s2 = Inl OutOfBounds"
      using loop len by (simp add: for_up_Suc_right cbind_def del: for_up.simps)
    then show ?thesis using False n by (simp add: release_mappings_def cbind_def del: for_up.simps)
  qed
  then show ?thesis using snap ins by (simp add: cbind_def)
qed

end
