(* ===== verification/Tcp_Client.thy ===== *)
theory Tcp_Client
  imports State_Encoding File_Operation "HOL-Library.Word"
begin

text \<open>
  tcpClient/client.c: the connection to the master. What the kernel answers to
  \<open>send\<close> and \<open>recv\<close> is a list of answers, in the order it gives them; a run whose
  list is used up is still waiting in the call. \<open>wire\<close> is every byte sent so far. The
  last section is the reader at the other end, of tcp_handler.rs.
\<close>

section \<open>The socket\<close>

datatype send_answer = Sent nat | Interrupted | SendFailed

datatype recv_answer = Received "byte list" | RecvFailed

record tcp_node = storage_node +
  send_answers :: "send_answer list"
  wire :: "byte list"
  shouldWork :: bool

type_synonym ('h, 'a) tm = "('h tcp_node_scheme, 'a) cm"

text \<open>
  The loop of \<open>send_all\<close>: its result (\<open>None\<close> while it waits), the answers left and
  the bytes on the wire. The kernel takes no more bytes than it was offered.
\<close>

fun send_loop :: "byte list \<Rightarrow> nat \<Rightarrow> send_answer list \<Rightarrow> byte list
    \<Rightarrow> bool option \<times> send_answer list \<times> byte list" where
  "send_loop buf total_sent answers out =
     (if \<not> total_sent < length buf then (Some True, answers, out)
      else case answers of
        [] \<Rightarrow> (None, [], out)
      | SendFailed # rest \<Rightarrow> (Some False, rest, out)
      | Interrupted # rest \<Rightarrow> send_loop buf total_sent rest out
      | Sent k # rest \<Rightarrow>
          let n = min k (length buf - total_sent) in
          if n = 0 then (Some False, rest, out)
          else send_loop buf (total_sent + n) rest (out @ take n (drop total_sent buf)))"

declare send_loop.simps [simp del]

definition send_bytes :: "byte list \<Rightarrow> ('h, bool) tm" where
  "send_bytes buf s =
     (case send_loop buf 0 (send_answers s) (wire s) of
        (None, _, _) \<Rightarrow> Inl Blocked
      | (Some ok, rest, out) \<Rightarrow> Inr (ok, s\<lparr>send_answers := rest, wire := out\<rparr>))"

text \<open>\<open>send_all\<close> on a block of the heap.\<close>

definition send_all :: "ptr \<Rightarrow> nat \<Rightarrow> ('h, bool) tm" where
  "send_all buf len =
     cbind (if len = 0 then cret [] else load_bytes buf len) send_bytes"

text \<open>\<open>htonl((uint32_t)n)\<close> as the four bytes it has in memory.\<close>

definition htonl_bytes :: "nat \<Rightarrow> byte list" where
  "htonl_bytes n =
     (let w = (of_nat n :: 32 word) in
      map (\<lambda>k. unat (take_bit 8 (drop_bit k w))) [24, 16, 8, 0])"

section \<open>Connecting\<close>

text \<open>The results of \<open>socket\<close>, \<open>inet_pton\<close> and \<open>connect\<close> are arguments.\<close>

definition create_socket :: "int \<Rightarrow> ('s, int) cm" where
  "create_socket socket_fd = (if socket_fd < 0 then cfail ExitFailure else cret socket_fd)"

definition connect_to_server :: "int \<Rightarrow> int \<Rightarrow> ('s, unit) cm" where
  "connect_to_server pton_result connect_result =
     (if pton_result \<le> 0 then cfail ExitFailure
      else if connect_result < 0 then cfail ExitFailure
      else cret ())"

definition send_initial_message :: "packed_size \<Rightarrow> packer \<Rightarrow> ('h, unit) tm" where
  "send_initial_message get_packed_size pack =
     cbind (join_message get_packed_size pack) (\<lambda>(join_message_buf, buf_len).
     cbind (send_bytes (htonl_bytes buf_len)) (\<lambda>ok.
     if \<not> ok then cbind (c_free join_message_buf) (\<lambda>_. cfail ExitFailure)
     else
       cbind (send_all join_message_buf buf_len) (\<lambda>ok.
       if \<not> ok then cbind (c_free join_message_buf) (\<lambda>_. cfail ExitFailure)
       else c_free join_message_buf)))"

section \<open>The receive loop\<close>

definition stop_working :: "('h, unit) tm" where
  "stop_working = cput (\<lambda>s. s\<lparr>shouldWork := False\<rparr>)"

text \<open>
  \<open>data__message_from_master_to_storage__unpack\<close>: a new message, or \<open>NULL\<close> when the
  bytes are no message or memory is short. The message is one block here.
\<close>

definition unpack_message ::
  "(byte list \<Rightarrow> MessageFromMasterToStorage option) \<Rightarrow> byte list \<Rightarrow> ('h heap_scheme, ptr) cm" where
  "unpack_message unpack bytes =
     (case unpack bytes of None \<Rightarrow> cret NULL | Some m \<Rightarrow> malloc_block (MsgB (Some \<lparr>base_descriptor = MasterDescriptor, payload = MasterP m\<rparr>)))"

text \<open>The report in \<open>buf\<close>, sent and freed; \<open>False\<close> when the thread is to return.\<close>

definition send_report :: "ptr \<Rightarrow> nat \<Rightarrow> ('h, bool) tm" where
  "send_report buf buf_len =
     cbind (send_bytes (htonl_bytes buf_len)) (\<lambda>ok.
     if \<not> ok then cbind (c_free buf) (\<lambda>_. cfail ExitFailure)
     else
       cbind (send_all buf buf_len) (\<lambda>ok.
       if \<not> ok then
         cbind (c_free buf) (\<lambda>_. cbind stop_working (\<lambda>_. cret False))
       else cbind (c_free buf) (\<lambda>_. cret True)))"

text \<open>
  The answer to one message; \<open>False\<close> when the thread is to return. The buffer holds what
  \<open>recv\<close> stored, and its last byte is left out.
\<close>

definition answer_message ::
  "(byte list \<Rightarrow> MessageFromMasterToStorage option) \<Rightarrow> packed_size \<Rightarrow> packer \<Rightarrow> byte list
    \<Rightarrow> ('h, bool) tm" where
  "answer_message unpack get_packed_size pack buffer =
     cbind (unpack_message unpack (take (length buffer - 1) buffer)) (\<lambda>msg.
     if msg = NULL then cbind stop_working (\<lambda>_. cret False)
     else
       cbind (return_current_state_encoded_in_protobufs get_packed_size pack) (\<lambda>(buf, buf_len).
       send_report buf buf_len))"

text \<open>
  The loop over the answers of \<open>recv\<close>; no bytes received means that the master closed
  the connection.
\<close>

primrec receive_messages ::
  "(byte list \<Rightarrow> MessageFromMasterToStorage option) \<Rightarrow> packed_size \<Rightarrow> packer \<Rightarrow> recv_answer list
    \<Rightarrow> ('h, unit) tm" where
  "receive_messages unpack get_packed_size pack [] =
     cbind (cget shouldWork) (\<lambda>work. if work then cfail Blocked else stop_working)"
| "receive_messages unpack get_packed_size pack (a # answers) =
     cbind (cget shouldWork) (\<lambda>work.
     if \<not> work then stop_working
     else case a of
       RecvFailed \<Rightarrow> stop_working
     | Received buffer \<Rightarrow>
         if buffer = [] then stop_working
         else
           cbind (answer_message unpack get_packed_size pack buffer) (\<lambda>go_on.
           if go_on then receive_messages unpack get_packed_size pack answers else cret ()))"

section \<open>The reader at the master\<close>

text \<open>\<open>read_u32\<close> and \<open>read_exact\<close>; \<open>None\<close> while bytes are missing.\<close>

definition read_u32 :: "byte list \<Rightarrow> nat" where
  "read_u32 bs = foldl (\<lambda>acc b. 256 * acc + b) 0 (take 4 bs)"

definition read_frame :: "byte list \<Rightarrow> (byte list \<times> byte list) option" where
  "read_frame bs =
     (if length bs < 4 then None
      else let size = read_u32 bs; rest = drop 4 bs in
        if length rest < size then None else Some (take size rest, drop size rest))"

end
