(* ===== verification/Master_Link.thy ===== *)
theory Master_Link
  imports Tcp_Client
begin

text \<open>
  What tcpClient/client.c puts on the wire: \<open>send_all\<close> sends its buffer or reports
  failure, whatever the kernel's answers; the master's reader gets back the messages; and
  the receive loop answers each message with the catalogue.
\<close>

section \<open>send_all\<close>

text \<open>Whatever the answers: a prefix of the buffer is sent, all of it exactly on success.\<close>

lemma send_loop_sent:
  assumes "send_loop buf t as out = (r, rest, out')" "t \<le> length buf"
  shows "\<exists>m. out' = out @ take m (drop t buf) \<and> m \<le> length buf - t \<and> (r = Some True \<longleftrightarrow> m = length buf - t)"
  using assms
proof (induction as arbitrary: t out)
  case Nil
  then show ?case by (subst (asm) send_loop.simps) (auto split: if_splits intro!: exI[of _ 0])
next
  case (Cons a as)
  show ?case
  proof (cases "t < length buf")
    case False
    then show ?thesis using Cons.prems by (subst (asm) send_loop.simps) auto
  next
    case t: True
    show ?thesis
    proof (cases a)
      case (Sent k)
      define n where "n = min k (length buf - t)"
      show ?thesis
      proof (cases "n = 0")
        case True
        then have "out' = out \<and> r = Some False"
          using Cons.prems t Sent unfolding n_def by (subst (asm) send_loop.simps) auto
        then show ?thesis using t by (intro exI[of _ 0]) auto
      next
        case False
        have le: "t + n \<le> length buf" using t by (simp add: n_def)
        have "send_loop buf (t + n) as (out @ take n (drop t buf)) = (r, rest, out')"
          using Cons.prems t Sent False unfolding n_def
          by (subst (asm) send_loop.simps) (auto simp: Let_def split: if_splits)
        from Cons.IH[OF this le] obtain m where m: "out' = (out @ take n (drop t buf)) @ take m (drop (t + n) buf)"
          "m \<le> length buf - (t + n)" "r = Some True \<longleftrightarrow> m = length buf - (t + n)" by blast
        have "take n (drop t buf) @ take m (drop (t + n) buf) = take (n + m) (drop t buf)"
          by (metis add.commute drop_drop take_add)
        then show ?thesis using m le by (intro exI[of _ "n + m"]) auto
      qed
    next
      case Interrupted
      then have "send_loop buf t as out = (r, rest, out')"
        using Cons.prems t by (subst (asm) send_loop.simps) simp
      then show ?thesis using Cons.IH t by simp
    next
      case SendFailed
      then have "out' = out \<and> r = Some False" using Cons.prems t by (subst (asm) send_loop.simps) auto
      then show ?thesis using t by (intro exI[of _ 0]) auto
    qed
  qed
qed

text \<open>A kernel that keeps taking bytes: interrupted calls aside, every answer takes at least one.\<close>

definition eager :: "send_answer list \<Rightarrow> bool" where
  "eager as \<longleftrightarrow> SendFailed \<notin> set as \<and> Sent 0 \<notin> set as"

definition credits :: "send_answer list \<Rightarrow> nat" where
  "credits as = length (filter (\<lambda>a. a \<noteq> Interrupted) as)"

lemma send_loop_eager:
  assumes "eager as" "length buf - t \<le> credits as" "t \<le> length buf"
  shows "\<exists>rest. send_loop buf t as out = (Some True, rest, out @ drop t buf) \<and> eager rest \<and>
    credits as \<le> credits rest + (length buf - t)"
  using assms
proof (induction as arbitrary: t out)
  case Nil
  then have "t = length buf" by (simp add: credits_def)
  then show ?case using Nil by (subst send_loop.simps) simp
next
  case (Cons a as)
  show ?case
  proof (cases "t < length buf")
    case False
    then show ?thesis using Cons.prems by (subst send_loop.simps) simp
  next
    case t: True
    have eager: "eager as" using Cons.prems(1) by (simp add: eager_def)
    show ?thesis
    proof (cases a)
      case (Sent k)
      define n where "n = min k (length buf - t)"
      have n: "0 < n" "t + n \<le> length buf" using Cons.prems(1) Sent t by (auto simp: eager_def n_def)
      have c: "credits (a # as) = Suc (credits as)" using Sent by (simp add: credits_def)
      have "length buf - (t + n) \<le> credits as" using Cons.prems(2) c n(1) by linarith
      then obtain rest where rest: "send_loop buf (t + n) as (out @ take n (drop t buf))
          = (Some True, rest, (out @ take n (drop t buf)) @ drop (t + n) buf)"
        "eager rest" "credits as \<le> credits rest + (length buf - (t + n))"
        using Cons.IH[OF eager _ n(2), of "out @ take n (drop t buf)"] by blast
      have "take n (drop t buf) @ drop (t + n) buf = drop t buf"
        by (metis append_take_drop_id drop_drop add.commute)
      moreover have "send_loop buf t (a # as) out = send_loop buf (t + n) as (out @ take n (drop t buf))"
        using t Sent n(1) by (subst send_loop.simps) (simp add: Let_def n_def[symmetric])
      ultimately show ?thesis using rest c n by (intro exI[of _ rest]) auto
    next
      case Interrupted
      then have "credits (a # as) = credits as" by (simp add: credits_def)
      moreover have "send_loop buf t (a # as) out = send_loop buf t as out"
        using t Interrupted by (subst send_loop.simps) simp
      ultimately show ?thesis using Cons eager by simp
    next
      case SendFailed
      then show ?thesis using Cons.prems(1) by (simp add: eager_def)
    qed
  qed
qed

text \<open>Interrupted calls leave no trace.\<close>

lemma send_loop_interrupted:
  assumes "send_loop buf t as out = (r, rest, out')"
  shows "send_loop buf t (filter (\<lambda>a. a \<noteq> Interrupted) as) out
    = (r, filter (\<lambda>a. a \<noteq> Interrupted) rest, out')"
  using assms
proof (induction as arbitrary: t out)
  case Nil
  then show ?case by (subst send_loop.simps, subst (asm) send_loop.simps) (auto split: if_splits)
next
  case (Cons a as)
  show ?case
  proof (cases "t < length buf")
    case False
    then show ?thesis using Cons.prems
      by (subst send_loop.simps, subst (asm) send_loop.simps) simp
  next
    case t: True
    then show ?thesis
    proof (cases a)
      case (Sent k)
      let ?n = "min k (length buf - t)"
      show ?thesis
      proof (cases "?n = 0")
        case True
        then show ?thesis using Cons.prems Sent t
          by (subst send_loop.simps, subst (asm) send_loop.simps) auto
      next
        case False
        then have "send_loop buf (t + ?n) as (out @ take ?n (drop t buf)) = (r, rest, out')"
          using Cons.prems Sent t by (subst (asm) send_loop.simps) (auto simp: Let_def split: if_splits)
        from Cons.IH[OF this] show ?thesis using Sent t False
          by (subst send_loop.simps) (auto simp: Let_def)
      qed
    next
      case Interrupted
      then have "send_loop buf t as out = (r, rest, out')"
        using Cons.prems t by (subst (asm) send_loop.simps) simp
      from Cons.IH[OF this] show ?thesis using Interrupted by simp
    next
      case SendFailed
      then show ?thesis using Cons.prems t
        by (subst send_loop.simps, subst (asm) send_loop.simps) auto
    qed
  qed
qed

section \<open>Frames\<close>

definition frame :: "byte list \<Rightarrow> byte list" where
  "frame m = htonl_bytes (length m) @ m"

lemma length_htonl [simp]: "length (htonl_bytes n) = 4"
  by (simp add: htonl_bytes_def Let_def)

lemma read_u32_htonl: "read_u32 (htonl_bytes n @ rest) = n mod 2 ^ 32"
proof -
  let ?w = "of_nat n :: 32 word"
  have b: "unat (take_bit 8 (drop_bit k ?w)) = n mod 2 ^ 32 div 2 ^ k mod 256" if "k \<le> 24" for k
  proof -
    have "unat (take_bit 8 (drop_bit k ?w)) = take_bit 8 (drop_bit k (unat ?w))"
      by (simp only: unsigned_take_bit_eq unsigned_drop_bit_eq)
        (simp add: take_bit_take_bit take_bit_drop_bit min_def that)
    then show ?thesis by (simp add: unat_of_nat take_bit_eq_mod drop_bit_eq_div)
  qed
  define x where "x = n mod 2 ^ 32"
  have bytes: "unat (take_bit 8 (drop_bit 24 ?w)) = x div 2 ^ 24 mod 256"
    "unat (take_bit 8 (drop_bit 16 ?w)) = x div 2 ^ 16 mod 256"
    "unat (take_bit 8 (drop_bit 8 ?w)) = x div 2 ^ 8 mod 256"
    "unat (take_bit 8 (drop_bit 0 ?w)) = x div 2 ^ 0 mod 256"
    unfolding x_def by (rule b, simp)+
  have "x div 2 ^ 24 < 256" by (simp add: x_def div_less_iff_less_mult)
  then have top: "x div 2 ^ 24 mod 256 = x div 256 div 256 div 256" by (simp add: div_mult2_eq[symmetric])
  have mid: "x div 2 ^ 16 mod 256 = x div 256 div 256 mod 256" by (simp add: div_mult2_eq[symmetric])
  have low: "x div 2 ^ 8 mod 256 = x div 256 mod 256" "x div 2 ^ 0 mod 256 = x mod 256" by simp_all
  have step: "256 * (y div 256) + y mod 256 = y" for y :: nat by simp
  have "read_u32 (htonl_bytes n @ rest)
      = 256 * (256 * (256 * unat (take_bit 8 (drop_bit 24 ?w)) + unat (take_bit 8 (drop_bit 16 ?w)))
          + unat (take_bit 8 (drop_bit 8 ?w))) + unat (take_bit 8 (drop_bit 0 ?w))"
    by (simp add: read_u32_def htonl_bytes_def Let_def)
  also have "\<dots> = 256 * (256 * (256 * (x div 2 ^ 24 mod 256) + x div 2 ^ 16 mod 256) + x div 2 ^ 8 mod 256)
      + x div 2 ^ 0 mod 256"
    by (simp only: bytes)
  also have "\<dots> = x" unfolding top mid low step ..
  finally show ?thesis by (simp add: x_def)
qed

lemma read_frame_frame: "length m < 2 ^ 32 \<Longrightarrow> read_frame (frame m @ rest) = Some (m, rest)"
  using read_u32_htonl[of "length m" "m @ rest"] by (simp add: read_frame_def frame_def)

text \<open>The frames at the front of a stream, and what is left once no whole frame is there.\<close>

function read_frames :: "byte list \<Rightarrow> byte list list \<times> byte list" where
  "read_frames bs =
     (case read_frame bs of
        None \<Rightarrow> ([], bs)
      | Some (m, rest) \<Rightarrow> (case read_frames rest of (ms, r) \<Rightarrow> (m # ms, r)))"
  by pat_completeness auto
termination
  by (relation "measure length") (auto simp: read_frame_def Let_def split: if_splits)

declare read_frames.simps [simp del]

lemma read_frames_stream:
  assumes "\<forall>m \<in> set ms. length m < 2 ^ 32" "read_frame rest = None"
  shows "read_frames (concat (map frame ms) @ rest) = (ms, rest)"
  using assms(1)
proof (induction ms)
  case Nil
  then show ?case using assms(2) by (subst read_frames.simps) simp
next
  case (Cons m ms)
  then have "read_frame (concat (map frame (m # ms)) @ rest) = Some (m, concat (map frame ms) @ rest)"
    using read_frame_frame[of m "concat (map frame ms) @ rest"] by simp
  then show ?case using Cons by (subst read_frames.simps) simp
qed

section \<open>Answering the master\<close>

lemma storage_rel_net [simp]:
  "storage_rel (s\<lparr>send_answers := x\<rparr>) rs cat F \<longleftrightarrow> storage_rel s rs cat F"
  "storage_rel (s\<lparr>wire := y\<rparr>) rs cat F \<longleftrightarrow> storage_rel s rs cat F"
  "storage_rel (s\<lparr>shouldWork := b\<rparr>) rs cat F \<longleftrightarrow> storage_rel s rs cat F"
  by (simp_all add: storage_rel_def heap_ok_def)

lemma net_frame:
  assumes "hframe F s s'"
  shows "send_answers s' = send_answers s" "wire s' = wire s" "shouldWork s' = shouldWork s" "fs s' = fs s"
  using assms by (cases s; cases s'; simp add: hframe_def)+

text \<open>The kernel will take so many bytes.\<close>

definition can_send :: "'h tcp_node_scheme \<Rightarrow> nat \<Rightarrow> bool" where
  "can_send s n \<longleftrightarrow> eager (send_answers s) \<and> n \<le> credits (send_answers s)"

lemma send_bytes_run:
  assumes "can_send s (length buf + n)"
  obtains rest where "send_bytes buf s = Inr (True, s\<lparr>send_answers := rest, wire := wire s @ buf\<rparr>)"
    "eager rest" "n \<le> credits rest"
proof -
  obtain rest where "send_loop buf 0 (send_answers s) (wire s) = (Some True, rest, wire s @ drop 0 buf)"
    "eager rest" "credits (send_answers s) \<le> credits rest + (length buf - 0)"
    using send_loop_eager[of "send_answers s" buf 0 "wire s"] assms by (auto simp: can_send_def)
  then show thesis using assms by (intro that[of rest]) (auto simp: send_bytes_def can_send_def)
qed

lemma load_bytes_block:
  "p \<noteq> NULL \<Longrightarrow> mem s p = Some (ByteB (map Some bs)) \<Longrightarrow>
   (if length bs = 0 then cret [] else load_bytes p (length bs)) s = Inr (bs, s)"
  by (auto simp: load_bytes_def cbind_def load_def)

lemma send_all_run:
  assumes "p \<noteq> NULL" "mem s p = Some (ByteB (map Some bs))" "can_send s (length bs + n)"
  obtains rest where "send_all p (length bs) s = Inr (True, s\<lparr>send_answers := rest, wire := wire s @ bs\<rparr>)"
    "eager rest" "n \<le> credits rest"
proof -
  obtain rest where r: "send_bytes bs s = Inr (True, s\<lparr>send_answers := rest, wire := wire s @ bs\<rparr>)"
    "eager rest" "n \<le> credits rest" using assms(3) by (rule send_bytes_run)
  have "send_all p (length bs) s = send_bytes bs s"
    unfolding send_all_def cbind_def load_bytes_block[OF assms(1,2)] by simp
  with r show thesis by (intro that[of rest]) simp_all
qed

text \<open>The length and the block, sent one after the other: a frame.\<close>

lemma send_frame_run:
  assumes p: "p \<noteq> NULL" "mem s p = Some (ByteB (map Some bs))" and send: "can_send s (4 + length bs + n)"
  obtains t r where "send_bytes (htonl_bytes (length bs)) s = Inr (True, t)"
    "send_all p (length bs) t = Inr (True, s\<lparr>send_answers := r, wire := wire s @ frame bs\<rparr>)"
    "eager r" "n \<le> credits r"
proof -
  have "can_send s (length (htonl_bytes (length bs)) + (length bs + n))" using send by (simp add: can_send_def)
  then obtain r3 where h: "send_bytes (htonl_bytes (length bs)) s
      = Inr (True, s\<lparr>send_answers := r3, wire := wire s @ htonl_bytes (length bs)\<rparr>)" (is "_ = Inr (_, ?t)")
    and r3: "eager r3" "length bs + n \<le> credits r3" by (rule send_bytes_run)
  have m: "mem ?t p = Some (ByteB (map Some bs))" and c: "can_send ?t (length bs + n)"
    using p r3 by (simp_all add: can_send_def)
  obtain r where "send_all p (length bs) ?t = Inr (True, ?t\<lparr>send_answers := r, wire := wire ?t @ bs\<rparr>)"
    "eager r" "n \<le> credits r" by (rule send_all_run[OF p(1) m c])
  then show thesis using h by (intro that[of ?t r]) (simp_all add: frame_def)
qed

text \<open>
  A message of the master: the report goes out as one frame, and the unpacked message stays
  on the heap, at \<open>q\<close>.
\<close>

lemma answer_message_run:
  assumes rel: "storage_rel s rs cat F" and free: "\<not> locked s" and mem: "no_oom s"
    and len: "packs_to_size ps pk" and msg: "unpack (take (length buffer - 1) buffer) \<noteq> None"
    and send: "can_send s (4 + length (pk (health_of cat)) + n)"
  obtains q s' where "answer_message unpack ps pk buffer s = Inr (True, s')"
    "storage_rel s' rs cat (insert q F)" "q \<notin> F" "can_send s' n" "\<not> locked s'" "no_oom s'"
    "wire s' = wire s @ frame (pk (health_of cat))" "shouldWork s' = shouldWork s" "fs s' = fs s"
proof -
  let ?pkt = "pk (health_of cat)" and ?q = "brk s"
  obtain m where m: "unpack (take (length buffer - 1) buffer) = Some m" using msg by blast
  let ?s1 = "s\<lparr>mem := (mem s)(?q \<mapsto> MsgB (Some \<lparr>base_descriptor = MasterDescriptor, payload = MasterP m\<rparr>)), brk := Suc ?q\<rparr>"
  have q: "?q \<noteq> NULL" "?q \<notin> F" using rel storage_rel_F_old[OF rel] by (auto simp: storage_rel_def heap_ok_def)
  have un: "unpack_message unpack (take (length buffer - 1) buffer) s = Inr (?q, ?s1)"
    using m mem by (simp add: unpack_message_def malloc_block_def no_oom_def)
  have rel1: "storage_rel ?s1 rs cat (insert ?q F)" by (rule storage_rel_alloc[OF rel])
  have pre1: "\<not> locked ?s1" "no_oom ?s1" using free mem by (simp_all add: no_oom_def)
  obtain buf s2 where enc: "return_current_state_encoded_in_protobufs ps pk ?s1 = Inr ((buf, length ?pkt), s2)"
    and rel2: "storage_rel s2 rs cat (insert buf (insert ?q F))" and buf: "buf \<noteq> NULL" "buf \<notin> insert ?q F"
    and b2: "mem s2 buf = Some (ByteB (map Some ?pkt))" and fr2: "hframe (insert ?q F) ?s1 s2"
    by (rule encode_state_run[OF rel1 pre1 len])
  note net2 = net_frame[OF fr2]
  have c2: "can_send s2 (4 + length ?pkt + n)" using send net2 by (simp add: can_send_def)
  obtain t r where h: "send_bytes (htonl_bytes (length ?pkt)) s2 = Inr (True, t)"
    and p: "send_all buf (length ?pkt) t = Inr (True, s2\<lparr>send_answers := r, wire := wire s2 @ frame ?pkt\<rparr>)"
    and r4: "eager r" "n \<le> credits r" by (rule send_frame_run[OF buf(1) b2 c2])
  let ?s4 = "s2\<lparr>send_answers := r, wire := wire s2 @ frame ?pkt\<rparr>"
  let ?s' = "?s4\<lparr>mem := (mem ?s4)(buf := None)\<rparr>"
  have "c_free buf ?s4 = Inr ((), ?s')" using buf(1) b2 by (simp add: c_free_def)
  then have "answer_message unpack ps pk buffer s = Inr (True, ?s')"
    using un q enc h p by (simp add: answer_message_def send_report_def cbind_def)
  moreover have "storage_rel ?s' rs cat (insert ?q F)"
  proof -
    have "storage_rel ?s4 rs cat (insert buf (insert ?q F))" using rel2 by simp
    moreover have "insert buf (insert ?q F) - {buf} = insert ?q F" using buf by blast
    ultimately show ?thesis using storage_rel_free[of ?s4 rs cat "insert buf (insert ?q F)" buf] by simp
  qed
  moreover have "can_send ?s' n" using r4 by (simp add: can_send_def)
  moreover have "\<not> locked ?s'" "no_oom ?s'" using fr2 free mem by (simp_all add: hframe_def no_oom_def)
  ultimately show thesis using q net2 by (intro that[of ?s' ?q]) (simp_all add: frame_def)
qed

text \<open>
  The whole loop: a report for every message until the master closes, with one block lost
  for each of them.
\<close>

lemma receive_messages_run:
  assumes "storage_rel s rs cat F" "\<not> locked s" "no_oom s" "packs_to_size ps pk"
    and "\<forall>b \<in> set bufs. b \<noteq> [] \<and> unpack (take (length b - 1) b) \<noteq> None"
    and "can_send s (length bufs * (4 + length (pk (health_of cat))))" "shouldWork s" "finite F"
  obtains L s' where
    "receive_messages unpack ps pk (map Received bufs @ [Received []]) s = Inr ((), s')"
    "storage_rel s' rs cat (L \<union> F)" "finite L" "card L = length bufs" "L \<inter> F = {}"
    "wire s' = wire s @ concat (map frame (replicate (length bufs) (pk (health_of cat))))"
    "\<not> shouldWork s'" "fs s' = fs s" "\<not> locked s'" "no_oom s'"
  using assms
proof (induction bufs arbitrary: s F thesis)
  case Nil
  then show ?case by (intro Nil(1)[of "s\<lparr>shouldWork := False\<rparr>" "{}"]) (simp_all add: stop_working_def no_oom_def)
next
  case (Cons b bufs)
  let ?pkt = "pk (health_of cat)"
  have b: "b \<noteq> []" "unpack (take (length b - 1) b) \<noteq> None" using Cons.prems(6) by simp_all
  have c: "can_send s (4 + length ?pkt + length bufs * (4 + length ?pkt))" using Cons.prems(7) by simp
  obtain q s1 where one: "answer_message unpack ps pk b s = Inr (True, s1)"
    and rel1: "storage_rel s1 rs cat (insert q F)" and q: "q \<notin> F"
    and c1: "can_send s1 (length bufs * (4 + length ?pkt))" and pre1: "\<not> locked s1" "no_oom s1"
    and w1: "wire s1 = wire s @ frame ?pkt" and k1: "shouldWork s1 = shouldWork s" "fs s1 = fs s"
    by (rule answer_message_run[where buffer = b and unpack = unpack and n = "length bufs * (4 + length ?pkt)",
          OF Cons.prems(2-5) b(2) c])
  have bufs: "\<forall>b \<in> set bufs. b \<noteq> [] \<and> unpack (take (length b - 1) b) \<noteq> None" using Cons.prems(6) by simp
  have work1: "shouldWork s1" using Cons.prems(8) k1 by simp
  have fin: "finite (insert q F)" using Cons.prems(9) by simp
  show ?case
  proof (rule Cons.IH[OF _ rel1 pre1 Cons.prems(5) bufs c1 work1 fin])
    fix L s'
    assume run: "receive_messages unpack ps pk (map Received bufs @ [Received []]) s1 = Inr ((), s')"
      and rel': "storage_rel s' rs cat (L \<union> insert q F)" and L: "finite L" "card L = length bufs"
        "L \<inter> insert q F = {}"
      and w: "wire s' = wire s1 @ concat (map frame (replicate (length bufs) ?pkt))"
      and k: "\<not> shouldWork s'" "fs s' = fs s1" "\<not> locked s'" "no_oom s'"
    show thesis
    proof (rule Cons.prems(1)[of s' "insert q L"])
      show "receive_messages unpack ps pk (map Received (b # bufs) @ [Received []]) s = Inr ((), s')"
        using one run b Cons.prems(8) by (simp add: cbind_def)
      show "storage_rel s' rs cat (insert q L \<union> F)" using rel' by (simp add: Un_insert_right)
      show "card (insert q L) = length (b # bufs)" using L by auto
    qed (use L q w w1 k k1 in auto)
  qed
qed

text \<open>The join message goes out as one frame, and its buffer is freed.\<close>

lemma send_initial_run:
  assumes ok: "heap_ok s" and mem: "no_oom s" and len: "packs_to_size ps pk"
    and send: "can_send s (4 + length (pk MsgJoin) + n)"
  obtains r where "send_initial_message ps pk s
      = Inr ((), s\<lparr>send_answers := r, wire := wire s @ frame (pk MsgJoin), brk := Suc (brk s)\<rparr>)"
    "eager r" "n \<le> credits r"
proof -
  let ?pkt = "pk MsgJoin" and ?q = "brk s"
  let ?s1 = "\<lambda>b. s\<lparr>mem := (mem s)(?q \<mapsto> b), brk := Suc ?q\<rparr>"
  have q: "?q \<noteq> NULL" "mem s ?q = None" using ok heap_ok_fresh by (auto simp: heap_ok_def)
  have l: "ps MsgJoin = length ?pkt" using len by (simp add: packs_to_size_def)
  have "malloc_block (ByteB (replicate (length ?pkt) None)) s = Inr (?q, ?s1 (ByteB (replicate (length ?pkt) None)))"
    using mem by (simp add: malloc_block_def no_oom_def)
  moreover have "copy_bytes ?q 0 ?pkt (?s1 (ByteB (replicate (length ?pkt) None)))
      = Inr ((), ?s1 (ByteB (map Some ?pkt)))" using q by (subst copy_all_bytes) auto
  ultimately have join: "join_message ps pk s = Inr ((?q, length ?pkt), ?s1 (ByteB (map Some ?pkt)))"
    by (simp add: join_message_def cbind_Inr l Let_def)
  have b: "mem (?s1 (ByteB (map Some ?pkt))) ?q = Some (ByteB (map Some ?pkt))"
    and c: "can_send (?s1 (ByteB (map Some ?pkt))) (4 + length ?pkt + n)" using send by (simp_all add: can_send_def)
  obtain t r where h: "send_bytes (htonl_bytes (length ?pkt)) (?s1 (ByteB (map Some ?pkt))) = Inr (True, t)"
    and p: "send_all ?q (length ?pkt) t = Inr (True, (?s1 (ByteB (map Some ?pkt)))\<lparr>send_answers := r,
        wire := wire (?s1 (ByteB (map Some ?pkt))) @ frame ?pkt\<rparr>)"
    and r: "eager r" "n \<le> credits r" by (rule send_frame_run[OF q(1) b c])
  have "(mem s)(?q := None) = mem s" using q by auto
  then have "send_initial_message ps pk s
      = Inr ((), s\<lparr>send_answers := r, wire := wire s @ frame (pk MsgJoin), brk := Suc (brk s)\<rparr>)"
    using join h p q by (simp add: send_initial_message_def cbind_def c_free_def)
  then show thesis using r by (rule that)
qed

end
