(* ===== verification/Heap_Frames.thy ===== *)
theory Heap_Frames
  imports State_Encoding
begin

text \<open>
  What the operations of the catalogue leave alone in every outcome, whatever state they
  start in: all that is not heap, catalogue or mutex. The rules follow the monad, so a new
  operation is covered by its own shape.
\<close>

text \<open>\<open>keeps p m\<close>: a run of \<open>m\<close> that returns has not changed \<open>p\<close>.\<close>

definition keeps :: "('s \<Rightarrow> 'p) \<Rightarrow> ('s, 'a) cm \<Rightarrow> bool" where
  "keeps p m \<longleftrightarrow> (\<forall>s x s'. m s = Inr (x, s') \<longrightarrow> p s' = p s)"

named_theorems keeps_rules \<open>what keeps the part of the state that is not heap\<close>

lemma keepsD: "keeps p m \<Longrightarrow> m s = Inr (x, s') \<Longrightarrow> p s' = p s"
  by (auto simp: keeps_def)

lemma keeps_cret [keeps_rules]: "keeps p (cret x)"
  by (simp add: keeps_def)

lemma keeps_cfail [keeps_rules]: "keeps p (cfail e)"
  by (simp add: keeps_def)

lemma keeps_cget [keeps_rules]: "keeps p (cget f)"
  by (simp add: keeps_def)

lemma keeps_cput: "(\<And>s. p (f s) = p s) \<Longrightarrow> keeps p (cput f)"
  by (simp add: keeps_def)

lemma keeps_cbind [keeps_rules]:
  assumes "keeps p m" "\<And>x. keeps p (f x)"
  shows "keeps p (cbind m f)"
  unfolding keeps_def
proof (intro allI impI)
  fix s x s'
  assume "cbind m f s = Inr (x, s')"
  then obtain y t where "m s = Inr (y, t)" "f y t = Inr (x, s')" using cbind_InrD by fastforce
  then show "p s' = p s" using assms by (metis keepsD)
qed

lemma keeps_if [keeps_rules]: "(b \<Longrightarrow> keeps p m) \<Longrightarrow> (\<not> b \<Longrightarrow> keeps p n) \<Longrightarrow> keeps p (if b then m else n)"
  by simp

lemma keeps_option [keeps_rules]:
  "keeps p m \<Longrightarrow> (\<And>x. keeps p (f x)) \<Longrightarrow> keeps p (case x of None \<Rightarrow> m | Some y \<Rightarrow> f y)"
  by (cases x) simp_all

lemma keeps_prod [keeps_rules]: "(\<And>x y. keeps p (f x y)) \<Longrightarrow> keeps p (case z of (x, y) \<Rightarrow> f x y)"
  by (cases z) simp

lemma keeps_for_up [keeps_rules]: "(\<And>i. keeps p (f i)) \<Longrightarrow> keeps p (for_up a k f)"
  by (induction k arbitrary: a) (simp_all add: keeps_rules)

lemma keeps_collect_up [keeps_rules]: "(\<And>i. keeps p (f i)) \<Longrightarrow> keeps p (collect_up a k f)"
  by (induction k arbitrary: a) (simp_all add: keeps_rules)

lemma keeps_block [keeps_rules]:
  "(\<And>x. keeps p (f1 x)) \<Longrightarrow> (\<And>x. keeps p (f2 x)) \<Longrightarrow> (\<And>x. keeps p (f3 x)) \<Longrightarrow> (\<And>x. keeps p (f4 x)) \<Longrightarrow>
   (\<And>x. keeps p (f5 x)) \<Longrightarrow> (\<And>x. keeps p (f6 x)) \<Longrightarrow> (\<And>x. keeps p (f7 x)) \<Longrightarrow>
   (\<And>x. keeps p (f8 x)) \<Longrightarrow> keeps p f9 \<Longrightarrow> (\<And>x. keeps p (f10 x)) \<Longrightarrow>
   keeps p (case b of StrB x \<Rightarrow> f1 x | IntB x \<Rightarrow> f2 x | RecB x \<Rightarrow> f3 x | ByteB x \<Rightarrow> f4 x
     | ConnB x \<Rightarrow> f5 x | MapB x \<Rightarrow> f6 x | PtrB x \<Rightarrow> f7 x | MsgB x \<Rightarrow> f8 x
     | StateB \<Rightarrow> f9 | ArgsB x \<Rightarrow> f10 x)"
  by (cases b) simp_all

section \<open>The heap\<close>

abbreviation rest :: "'h StorageStateOuter_scheme \<Rightarrow> 'h" where
  "rest \<equiv> StorageStateOuter.more"

lemma keeps_heap [keeps_rules]:
  "keeps rest (malloc_block b)" "keeps rest (c_free p)" "keeps rest (load p)"
  "keeps rest (realloc_block p b n)" "keeps rest (store p b)" "keeps rest (strdup str)"
  "keeps q (read_elem xs i)" "keeps q (int_succ c)"
  by (auto simp: keeps_def malloc_block_def c_free_def load_def realloc_block_def store_def strdup_def
      read_elem_def int_succ_def split: if_splits option.splits)

lemma keeps_typed [keeps_rules]:
  "keeps rest (load_str p)" "keeps rest (load_recs p)" "keeps rest (load_ints p)" "keeps rest (load_ptrs p)"
  "keeps rest (read_rec p i)" "keeps rest (write_rec p i r)" "keeps rest (read_int p i)"
  "keeps rest (write_int p i x)" "keeps rest (read_ptr p i)" "keeps rest (write_ptr p i q)"
  "keeps rest (read_mapping p)" "keeps rest (write_mapping p m)" "keeps rest (copy_bytes p n bs)"
  unfolding load_str_def load_recs_def load_ints_def load_ptrs_def read_rec_def write_rec_def read_int_def
    write_int_def read_ptr_def write_ptr_def read_mapping_def write_mapping_def copy_bytes_def
  by (intro keeps_rules)+

section \<open>The catalogue\<close>

lemma keeps_mutex [keeps_rules]: "keeps rest mutex_lock" "keeps rest mutex_unlock"
  by (auto simp: keeps_def mutex_lock_def mutex_unlock_def split: if_splits)

lemma keeps_find [keeps_rules]: "keeps rest (find_file_index base path i k)"
  by (induction k arbitrary: i) (simp_all add: keeps_rules)

lemma keeps_catalogue [keeps_rules]:
  "keeps rest print_storage_state" "keeps rest (push_chunk_id base i c)" "keeps rest (new_file_slot path)"
  "keeps rest (insert_to_struct path c has)" "keeps rest (remove_from_struct path)"
proof -
  show p: "keeps rest print_storage_state"
    unfolding print_storage_state_def read_file_entry_def by (intro keeps_rules)
  show q: "keeps rest (push_chunk_id base i c)" for base i c
    unfolding push_chunk_id_def by (intro keeps_rules)
  show n: "keeps rest (new_file_slot path)" for path
    unfolding new_file_slot_def by (intro keeps_rules keeps_cput) simp_all
  show "keeps rest (insert_to_struct path c has)"
    unfolding insert_to_struct_def by (intro keeps_rules p q n)
  have d: "keeps rest (drop_file_at base i k)" for base i k
    unfolding drop_file_at_def shift_files_def by (intro keeps_rules)
  have s: "keeps rest (shrink_files base k)" for base k
    unfolding shrink_files_def by (intro keeps_rules keeps_cput p) simp_all
  show "keeps rest (remove_from_struct path)"
    unfolding remove_from_struct_def by (intro keeps_rules d s)
qed

lemma keeps_report [keeps_rules]:
  "keeps rest snapshot_mappings" "keeps rest (pack_mappings ps pk arr n)" "keeps rest (release_mappings arr)"
  unfolding snapshot_mappings_def new_mapping_def pack_mappings_def read_health_def read_mapping_at_def
    release_mappings_def
  by (intro keeps_rules)+

end
