(* ===== verification/Node_Threads.thy ===== *)
theory Node_Threads
  imports Master_Link Store_Spec Heap_Frames
begin

text \<open>
  The start and the end of main.c, and its thread of the link: \<open>receive_messages\<close> in its
  steps, one for each stretch of its code between two accesses to what the threads share.
  Node_Program has it run together with the HTTP server.
\<close>

section \<open>Start and end of the program\<close>

definition main_start ::
  "packed_size \<Rightarrow> packer \<Rightarrow> int \<Rightarrow> int \<Rightarrow> int \<Rightarrow> ('h, ptr \<times> ptr) tm" where
  "main_start get_packed_size pack socket_result pton_result connect_result =
     cbind (cput (\<lambda>s. s\<lparr>shouldWork := True\<rparr>)) (\<lambda>_.
     cbind (malloc_block StateB) (\<lambda>storage_state.
     cbind (load storage_state) (\<lambda>_.
     cbind storage_state_init (\<lambda>_.
     cbind (create_socket socket_result) (\<lambda>socket_fd.
     cbind (connect_to_server pton_result connect_result) (\<lambda>_.
     cbind (send_initial_message get_packed_size pack) (\<lambda>_.
     cbind (malloc_block (ArgsB None)) (\<lambda>args_tcp.
     cbind (load args_tcp) (\<lambda>_.
     cbind (store args_tcp (ArgsB (Some \<lparr>arg_socket_fd = socket_fd, arg_state = storage_state\<rparr>))) (\<lambda>_.
     cret (storage_state, args_tcp)))))))))))"

text \<open>
  After both threads have ended: \<open>cleanup\<close> closes the socket, the arguments are freed and
  the catalogue is destroyed; the object it was in is not freed.
\<close>

definition main_end :: "ptr \<Rightarrow> ptr \<Rightarrow> ('h, unit) tm" where
  "main_end storage_state args_tcp =
     cbind (c_free args_tcp) (\<lambda>_. cbind (load storage_state) (\<lambda>_. storage_state_destroy))"

section \<open>The thread of the link\<close>

text \<open>
  Where \<open>receive_messages\<close> is: at the head of its loop, in \<open>recv\<close>, with a message
  decoded, with the mappings taken under the mutex, with the report packed, with only the
  report left to send, or at its end.
\<close>

datatype tcp_pc =
    Receiving
  | Waiting
  | Decoded
  | Snapped ptr nat
  | Packed ptr ptr nat
  | Sending ptr nat
  | TcpDone

text \<open>The next step; the answer of \<open>recv\<close> is used where the thread waits for it.\<close>

fun tcp_next ::
  "(byte list \<Rightarrow> MessageFromMasterToStorage option) \<Rightarrow> packed_size \<Rightarrow> packer \<Rightarrow> recv_answer \<Rightarrow> tcp_pc
    \<Rightarrow> ('h, tcp_pc) tm" where
  "tcp_next unpack ps pk a Receiving =
     cbind (cget shouldWork) (\<lambda>work.
     if work then cret Waiting else cbind stop_working (\<lambda>_. cret TcpDone))"
| "tcp_next unpack ps pk a Waiting =
     (case a of
        RecvFailed \<Rightarrow> cbind stop_working (\<lambda>_. cret TcpDone)
      | Received buffer \<Rightarrow>
          if buffer = [] then cbind stop_working (\<lambda>_. cret TcpDone)
          else
            cbind (unpack_message unpack (take (length buffer - 1) buffer)) (\<lambda>msg.
            if msg = NULL then cbind stop_working (\<lambda>_. cret TcpDone) else cret Decoded))"
| "tcp_next unpack ps pk a Decoded = cbind snapshot_mappings (\<lambda>(arr, n). cret (Snapped arr n))"
| "tcp_next unpack ps pk a (Snapped arr n) =
     cbind (pack_mappings ps pk arr n) (\<lambda>(buf, len). cret (Packed arr buf len))"
| "tcp_next unpack ps pk a (Packed arr buf len) = cbind (release_mappings arr) (\<lambda>_. cret (Sending buf len))"
| "tcp_next unpack ps pk a (Sending buf len) =
     cbind (send_report buf len) (\<lambda>go_on. cret (if go_on then Receiving else TcpDone))"
| "tcp_next unpack ps pk a TcpDone = cfail Blocked"

text \<open>The steps one after the other are \<open>receive_messages\<close> itself.\<close>

primrec tcp_nexts ::
  "(byte list \<Rightarrow> MessageFromMasterToStorage option) \<Rightarrow> packed_size \<Rightarrow> packer \<Rightarrow> recv_answer \<Rightarrow> nat \<Rightarrow> tcp_pc
    \<Rightarrow> ('h, tcp_pc) tm" where
  "tcp_nexts unpack ps pk a 0 t = cret t"
| "tcp_nexts unpack ps pk a (Suc n) t =
     (if t = TcpDone then cret t else cbind (tcp_next unpack ps pk a t) (tcp_nexts unpack ps pk a n))"

lemma tcp_nexts_receive:
  "receive_messages unpack ps pk (a # answers) =
     cbind (tcp_nexts unpack ps pk a 6 Receiving) (\<lambda>t.
     if t = TcpDone then cret () else receive_messages unpack ps pk answers)"
proof (rule ext)
  fix s :: "'a tcp_node_scheme"
  show "receive_messages unpack ps pk (a # answers) s =
     cbind (tcp_nexts unpack ps pk a 6 Receiving) (\<lambda>t.
     if t = TcpDone then cret () else receive_messages unpack ps pk answers) s"
    by (auto simp: cbind_def numeral_eq_Suc answer_message_def return_current_state_encoded_in_protobufs_def
        stop_working_def split: recv_answer.split sum.split)
qed

section \<open>What each point of a report knows of the heap\<close>

text \<open>
  \<open>R\<close> are the blocks of the report, \<open>bs\<close> its bytes: those of the catalogue when
  it was packed.
\<close>

fun report_at ::
  "packer \<Rightarrow> tcp_pc \<Rightarrow> (ptr \<Rightarrow> block option) \<Rightarrow> file_rec list \<Rightarrow> catalogue \<Rightarrow> byte list \<Rightarrow> ptr set \<Rightarrow> bool" where
  "report_at pk (Snapped arr n) m rs cat bs R \<longleftrightarrow>
     (\<exists>fms. R = snapshot_blocks arr fms \<and> snapshot_ok m arr fms rs \<and> distinct (arr # fms)) \<and> n = length cat"
| "report_at pk (Packed arr buf len) m rs cat bs R \<longleftrightarrow>
     (\<exists>fms. R = insert buf (snapshot_blocks arr fms) \<and> snapshot_ok m arr fms rs \<and> distinct (arr # fms) \<and>
        buf \<notin> snapshot_blocks arr fms) \<and>
     bs = pk (health_of cat) \<and> m buf = Some (ByteB (map Some bs)) \<and> len = length bs"
| "report_at pk (Sending buf len) m rs cat bs R \<longleftrightarrow>
     R = {buf} \<and> m buf = Some (ByteB (map Some bs)) \<and> len = length bs"
| "report_at pk _ m rs cat bs R \<longleftrightarrow> R = {}"

text \<open>The report is made from the catalogue: it must not change.\<close>

fun mid_report :: "tcp_pc \<Rightarrow> bool" where
  "mid_report (Snapped arr n) \<longleftrightarrow> True"
| "mid_report (Packed arr buf len) \<longleftrightarrow> True"
| "mid_report _ \<longleftrightarrow> False"

lemma report_at_any: "\<not> mid_report t \<Longrightarrow> report_at pk t m rs' cat' bs R = report_at pk t m rs cat bs R"
  by (cases t) simp_all

lemma snapshot_ok_cong:
  assumes "\<And>p. p \<in> snapshot_blocks arr fms \<Longrightarrow> m' p = m p" "snapshot_ok m arr fms rs"
  shows "snapshot_ok m' arr fms rs"
proof (cases "rs = []")
  case True
  then show ?thesis using assms(2) by (simp add: snapshot_ok_def mappings_ok_def)
next
  case False
  then have arr: "arr \<noteq> NULL" "m arr = Some (PtrB (map Some fms))" "mappings_ok m fms rs"
    using assms(2) by (simp_all add: snapshot_ok_def)
  then have same: "m' p = m p" if "p = arr \<or> p \<in> set fms" for p
    using that by (intro assms(1)) (auto simp: snapshot_blocks_def)
  then have "mappings_ok m' fms rs" using arr(3) mappings_ok_cong[of m fms rs m'] by blast
  then show ?thesis using same False arr by (simp add: snapshot_ok_def)
qed

lemma report_at_cong:
  assumes "\<And>p. p \<in> R \<Longrightarrow> m' p = m p" "report_at pk t m rs cat bs R"
  shows "report_at pk t m' rs cat bs R"
  using assms by (cases t) (auto intro: snapshot_ok_cong[where m = m])

text \<open>\<open>X\<close> are the blocks that belong to others.\<close>

definition tcp_ok ::
  "packer \<Rightarrow> tcp_pc \<Rightarrow> file_rec list \<Rightarrow> catalogue \<Rightarrow> byte list \<Rightarrow> ptr set \<Rightarrow> ptr set \<Rightarrow> 'h tcp_node_scheme \<Rightarrow> bool" where
  "tcp_ok pk t rs cat bs R X s \<longleftrightarrow>
     storage_rel s rs cat (R \<union> X) \<and> R \<inter> X = {} \<and> report_at pk t (mem s) rs cat bs R \<and> \<not> locked s \<and> no_oom s"

lemma no_oom_net [simp]: "no_oom (s\<lparr>shouldWork := b\<rparr>) = no_oom s"
  by (simp add: no_oom_def)

lemma tcp_ok_work [simp]: "tcp_ok pk t rs cat bs R X (s\<lparr>shouldWork := b\<rparr>) = tcp_ok pk t rs cat bs R X s"
  by (simp add: tcp_ok_def)

text \<open>What a step of the link leaves: the blocks of others, and the disk.\<close>

definition tcp_frame :: "ptr set \<Rightarrow> 'h tcp_node_scheme \<Rightarrow> 'h tcp_node_scheme \<Rightarrow> bool" where
  "tcp_frame X s s' \<longleftrightarrow> (\<forall>p \<in> X. mem s' p = mem s p) \<and> fs s' = fs s"

lemma tcp_frame_hframe: "hframe X s s' \<Longrightarrow> tcp_frame X s s'"
  using net_frame(4)[of X s s'] by (simp add: tcp_frame_def hframe_def)

section \<open>The steps of a report\<close>

lemma next_received:
  assumes ok: "tcp_ok pk Waiting rs cat bs R X s" and msg: "unpack (take (length buffer - 1) buffer) = Some x"
    and buf: "buffer \<noteq> []"
  shows "\<exists>q s'. tcp_next unpack ps pk (Received buffer) Waiting s = Inr (Decoded, s') \<and>
    tcp_ok pk Decoded rs cat bs {} (insert q X) s' \<and> q \<notin> X \<and> (\<exists>msg. mem s' q = Some (MsgB (Some msg))) \<and>
    tcp_frame X s s' \<and> wire s' = wire s \<and> shouldWork s' = shouldWork s"
proof -
  let ?b = "MsgB (Some \<lparr>base_descriptor = MasterDescriptor, payload = MasterP x\<rparr>)"
  let ?s' = "s\<lparr>mem := (mem s)(brk s \<mapsto> ?b), brk := Suc (brk s)\<rparr>"
  have rel: "storage_rel s rs cat X" using ok by (auto simp: tcp_ok_def)
  have new: "brk s \<notin> X" using storage_rel_F_old[OF rel] by blast
  have pos: "brk s \<noteq> NULL" using rel by (auto simp: storage_rel_def heap_ok_def)
  have "tcp_next unpack ps pk (Received buffer) Waiting s = Inr (Decoded, ?s')"
    using ok msg buf pos by (simp add: tcp_ok_def unpack_message_def malloc_block_def no_oom_def cbind_def)
  moreover have "tcp_ok pk Decoded rs cat bs {} (insert (brk s) X) ?s'"
    using ok storage_rel_alloc[OF rel, of ?b] by (simp add: tcp_ok_def no_oom_def)
  moreover have "tcp_frame X s ?s'" using new by (simp add: tcp_frame_def)
  ultimately show ?thesis using new by (intro exI[of _ "brk s"] exI[of _ ?s']) simp
qed

lemma next_decoded:
  assumes ok: "tcp_ok pk Decoded rs cat bs R X s"
  shows "\<exists>arr s' R'. tcp_next unpack ps pk a Decoded s = Inr (Snapped arr (length cat), s') \<and>
    tcp_ok pk (Snapped arr (length cat)) rs cat bs R' X s' \<and> hframe X s s'"
proof -
  have rel: "storage_rel s rs cat X" and pre: "\<not> locked s" "no_oom s" using ok by (auto simp: tcp_ok_def)
  obtain arr fms s' where run: "snapshot_mappings s = Inr ((arr, length cat), s')"
    and out: "storage_rel s' rs cat (snapshot_blocks arr fms \<union> X)" "snapshot_ok (mem s') arr fms rs"
      "distinct (arr # fms)" "snapshot_blocks arr fms \<inter> X = {}" and fr: "hframe X s s'"
    by (rule snapshot_run[OF rel pre])
  have "tcp_ok pk (Snapped arr (length cat)) rs cat bs (snapshot_blocks arr fms) X s'"
    using out fr pre by (auto simp: tcp_ok_def hframe_def no_oom_def)
  moreover have "tcp_next unpack ps pk a Decoded s = Inr (Snapped arr (length cat), s')" using run by (simp add: cbind_def)
  ultimately show ?thesis using fr by blast
qed

lemma next_snapped:
  assumes ok: "tcp_ok pk (Snapped arr n) rs cat bs R X s" and len: "packs_to_size ps pk"
  shows "\<exists>buf l s' R'. tcp_next unpack ps pk a (Snapped arr n) s = Inr (Packed arr buf l, s') \<and>
    tcp_ok pk (Packed arr buf l) rs cat (pk (health_of cat)) R' X s' \<and> hframe X s s'"
proof -
  obtain fms where rel: "storage_rel s rs cat (snapshot_blocks arr fms \<union> X)" and R: "R = snapshot_blocks arr fms"
    and snap: "snapshot_ok (mem s) arr fms rs" and dist: "distinct (arr # fms)"
    and disj: "snapshot_blocks arr fms \<inter> X = {}" and n: "n = length cat"
    using ok by (auto simp: tcp_ok_def)
  have oom: "\<not> oom s (brk s)" using ok by (simp add: tcp_ok_def no_oom_def)
  let ?bs = "pk (health_of cat)"
  let ?s' = "s\<lparr>mem := (mem s)(brk s \<mapsto> ByteB (map Some ?bs)), brk := Suc (brk s)\<rparr>"
  note run = pack_mappings_run[OF rel snap _ len oom, simplified]
  have new: "brk s \<notin> snapshot_blocks arr fms \<union> X" using storage_rel_F_old[OF rel] by blast
  have "tcp_ok pk (Packed arr (brk s) (ps (health_of cat))) rs cat ?bs (insert (brk s) R) X ?s'"
    using run(2,3) dist disj len new ok R by (auto simp: tcp_ok_def packs_to_size_def no_oom_def)
  moreover have "hframe X s ?s'" using new by (auto simp: hframe_def)
  moreover have "tcp_next unpack ps pk a (Snapped arr n) s = Inr (Packed arr (brk s) (ps (health_of cat)), ?s')"
    using run(1) n by (simp add: cbind_def)
  ultimately show ?thesis by blast
qed

lemma next_packed:
  assumes ok: "tcp_ok pk (Packed arr buf l) rs cat bs R X s"
  shows "\<exists>s' R'. tcp_next unpack ps pk a (Packed arr buf l) s = Inr (Sending buf l, s') \<and>
    tcp_ok pk (Sending buf l) rs cat bs R' X s' \<and> hframe X s s'"
proof -
  obtain fms where R: "R = insert buf (snapshot_blocks arr fms)" and rel: "storage_rel s rs cat (R \<union> X)"
    and snap: "snapshot_ok (mem s) arr fms rs" and dist: "distinct (arr # fms)"
    and disj: "R \<inter> X = {}" and buf: "buf \<notin> snapshot_blocks arr fms" "mem s buf = Some (ByteB (map Some bs))" "l = length bs"
    using ok by (auto simp: tcp_ok_def)
  have "R \<union> X = snapshot_blocks arr fms \<union> insert buf X" using R by blast
  with rel have rel: "storage_rel s rs cat (snapshot_blocks arr fms \<union> insert buf X)" by simp
  have disj': "snapshot_blocks arr fms \<inter> insert buf X = {}" using disj buf(1) R by blast
  obtain s' where run: "release_mappings arr s = Inr ((), s')" and rel': "storage_rel s' rs cat (insert buf X)"
    and fr: "hframe (insert buf X) s s'" by (rule release_run[OF rel snap dist disj'])
  have "tcp_ok pk (Sending buf l) rs cat bs {buf} X s'"
    using rel' buf fr disj R ok by (auto simp: tcp_ok_def hframe_def no_oom_def)
  moreover have "hframe X s s'" using fr by (simp add: hframe_def)
  moreover have "tcp_next unpack ps pk a (Packed arr buf l) s = Inr (Sending buf l, s')" using run by (simp add: cbind_def)
  ultimately show ?thesis by blast
qed

text \<open>Whatever the kernel answers, a prefix of the bytes goes out, all of them exactly on success.\<close>

lemma send_bytes_cases:
  "send_bytes x t = Inl Blocked \<or>
   (\<exists>ok r k. send_bytes x t = Inr (ok, t\<lparr>send_answers := r, wire := wire t @ take k x\<rparr>) \<and> (ok \<longrightarrow> length x \<le> k))"
proof -
  obtain r rest out where run: "send_loop x 0 (send_answers t) (wire t) = (r, rest, out)"
    by (cases "send_loop x 0 (send_answers t) (wire t)")
  from send_loop_sent[OF this] obtain k where k: "out = wire t @ take k x" "r = Some True \<longleftrightarrow> k = length x" by auto
  show ?thesis
  proof (cases r)
    case None
    then show ?thesis using run by (simp add: send_bytes_def)
  next
    case (Some ok)
    then have "send_bytes x t = Inr (ok, t\<lparr>send_answers := rest, wire := wire t @ take k x\<rparr>)"
      using run k by (simp add: send_bytes_def)
    moreover have "ok \<longrightarrow> length x \<le> k" using k Some by simp
    ultimately show ?thesis by blast
  qed
qed

text \<open>The outcomes of sending a report: it waits, the program exits, or the report is freed.\<close>

lemma send_report_cases:
  assumes buf: "buf \<noteq> NULL" "mem s buf = Some (ByteB (map Some bs))"
  shows "send_report buf (length bs) s \<in> {Inl Blocked, Inl ExitFailure} \<or>
    (\<exists>r. send_report buf (length bs) s
      = Inr (True, s\<lparr>mem := (mem s)(buf := None), send_answers := r, wire := wire s @ frame bs\<rparr>)) \<or>
    (\<exists>r k. send_report buf (length bs) s
      = Inr (False, s\<lparr>mem := (mem s)(buf := None), send_answers := r, wire := wire s @ take k (frame bs), shouldWork := False\<rparr>))"
proof -
  let ?len = "htonl_bytes (length bs)"
  have all: "send_all buf (length bs) t = send_bytes bs t" if "mem t buf = mem s buf" for t :: "'a tcp_node_scheme"
  proof -
    have "(if length bs = 0 then cret [] else load_bytes buf (length bs)) t = Inr (bs, t)"
      by (rule load_bytes_block[OF buf(1)]) (use that buf(2) in simp)
    then show ?thesis unfolding send_all_def cbind_def by simp
  qed
  have free: "c_free buf t = Inr ((), t\<lparr>mem := (mem t)(buf := None)\<rparr>)" if "mem t buf = mem s buf" for t :: "'a tcp_node_scheme"
    using that buf by (simp add: c_free_def)
  from send_bytes_cases[of ?len s] show ?thesis
  proof (elim disjE exE conjE)
    assume "send_bytes ?len s = Inl Blocked"
    then show ?thesis by (simp add: send_report_def cbind_def)
  next
    fix ok r k
    assume one: "send_bytes ?len s = Inr (ok, s\<lparr>send_answers := r, wire := wire s @ take k ?len\<rparr>)" and k: "ok \<longrightarrow> length ?len \<le> k"
    show ?thesis
    proof (cases ok)
      case False
      then show ?thesis using one by (simp add: send_report_def cbind_def free)
    next
      case True
      let ?t = "s\<lparr>send_answers := r, wire := wire s @ ?len\<rparr>"
      have one: "send_bytes ?len s = Inr (True, ?t)" using one k True by simp
      from send_bytes_cases[of bs ?t] show ?thesis
      proof (elim disjE exE conjE)
        assume "send_bytes bs ?t = Inl Blocked"
        then show ?thesis using one by (simp add: send_report_def cbind_def all)
      next
        fix ok' r' k'
        assume two: "send_bytes bs ?t = Inr (ok', ?t\<lparr>send_answers := r', wire := wire ?t @ take k' bs\<rparr>)"
          and k': "ok' \<longrightarrow> length bs \<le> k'"
        let ?u = "?t\<lparr>send_answers := r', wire := wire ?t @ take k' bs\<rparr>"
        have a: "send_all buf (length bs) ?t = Inr (ok', ?u)" using all[of ?t] two by simp
        have f: "c_free buf ?u = Inr ((), ?u\<lparr>mem := (mem s)(buf := None)\<rparr>)" using free[of ?u] by simp
        have run: "send_report buf (length bs) s = (if ok' then Inr (True, ?u\<lparr>mem := (mem s)(buf := None)\<rparr>)
            else Inr (False, ?u\<lparr>mem := (mem s)(buf := None), shouldWork := False\<rparr>))"
          using one a f by (simp add: send_report_def cbind_def stop_working_def)
        have w: "wire s @ ?len @ take k' bs = wire s @ take (4 + k') (frame bs)" by (simp add: frame_def)
        show ?thesis
        proof (cases ok')
          case True
          then show ?thesis using run k' by (intro disjI2 disjI1 exI[of _ r']) (simp add: frame_def)
        next
          case False
          then show ?thesis using run w by (intro disjI2 exI[of _ r'] exI[of _ "4 + k'"]) simp
        qed
      qed
    qed
  qed
qed

lemma next_sending:
  assumes ok: "tcp_ok pk (Sending buf l) rs cat bs R X s"
  shows "tcp_next unpack ps pk a (Sending buf l) s \<in> {Inl Blocked, Inl ExitFailure} \<or>
    (\<exists>s'. tcp_next unpack ps pk a (Sending buf l) s = Inr (Receiving, s') \<and> tcp_ok pk Receiving rs cat bs {} X s' \<and>
       tcp_frame X s s' \<and> wire s' = wire s @ frame bs \<and> shouldWork s' = shouldWork s) \<or>
    (\<exists>s' k. tcp_next unpack ps pk a (Sending buf l) s = Inr (TcpDone, s') \<and> tcp_ok pk TcpDone rs cat bs {} X s' \<and>
       tcp_frame X s s' \<and> wire s' = wire s @ take k (frame bs) \<and> \<not> shouldWork s')"
proof -
  have rel: "storage_rel s rs cat (insert buf X)" and buf: "buf \<notin> X" "mem s buf = Some (ByteB (map Some bs))"
    and l: "l = length bs" using ok by (auto simp: tcp_ok_def)
  have live: "buf \<noteq> NULL" using storage_rel_F_old(2)[OF rel, of buf] by simp
  have "insert buf X - {buf} = X" using buf(1) by blast
  then have rel': "storage_rel (s\<lparr>mem := (mem s)(buf := None)\<rparr>) rs cat X" using storage_rel_free[OF rel, of buf] by simp
  have freed: "tcp_ok pk t rs cat bs {} X (s\<lparr>mem := (mem s)(buf := None), send_answers := r, wire := w\<rparr>)"
    if "t \<in> {Receiving, TcpDone}" for t r w
    using that rel' ok by (auto simp: tcp_ok_def no_oom_def storage_rel_def heap_ok_def)
  have fr: "tcp_frame X s (s\<lparr>mem := (mem s)(buf := None), send_answers := r, wire := w\<rparr>)"
    "tcp_frame X s (s\<lparr>mem := (mem s)(buf := None), send_answers := r, wire := w, shouldWork := b\<rparr>)" for r w b
    using buf(1) by (auto simp: tcp_frame_def)
  from send_report_cases[OF live buf(2)] show ?thesis
  proof (elim disjE exE)
    assume "send_report buf (length bs) s \<in> {Inl Blocked, Inl ExitFailure}"
    then show ?thesis by (auto simp: cbind_def l)
  next
    fix r
    assume "send_report buf (length bs) s = Inr (True, s\<lparr>mem := (mem s)(buf := None), send_answers := r, wire := wire s @ frame bs\<rparr>)"
    then show ?thesis using freed fr by (intro disjI2 disjI1) (simp add: cbind_def l)
  next
    fix r k
    assume "send_report buf (length bs) s = Inr (False, s\<lparr>mem := (mem s)(buf := None), send_answers := r,
        wire := wire s @ take k (frame bs), shouldWork := False\<rparr>)"
    then show ?thesis using freed fr by (intro disjI2) (auto simp: cbind_def l)
  qed
qed

text \<open>
  All steps at once. A step waits, exits, or keeps what is known; one that takes a message
  leaves it on the heap, in \<open>N\<close>; bytes go out only when a report is sent.
\<close>

fun packed :: "tcp_pc \<Rightarrow> bool" where
  "packed (Packed arr buf len) \<longleftrightarrow> True"
| "packed (Sending buf len) \<longleftrightarrow> True"
| "packed _ \<longleftrightarrow> False"

fun sends :: "tcp_pc \<Rightarrow> bool" where
  "sends (Sending buf len) \<longleftrightarrow> True"
| "sends _ \<longleftrightarrow> False"

fun sent_by :: "tcp_pc \<Rightarrow> byte list \<Rightarrow> tcp_pc \<Rightarrow> byte list \<Rightarrow> bool" where
  "sent_by (Sending buf len) bs t' out \<longleftrightarrow>
     t' = Receiving \<and> out = frame bs \<or> t' = TcpDone \<and> (\<exists>k. out = take k (frame bs))"
| "sent_by _ bs t' out \<longleftrightarrow> out = []"

lemma tcp_next_keeps:
  assumes ok: "tcp_ok pk t rs cat bs R X s" and len: "packs_to_size ps pk"
  shows "(sends t \<or> t = TcpDone) \<and> tcp_next unpack ps pk a t s \<in> {Inl Blocked, Inl ExitFailure} \<or>
    (\<exists>t' s' R' N bs' out. tcp_next unpack ps pk a t s = Inr (t', s') \<and> tcp_ok pk t' rs cat bs' R' (N \<union> X) s' \<and>
       N \<inter> X = {} \<and> (\<forall>p \<in> N. \<exists>msg. mem s' p = Some (MsgB (Some msg))) \<and> tcp_frame X s s' \<and>
       wire s' = wire s @ out \<and> sent_by t bs t' out \<and>
       (packed t' \<longrightarrow> bs' = (if packed t then bs else pk (health_of cat))))" (is "?P t")
proof (cases t)
  case Receiving
  then show ?thesis using ok
    by (cases "shouldWork s") (auto simp: cbind_def stop_working_def tcp_frame_def tcp_ok_def intro!: exI[of _ "{}"])
next
  case Waiting
  have stop: ?thesis if "tcp_next unpack ps pk a t s = Inr (TcpDone, s\<lparr>shouldWork := False\<rparr>)"
    using that ok Waiting
    by (intro disjI2 exI[of _ TcpDone] exI[of _ "s\<lparr>shouldWork := False\<rparr>"] exI[of _ "{}"] exI[of _ "{}"]) (auto simp: tcp_ok_def tcp_frame_def)
  show ?thesis
  proof (cases a)
    case RecvFailed
    then show ?thesis using Waiting by (intro stop) (simp add: cbind_def stop_working_def)
  next
    case (Received buffer)
    show ?thesis
    proof (cases "buffer = [] \<or> unpack (take (length buffer - 1) buffer) = None")
      case True
      then show ?thesis using Waiting Received by (intro stop) (auto simp: cbind_def stop_working_def unpack_message_def)
    next
      case False
      then obtain x where x: "unpack (take (length buffer - 1) buffer) = Some x" "buffer \<noteq> []" by blast
      from next_received[OF ok[unfolded Waiting], of unpack buffer, OF x, of ps]
      obtain q s' where "tcp_next unpack ps pk a t s = Inr (Decoded, s')" "tcp_ok pk Decoded rs cat bs {} (insert q X) s'"
        "q \<notin> X" "\<exists>msg. mem s' q = Some (MsgB (Some msg))" "tcp_frame X s s'" "wire s' = wire s"
        unfolding Received Waiting by blast
      then show ?thesis using Waiting
        by (intro disjI2 exI[of _ Decoded] exI[of _ s'] exI[of _ "{}"] exI[of _ "{q}"]) auto
    qed
  qed
next
  case Decoded
  from next_decoded[OF ok[unfolded Decoded], of unpack ps a]
  obtain arr s' R' where "tcp_next unpack ps pk a t s = Inr (Snapped arr (length cat), s')"
    "tcp_ok pk (Snapped arr (length cat)) rs cat bs R' X s'" "hframe X s s'" unfolding Decoded by blast
  then show ?thesis using Decoded tcp_frame_hframe[of X s s'] net_frame(2)[of X s s']
    by (intro disjI2 exI[of _ "Snapped arr (length cat)"] exI[of _ s'] exI[of _ R'] exI[of _ "{}"]) auto
next
  case (Snapped arr n)
  from next_snapped[OF ok[unfolded Snapped] len, of unpack a]
  obtain buf l s' R' where "tcp_next unpack ps pk a t s = Inr (Packed arr buf l, s')"
    "tcp_ok pk (Packed arr buf l) rs cat (pk (health_of cat)) R' X s'" "hframe X s s'" unfolding Snapped by blast
  then show ?thesis using Snapped tcp_frame_hframe[of X s s'] net_frame(2)[of X s s']
    by (intro disjI2 exI[of _ "Packed arr buf l"] exI[of _ s'] exI[of _ R'] exI[of _ "{}"]) auto
next
  case (Packed arr buf l)
  from next_packed[OF ok[unfolded Packed], of unpack ps a]
  obtain s' R' where "tcp_next unpack ps pk a t s = Inr (Sending buf l, s')"
    "tcp_ok pk (Sending buf l) rs cat bs R' X s'" "hframe X s s'" unfolding Packed by blast
  then show ?thesis using Packed tcp_frame_hframe[of X s s'] net_frame(2)[of X s s']
    by (intro disjI2 exI[of _ "Sending buf l"] exI[of _ s'] exI[of _ R'] exI[of _ "{}"]) auto
next
  case (Sending buf l)
  from next_sending[OF ok[unfolded Sending], of unpack ps a] show ?thesis unfolding Sending
  proof (elim disjE exE conjE)
    fix s'
    assume "tcp_next unpack ps pk a (Sending buf l) s = Inr (Receiving, s')" "tcp_ok pk Receiving rs cat bs {} X s'"
      "tcp_frame X s s'" "wire s' = wire s @ frame bs"
    then show "?P (Sending buf l)" by (intro disjI2 exI[of _ Receiving] exI[of _ s'] exI[of _ "{}"]) auto
  next
    fix s' k
    assume "tcp_next unpack ps pk a (Sending buf l) s = Inr (TcpDone, s')" "tcp_ok pk TcpDone rs cat bs {} X s'"
      "tcp_frame X s s'" "wire s' = wire s @ take k (frame bs)"
    then show "?P (Sending buf l)" by (intro disjI2 exI[of _ TcpDone] exI[of _ s'] exI[of _ "{}"]) auto
  qed simp
next
  case TcpDone
  then show ?thesis by simp
qed

section \<open>The stop flag\<close>

lemma rest_net:
  assumes "rest s' = rest s"
  shows "shouldWork s' = shouldWork s" "fs s' = fs s" "wire s' = wire s" "send_answers s' = send_answers s"
  using assms by (cases s; cases s'; simp)+

lemma keeps_unpack [keeps_rules]: "keeps rest (unpack_message unpack bytes)"
  unfolding unpack_message_def by (intro keeps_rules)

text \<open>Sending tells the other thread to end when it fails, and leaves the flag else.\<close>

lemma keeps_flag: "keeps rest m \<Longrightarrow> keeps shouldWork m"
  unfolding keeps_def using rest_net(1) by blast

lemma keeps_flag_heap [keeps_rules]: "keeps shouldWork (c_free p)" "keeps shouldWork (load_bytes p n)"
proof -
  show "keeps shouldWork (c_free p)" by (intro keeps_flag keeps_rules)
  have "keeps rest (load_bytes p n)" unfolding load_bytes_def by (intro keeps_rules)
  then show "keeps shouldWork (load_bytes p n)" by (rule keeps_flag)
qed

lemma keeps_flag_send [keeps_rules]: "keeps shouldWork (send_bytes x)" "keeps shouldWork (send_all p n)"
proof -
  show bytes: "keeps shouldWork (send_bytes x)" for x
    by (auto simp: keeps_def send_bytes_def split: prod.splits option.splits)
  show "keeps shouldWork (send_all p n)" unfolding send_all_def by (intro keeps_rules bytes)
qed

lemma send_report_flag:
  assumes "send_report buf len s = Inr (go_on, s')"
  shows "shouldWork s' = (go_on \<and> shouldWork s)"
proof -
  obtain ok s1 where one: "send_bytes (htonl_bytes len) s = Inr (ok, s1)"
    using assms by (auto simp: send_report_def cbind_def split: sum.splits)
  have ok: "ok" using assms one by (cases ok; cases "c_free buf s1") (auto simp: send_report_def cbind_def)
  obtain ok2 s2 where two: "send_all buf len s1 = Inr (ok2, s2)"
    using assms one ok by (auto simp: send_report_def cbind_def split: sum.splits)
  obtain s3 where three: "c_free buf s2 = Inr ((), s3)"
    using assms one ok two by (cases ok2; cases "c_free buf s2") (auto simp: send_report_def cbind_def)
  have "shouldWork s3 = shouldWork s"
    using keepsD[OF keeps_flag_send(1) one] keepsD[OF keeps_flag_send(2) two] keepsD[OF keeps_flag_heap(1) three] by simp
  then show ?thesis using assms one two three ok
    by (cases ok2) (auto simp: send_report_def cbind_def stop_working_def)
qed

text \<open>The thread of the link ends with the flag lowered, and never raises it.\<close>

lemma tcp_next_flag:
  assumes "tcp_next unpack ps pk a t s = Inr (t', s')"
  shows "(shouldWork s' \<longrightarrow> shouldWork s) \<and> (t' = TcpDone \<longrightarrow> \<not> shouldWork s')"
proof (cases t)
  case Waiting
  have "shouldWork s' = shouldWork s" if "unpack_message unpack x s = Inr (q, s')" for x q
    using rest_net(1)[OF keepsD[OF keeps_unpack that]] .
  then show ?thesis using assms Waiting
    by (auto simp: cbind_def stop_working_def split: recv_answer.splits if_splits sum.splits)
next
  case Decoded
  then show ?thesis using assms rest_net(1)[OF keepsD[OF keeps_report(1)]] by (fastforce simp: cbind_def split: sum.splits)
next
  case (Snapped arr n)
  then show ?thesis using assms rest_net(1)[OF keepsD[OF keeps_report(2)]] by (fastforce simp: cbind_def split: sum.splits)
next
  case (Packed arr buf len)
  then show ?thesis using assms rest_net(1)[OF keepsD[OF keeps_report(3)]] by (fastforce simp: cbind_def split: sum.splits)
next
  case (Sending buf len)
  then show ?thesis using assms send_report_flag[of buf len s] by (fastforce simp: cbind_def split: sum.splits if_splits)
qed (use assms in \<open>auto simp: cbind_def stop_working_def split: if_splits\<close>)

text \<open>Only the send takes answers of the kernel.\<close>

lemma tcp_next_answers:
  assumes "tcp_next unpack ps pk a t s = Inr (t', s')" "\<not> sends t"
  shows "send_answers s' = send_answers s"
proof (cases t)
  case Waiting
  have "send_answers s1 = send_answers s" if "unpack_message unpack x s = Inr (q, s1)" for x q s1
    using rest_net(4)[OF keepsD[OF keeps_unpack that]] .
  then show ?thesis using assms Waiting
    by (auto simp: cbind_def stop_working_def split: recv_answer.splits if_splits sum.splits)
next
  case Decoded
  then show ?thesis using assms rest_net(4)[OF keepsD[OF keeps_report(1)]] by (fastforce simp: cbind_def split: sum.splits)
next
  case (Snapped arr n)
  then show ?thesis using assms rest_net(4)[OF keepsD[OF keeps_report(2)]] by (fastforce simp: cbind_def split: sum.splits)
next
  case (Packed arr buf len)
  then show ?thesis using assms rest_net(4)[OF keepsD[OF keeps_report(3)]] by (fastforce simp: cbind_def split: sum.splits)
qed (use assms in \<open>auto simp: cbind_def stop_working_def split: if_splits\<close>)

text \<open>A kernel that takes the bytes, and a master that closes the connection: the thread comes to its end.\<close>

lemma next_sending_all:
  assumes ok: "tcp_ok pk (Sending buf l) rs cat bs R X s" and send: "can_send s (4 + length bs)"
  shows "\<exists>s'. tcp_next unpack ps pk a (Sending buf l) s = Inr (Receiving, s')"
proof -
  have rel: "storage_rel s rs cat (insert buf X)" and buf: "mem s buf = Some (ByteB (map Some bs))"
    and l: "l = length bs" using ok by (auto simp: tcp_ok_def)
  have live: "buf \<noteq> NULL" using storage_rel_F_old(2)[OF rel, of buf] by simp
  have send: "can_send s (4 + length bs + 0)" using send by simp
  obtain t r where "send_bytes (htonl_bytes (length bs)) s = Inr (True, t)"
    "send_all buf (length bs) t = Inr (True, s\<lparr>send_answers := r, wire := wire s @ frame bs\<rparr>)"
    by (rule send_frame_run[OF live buf send]) (rule that)
  then show ?thesis using live buf l by (simp add: send_report_def cbind_def c_free_def)
qed

fun steps_left :: "tcp_pc \<Rightarrow> nat" where
  "steps_left Decoded = 6"
| "steps_left (Snapped arr n) = 5"
| "steps_left (Packed arr buf len) = 4"
| "steps_left (Sending buf len) = 3"
| "steps_left Receiving = 2"
| "steps_left Waiting = 1"
| "steps_left TcpDone = 0"

lemma tcp_next_closes: "tcp_next unpack ps pk RecvFailed t s = Inr (t', s') \<Longrightarrow> steps_left t' < steps_left t"
  by (cases t) (auto simp: cbind_def split: sum.splits if_splits)

section \<open>Start and end\<close>

text \<open>
  A start that reaches the threads has sent one join message and has allocated the catalogue's
  object and the threads' arguments; a socket, address or connection that fails, or a master
  that does not take the message, ends the program.
\<close>

definition started :: "ptr \<Rightarrow> ptr \<Rightarrow> (ptr \<Rightarrow> block option) \<Rightarrow> 'h tcp_node_scheme \<Rightarrow> bool" where
  "started st args m s \<longleftrightarrow> storage_rel s [] [] (insert args (insert st (dom m))) \<and> st \<notin> dom m \<and>
     args \<notin> insert st (dom m) \<and> mem s st = Some StateB \<and> (\<exists>a. mem s args = Some (ArgsB (Some a))) \<and>
     (\<forall>p \<in> dom m. mem s p = m p) \<and> shouldWork s \<and> \<not> locked s \<and> no_oom s"

lemma main_start_run:
  assumes heap: "heap_ok s" and mem: "no_oom s" and len: "packs_to_size ps pk"
    and net: "0 \<le> fd" "0 < pton" "0 \<le> conn" and send: "can_send s (4 + length (pk MsgJoin) + n)"
  obtains st args s' where "main_start ps pk fd pton conn s = Inr ((st, args), s')" "started st args (mem s) s'"
    "wire s' = wire s @ frame (pk MsgJoin)" "can_send s' n" "fs s' = fs s"
proof -
  let ?st = "brk s"
  let ?sa = "s\<lparr>shouldWork := True, mem := (mem s)(?st \<mapsto> StateB), brk := Suc ?st\<rparr>"
  let ?s0 = "?sa\<lparr>locked := False, file_to_chunk_state := NULL, num_file_count := 0\<rparr>"
  have st: "?st \<noteq> NULL" "mem s ?st = None" using heap heap_ok_fresh by (auto simp: heap_ok_def)
  have rel0: "storage_rel ?s0 [] [] (insert ?st (dom (mem s)))"
    using heap by (auto simp: storage_rel_def base_ok_def owned_def ptrs_of_def heap_ok_def less_Suc_eq)
  have pre: "heap_ok ?s0" "no_oom ?s0" "can_send ?s0 (4 + length (pk MsgJoin) + n)"
    using rel0 mem send by (simp_all add: storage_rel_def no_oom_def can_send_def)
  obtain r where init: "send_initial_message ps pk ?s0
      = Inr ((), ?s0\<lparr>send_answers := r, wire := wire ?s0 @ frame (pk MsgJoin), brk := Suc (brk ?s0)\<rparr>)"
    (is "_ = Inr ((), ?s1)") and r: "eager r" "n \<le> credits r" by (rule send_initial_run[OF pre(1,2) len pre(3)])
  let ?args = "Suc (Suc ?st)"
  let ?a = "\<lparr>arg_socket_fd = fd, arg_state = ?st\<rparr>"
  let ?s2 = "?s1\<lparr>mem := (mem ?s1)(?args \<mapsto> ArgsB (Some ?a)), brk := Suc ?args\<rparr>"
  have rel1: "storage_rel ?s1 [] [] (insert ?st (dom (mem s)))"
    using storage_rel_brk[OF rel0] by (simp add: storage_rel_def heap_ok_def owned_def ptrs_of_def)
  have "storage_rel ?s2 [] [] (insert ?args (insert ?st (dom (mem s))))"
    using storage_rel_alloc[OF rel1, of "ArgsB (Some ?a)"] by simp
  moreover have old: "?args \<notin> insert ?st (dom (mem s))" using storage_rel_F_old[OF rel1, of ?args] by auto
  ultimately have "started ?st ?args (mem s) ?s2" using st mem by (auto simp: started_def no_oom_def)
  moreover have "main_start ps pk fd pton conn s = Inr ((?st, ?args), ?s2)"
    using net init st mem
    by (simp add: main_start_def storage_state_init_def create_socket_def connect_to_server_def cbind_def
        malloc_block_def no_oom_def load_def store_def)
  ultimately show thesis using r by (intro that[of ?st ?args ?s2]) (simp_all add: can_send_def)
qed

lemma main_start_stops:
  assumes "fd < 0 \<or> pton \<le> 0 \<or> conn < 0" "heap_ok s" "no_oom s"
  shows "main_start ps pk fd pton conn s = Inl ExitFailure"
proof -
  have "brk s \<noteq> NULL" using assms(2) by (auto simp: heap_ok_def)
  then show ?thesis using assms(1,3)
    by (auto simp: main_start_def storage_state_init_def create_socket_def connect_to_server_def cbind_def
        malloc_block_def no_oom_def load_def)
qed

lemma main_start_out_of_memory:
  "oom s (brk s) \<Longrightarrow> main_start ps pk fd pton conn s = Inl NullDeref"
  by (simp add: main_start_def cbind_def malloc_block_def load_def)

end
