(* ===== verification/Node_Tree.thy ===== *)
theory Node_Tree
  imports Node_Store Heap_Frames
begin

text \<open>
  In every outcome of a save or a deletion, failures and partial work included, the disk of
  the node stays a well-formed tree.
\<close>

lemma rest_fs: "rest s' = rest s \<Longrightarrow> fs s' = fs s"
  by (cases s; cases s') simp

lemma keeps_load_bytes [keeps_rules]: "keeps rest (load_bytes p n)"
  unfolding load_bytes_def by (intro keeps_rules)

lemma keeps_fs: "keeps rest m \<Longrightarrow> m s = Inr (x, s') \<Longrightarrow> fs s' = fs s"
  by (rule rest_fs) (rule keepsD)

section \<open>Saves\<close>

lemma write_chunk_tree:
  assumes run: "write_chunk path f d n c has s = Inr (ok, s')" and tree: "tree_ok (fs s)"
  shows "tree_ok (fs s')"
proof (cases "fs_open_append path (fs s)")
  case None
  then show ?thesis using run tree by (simp add: write_chunk_def)
next
  case (Some o1)
  obtain l t1 where o1: "o1 = (l, t1)" by (cases o1)
  have tree1: "tree_ok t1" using tree_ok_open_append[OF tree] Some o1 by simp
  obtain bs s1 where load: "load_bytes d n (s\<lparr>fs := t1\<rparr>) = Inr (bs, s1)"
    and go: "cbind (cget (\<lambda>s. fs_write path l bs (fs s))) (\<lambda>(written, written_fs).
         cbind (cput (\<lambda>s. s\<lparr>fs := written_fs\<rparr>)) (\<lambda>_.
         if written \<noteq> n then cret False
         else cbind (insert_to_struct f c has) (\<lambda>_. cret True))) s1 = Inr (ok, s')"
    using run Some o1 by (auto simp: write_chunk_def dest!: cbind_InrD)
  have fs1: "fs s1 = t1" using keeps_fs[OF keeps_load_bytes load] by simp
  obtain w t2 where w: "fs_write path l bs t1 = (w, t2)" by (cases "fs_write path l bs t1")
  then have tree2: "tree_ok t2" using tree_ok_write[OF tree1, of path l bs] by simp
  show ?thesis
  proof (cases "w = n")
    case False
    then show ?thesis using go w fs1 tree2 by auto
  next
    case True
    then obtain s2 where "insert_to_struct f c has (s1\<lparr>fs := t2\<rparr>) = Inr ((), s2)" "s' = s2"
      using go w fs1 by (auto dest!: cbind_InrD)
    then show ?thesis using keeps_fs[OF keeps_catalogue(4)] tree2 by fastforce
  qed
qed

lemma save_tree:
  assumes run: "saveChunkToFile name d n c s = Inr (ok, s')" and tree: "tree_ok (fs s)"
  shows "tree_ok (fs s')"
proof -
  consider "s' = s" | f where "name = Some f"
    "write_chunk (chunk_path f c) f d n c (directoryHasFiles (dir_path f) (fs s))
      (s\<lparr>fs := snd (createDirectories (chunk_path f c) (fs s))\<rparr>) = Inr (ok, s')"
  proof (cases name)
    case (Some f)
    obtain made t where m: "createDirectories (chunk_path f c) (fs s) = (made, t)" by force
    then have "made" using createDirectories_fst[of "chunk_path f c" "fs s"] by simp
    then show thesis using run Some that m
      by (auto simp: saveChunkToFile_def split: if_splits)
  qed (use run that in \<open>simp add: saveChunkToFile_def\<close>)
  then show ?thesis
  proof cases
    case 2
    have "tree_ok (snd (createDirectories (chunk_path f c) (fs s)))" using tree by (rule tree_ok_createDirectories)
    then show ?thesis using write_chunk_tree[OF 2(2)] by simp
  qed (use tree in simp)
qed

section \<open>Deletions\<close>

lemma remove_entries_tree:
  assumes "\<And>p t r t'. rm p t = Inr (r, t') \<Longrightarrow> tree_ok t \<Longrightarrow> tree_ok t'"
    and "remove_entries rm path names t = Inr (ok, t')" "tree_ok t"
  shows "tree_ok t'"
  using assms(2,3)
proof (induction names arbitrary: t)
  case Nil
  then show ?case by simp
next
  case (Cons w names)
  let ?p = "snprintf 1024 (path @ ''/'' @ w)"
  show ?case
  proof (cases "w = ''.'' \<or> w = ''..''")
    case True
    then show ?thesis using Cons by auto
  next
    case False
    show ?thesis
    proof (cases "fs_lstat ?p t")
      case None
      then show ?thesis using Cons.prems False by (simp add: Let_def)
    next
      case (Some e)
      show ?thesis
      proof (cases "e = FDir")
        case True
        then obtain r t1 where r: "rm ?p t = Inr (r, t1)"
          "(if r = - 1 then cret False else remove_entries rm path names) t1 = Inr (ok, t')"
          using Cons.prems(1) False Some by (auto simp: Let_def dest!: cbind_InrD)
        have "tree_ok t1" using assms(1)[OF r(1)] Cons.prems(2) .
        then show ?thesis using r(2) Cons.IH by (auto split: if_splits)
      next
        case other: False
        obtain b t1 where u: "fs_unlink ?p t = (b, t1)" by force
        then have "tree_ok t1" using tree_ok_unlink[OF Cons.prems(2), of ?p] by simp
        moreover have "(if \<not> b then cret False else remove_entries rm path names) t1 = Inr (ok, t')"
          using Cons.prems(1) False Some other u by (cases e) (auto simp: Let_def cbind_def)
        ultimately show ?thesis using Cons.IH by (auto split: if_splits)
      qed
    qed
  qed
qed

lemma remove_directory_tree:
  "remove_directory depth fds path t = Inr (r, t') \<Longrightarrow> tree_ok t \<Longrightarrow> tree_ok t'"
proof (induction depth arbitrary: fds path t r t')
  case 0
  then show ?case by simp
next
  case (Suc depth)
  show ?case
  proof (cases "if fds = 0 then None else fs_opendir path t")
    case None
    then show ?thesis using Suc.prems by simp
  next
    case (Some d)
    obtain l names where d: "d = (l, names)" by (cases d)
    obtain ok t1 where e: "remove_entries (remove_directory depth (fds - 1)) path names t = Inr (ok, t1)"
      and go: "(if \<not> ok then cret (- 1) else cbind (\<lambda>s. Inr (fs_rmdir path s)) (\<lambda>ok. if \<not> ok then cret (- 1) else cret 0)) t1
        = Inr (r, t')"
      using Suc.prems(1) Some d by (auto dest!: cbind_InrD)
    have "tree_ok t1" using remove_entries_tree[OF Suc.IH e Suc.prems(2)] .
    then show ?thesis using go tree_ok_rmdir[of t1 path]
      by (cases "fs_rmdir path t1") (auto simp: cbind_def split: if_splits)
  qed
qed

lemma delete_tree:
  assumes run: "delete_file depth f s = Inr (ok, s')" and tree: "tree_ok (fs s)"
  shows "tree_ok (fs s')"
proof -
  let ?p = "snprintf 512 (''data/'' @ f)"
  obtain r s1 where r: "on_fs (\<lambda>t. remove_directory depth (spare_fds t) ?p t) s = Inr (r, s1)"
    and go: "(if r \<noteq> 0 then cret False else cbind (remove_from_struct f) (\<lambda>_. cret True)) s1 = Inr (ok, s')"
    using run by (auto simp: delete_file_def dest!: cbind_InrD)
  obtain t where "remove_directory depth (spare_fds (fs s)) ?p (fs s) = Inr (r, t)" "s1 = s\<lparr>fs := t\<rparr>"
    using r by (auto simp: on_fs_def split: sum.splits)
  then have tree1: "tree_ok (fs s1)" using remove_directory_tree tree by fastforce
  show ?thesis
  proof (cases "r = 0")
    case True
    then obtain s2 where "remove_from_struct f s1 = Inr ((), s2)" "s' = s2" using go by (auto dest!: cbind_InrD)
    then show ?thesis using keeps_fs[OF keeps_catalogue(5)] tree1 by fastforce
  qed (use go tree1 in simp)
qed

end
