(* ===== verification/Examples.thy ===== *)
theory Examples
  imports Failures Node_Threads Node_Tree
begin

text \<open>
  Concrete nodes the properties are applied to: one that has just started, one that holds
  chunk 1 of a file, and one that holds a chunk of each of two files.
\<close>

definition disk_with :: "(loc \<times> fentry) list \<Rightarrow> fsys" where
  "disk_with es = \<lparr>files = ([], FDir) # es, cwd = [], sysfail = (\<lambda>_ _. False), short_write = (\<lambda>_. None), spare_fds = 8\<rparr>"

definition node_with :: "(ptr \<Rightarrow> block option) \<Rightarrow> nat \<Rightarrow> ptr \<Rightarrow> int \<Rightarrow> fsys \<Rightarrow> tcp_node" where
  "node_with m b base n d =
     \<lparr>mem = m, brk = b, oom = (\<lambda>_. False), file_to_chunk_state = base, num_file_count = n, locked = False,
      fs = d, send_answers = replicate 100 (Sent 2), wire = [], shouldWork = True\<rparr>"

definition disk0 :: fsys where "disk0 = disk_with []"

definition disk1 :: fsys where
  "disk1 = disk_with [([''data''], FDir), ([''data'', ''a''], FDir), ([''data'', ''a'', ''1''], FReg [7, 8])]"

definition disk2 :: fsys where
  "disk2 = disk_with [([''data''], FDir), ([''data'', ''a''], FDir), ([''data'', ''a'', ''1''], FReg [7, 8]),
     ([''data'', ''b''], FDir), ([''data'', ''b'', ''1''], FReg [9])]"

definition node0 :: tcp_node where "node0 = node_with Map.empty 1 NULL 0 disk0"

definition rec_a :: file_rec where "rec_a = \<lparr>file_path = 2, chunk_ids = 3, num_chunks = 1\<rparr>"
definition rec_b :: file_rec where "rec_b = \<lparr>file_path = 4, chunk_ids = 5, num_chunks = 1\<rparr>"

definition node1 :: tcp_node where
  "node1 = node_with [1 \<mapsto> RecB [Some rec_a], 2 \<mapsto> StrB ''a'', 3 \<mapsto> IntB [Some 1]] 4 1 1 disk1"

definition node2 :: tcp_node where
  "node2 = node_with [1 \<mapsto> RecB [Some rec_a, Some rec_b], 2 \<mapsto> StrB ''a'', 3 \<mapsto> IntB [Some 1],
     4 \<mapsto> StrB ''b'', 5 \<mapsto> IntB [Some 1]] 6 1 2 disk2"

definition store1 :: store where "store1 = [(''a'', 1) \<mapsto> [7, 8]]"
definition store2 :: store where "store2 = [(''a'', 1) \<mapsto> [7, 8], (''b'', 1) \<mapsto> [9]]"

definition mhd0 :: mhd where
  "mhd0 = \<lparr>connection_value = [''X-Filename'' \<mapsto> ''a'', ''X-Chunk-ID'' \<mapsto> ''2''],
     response_from_fd = (\<lambda>_ _. True), queue_response = (\<lambda>_. True)\<rparr>"

definition pack0 :: packer where "pack0 = (\<lambda>_. [1, 2, 3])"
definition size0 :: packed_size where "size0 = (\<lambda>_. 3)"
definition unpack0 :: "byte list \<Rightarrow> MessageFromMasterToStorage option" where
  "unpack0 = (\<lambda>_. Some \<lparr>msg_id = ''m''\<rparr>)"

lemmas node_defs = node0_def node1_def node2_def node_with_def
lemmas disk_defs = disk0_def disk1_def disk2_def disk_with_def

lemma node_fields [simp]:
  "locked node0 = False" "locked node1 = False" "locked node2 = False"
  "fs node0 = disk0" "fs node1 = disk1" "fs node2 = disk2"
  "no_oom node0" "no_oom node1" "no_oom node2" "shouldWork node0" "shouldWork node1"
  by (simp_all add: node_defs no_oom_def)

lemma packs0 [simp]: "packs_to_size size0 pack0"
  by (simp add: packs_to_size_def size0_def pack0_def)

lemma rel0 [simp]: "storage_rel node0 [] [] {}"
  by (simp add: node_defs storage_rel_def heap_ok_def base_ok_def owned_def ptrs_of_def)

lemma rel1 [simp]: "storage_rel node1 [rec_a] [(''a'', [1])] {}"
  by (auto simp: node_defs storage_rel_def heap_ok_def base_ok_def owned_def ptrs_of_def rec_ptrs_def rec_ok_def
      rec_a_def split: if_splits)

lemma rel2 [simp]: "storage_rel node2 [rec_a, rec_b] [(''a'', [1]), (''b'', [1])] {}"
  by (auto simp: node_defs storage_rel_def heap_ok_def base_ok_def owned_def ptrs_of_def rec_ptrs_def rec_ok_def
      rec_a_def rec_b_def split: if_splits)

lemma disk_env [simp]:
  "cwd disk0 = []" "cwd disk1 = []" "cwd disk2 = []" "fs_quiet disk0" "fs_quiet disk1" "fs_quiet disk2"
  by (simp_all add: disk_defs) (simp_all add: fs_quiet_def)

lemma disk0_lookup [simp]: "fs_lookup disk0 k = (if k = [] then Some FDir else None)"
  by (simp add: disk_defs fs_lookup_def)

lemma disk1_lookup [simp]: "fs_lookup disk1 k =
  (if k = [] \<or> k = [''data''] \<or> k = [''data'', ''a''] then Some FDir
   else if k = [''data'', ''a'', ''1''] then Some (FReg [7, 8]) else None)"
  by (simp add: disk_defs fs_lookup_def)

lemma disk2_lookup [simp]: "fs_lookup disk2 k =
  (if k = [] \<or> k = [''data''] \<or> k = [''data'', ''a''] \<or> k = [''data'', ''b''] then Some FDir
   else if k = [''data'', ''a'', ''1''] then Some (FReg [7, 8])
   else if k = [''data'', ''b'', ''1''] then Some (FReg [9]) else None)"
  by (simp add: disk_defs fs_lookup_def)

lemma trees [simp]: "tree_ok disk0" "tree_ok disk1" "tree_ok disk2"
  by (auto simp: tree_ok_def proper_name_def split: if_splits) (simp_all add: disk_defs)

lemma show_one: "show_int 1 = ''1''"
  by (subst show_int_def, subst show_nat.simps) (simp add: digit_char_def, code_simp)

lemma atoi_one: "atoi_value ''1'' = 1"
  using atoi_show_int[of 1] by (simp only: show_one)

lemma one_shown: "w = show_int (atoi_value w) \<Longrightarrow> atoi_value w = 1 \<Longrightarrow> w = ''1''"
  by (simp add: show_one)

lemma simple_ab [simp]: "simple_name ''a''" "simple_name ''b''"
  by (simp_all add: simple_name_def proper_name_def)

lemma in_int_small [simp]: "in_int 1" "in_int 2"
  by (simp_all add: in_int_def int_max_def int_min_def)

lemma disk_rel0 [simp]: "disk_rel disk0 [] Map.empty"
  by (simp add: disk_rel_def cat_ok_def)

lemma disk_rel1 [simp]: "disk_rel disk1 [(''a'', [1])] store1"
  by (simp add: disk_rel_def cat_ok_def store1_def) (auto simp: show_one atoi_one one_shown)

lemma disk_rel2 [simp]: "disk_rel disk2 [(''a'', [1]), (''b'', [1])] store2"
  by (simp add: disk_rel_def cat_ok_def store2_def) (auto simp: show_one atoi_one one_shown)

lemma node_rels [simp]:
  "node_rel node0 [] Map.empty {}" "node_rel node1 [(''a'', [1])] store1 {}"
  "node_rel node2 [(''a'', [1]), (''b'', [1])] store2 {}"
  by (auto simp: node_rel_def intro: rel0 rel1 rel2)

lemma mhd0_serves [simp]: "mhd_serves mhd0"
  by (simp add: mhd_serves_def mhd0_def)

lemma bounded_small [simp]: "cat_bounded []" "cat_bounded [(f, [c])]" "cat_bounded [(f, [c]), (g, [d])]"
  by (simp_all add: cat_bounded_def int_max_def)

lemma show_two: "show_int 2 = ''2''"
  by (subst show_int_def, subst show_nat.simps) (simp add: digit_char_def, code_simp)

lemma atoi_two: "atoi_value ''2'' = 2"
  using atoi_show_int[of 2] by (simp only: show_two)

lemma headers0 [simp]: "chunk_headers mhd0 ''a'' 2"
  by (simp add: chunk_headers_def mhd0_def atoi_two)

lemma mhd0_fields [simp]: "response_from_fd mhd0 n l" "queue_response mhd0 code"
  by (simp_all add: mhd0_def)

text \<open>A node in the middle of an upload, with no memory left.\<close>

definition upload_node :: tcp_node where
  "upload_node = (node_with [1 \<mapsto> ConnB (Some \<lparr>conn_data = 2, conn_size = 1\<rparr>), 2 \<mapsto> ByteB [Some 7]] 3 NULL 0 disk0)
     \<lparr>oom := \<lambda>_. True\<rparr>"

lemma serving_upload: "serving upload_node [] [] 1 2 [7] {}"
  by (auto simp: serving_def conn_blocks_def conn_ok_def storage_rel_def heap_ok_def base_ok_def owned_def
      ptrs_of_def node_with_def upload_node_def split: if_splits)

text \<open>The chunk 2 of a file \<open>a/1\<close>, on a node that has the chunk 1 of a file \<open>a\<close>.\<close>

lemma nested_chunk_path: "chunk_path ''a/1'' 2 = ''data/a/1/2''"
  by (simp add: chunk_path_def show_two)

text \<open>A directory whose path has 1023 characters, with an entry.\<close>

definition long_words :: "string list" where
  "long_words = [''data'', replicate 254 CHR ''x'', replicate 254 CHR ''x'', replicate 254 CHR ''x'', replicate 253 CHR ''x'']"

definition disk_long :: fsys where
  "disk_long = disk_with (map (\<lambda>n. (take n long_words, FDir)) [1..<6] @ [(long_words @ [''y''], FDir)])"

lemma long_path: "length (join_slash long_words) = 1023" "proper_path long_words" "length long_words = 5"
  by (simp_all add: long_words_def proper_path_def proper_name_def)
    (auto simp: Cons_replicate_eq numeral_eq_Suc)

lemma long_dirs: "is_dir disk_long (take n long_words)"
proof -
  have all: "\<forall>(k, e) \<in> set (files disk_long). e = FDir" by (auto simp: disk_long_def disk_with_def)
  have "take n long_words = [] \<or> take n long_words \<in> (\<lambda>n. take n long_words) ` set [1..<6]"
  proof (cases "n \<le> 5")
    case True
    then show ?thesis by (cases n) auto
  next
    case False
    then have "take n long_words = take 5 long_words" using long_path(3) by simp
    then show ?thesis by (intro disjI2 image_eqI[of _ _ 5]) simp_all
  qed
  then have "take n long_words \<in> fst ` set (files disk_long)"
    by (auto simp: disk_long_def disk_with_def image_image)
  then obtain e where "fs_lookup disk_long (take n long_words) = Some e"
    using fs_lookup_mem by (metis not_Some_eq)
  moreover from this have "e = FDir" using all map_of_SomeD unfolding fs_lookup_def by fastforce
  ultimately show ?thesis by simp
qed

lemma long_open: "fs_opendir (join_slash long_words) disk_long = Some (long_words, [''.'', ''..''] @ [''y''])"
  "fs_lstat (join_slash long_words) disk_long = Some FDir"
proof -
  have env: "cwd disk_long = []" "fs_quiet disk_long" by (simp_all add: disk_long_def disk_with_def fs_quiet_def)
  have res: "resolve disk_long (join_slash long_words) = Some long_words"
    using resolve_join[OF long_path(2), of disk_long] long_dirs env by simp
  have dir: "is_dir disk_long long_words" using long_dirs[of 5] long_path(3) by simp
  have "butlast (take n long_words) \<noteq> long_words" if "n < 6" for n
  proof
    assume "butlast (take n long_words) = long_words"
    then have "length (butlast (take n long_words)) = length long_words" by simp
    then show False using that long_path(3) by simp
  qed
  then have "children disk_long long_words = [''y'']"
    by (simp add: children_def disk_long_def disk_with_def filter_empty_conv split_def) 
  then show "fs_opendir (join_slash long_words) disk_long = Some (long_words, [''.'', ''..''] @ [''y''])"
    "fs_lstat (join_slash long_words) disk_long = Some FDir"
    using res dir env by (simp_all add: fs_opendir_def fs_lstat_def)
qed

text \<open>A node that holds a chunk of a file \<open>a\<close> and one of a file \<open>a/b\<close>.\<close>

definition disk_nested :: fsys where
  "disk_nested = disk_with [([''data''], FDir), ([''data'', ''a''], FDir), ([''data'', ''a'', ''1''], FReg [7, 8]),
     ([''data'', ''a'', ''b''], FDir), ([''data'', ''a'', ''b'', ''1''], FReg [9])]"

definition node_nested :: tcp_node where
  "node_nested = node_with [1 \<mapsto> RecB [Some rec_a, Some rec_b], 2 \<mapsto> StrB ''a'', 3 \<mapsto> IntB [Some 1],
     4 \<mapsto> StrB ''a/b'', 5 \<mapsto> IntB [Some 1]] 6 1 2 disk_nested"

lemma node_nested_fields [simp]: "locked node_nested = False" "fs node_nested = disk_nested" "no_oom node_nested"
  by (simp_all add: node_nested_def node_with_def no_oom_def)

lemma rel_nested: "storage_rel node_nested [rec_a, rec_b] [(''a'', [1]), (''a/b'', [1])] {}"
  by (auto simp: node_nested_def node_with_def storage_rel_def heap_ok_def base_ok_def owned_def ptrs_of_def rec_ptrs_def rec_ok_def
      rec_a_def rec_b_def split: if_splits)

lemma nested_lookup [simp]: "fs_lookup disk_nested k =
  (if k = [] \<or> k = [''data''] \<or> k = [''data'', ''a''] \<or> k = [''data'', ''a'', ''b''] then Some FDir
   else if k = [''data'', ''a'', ''1''] then Some (FReg [7, 8])
   else if k = [''data'', ''a'', ''b'', ''1''] then Some (FReg [9]) else None)"
  by (simp add: disk_nested_def disk_with_def fs_lookup_def)

lemma disk_nested_ok [simp]:
  "cwd disk_nested = []" "spare_fds disk_nested = 8" "fs_quiet disk_nested" "tree_ok disk_nested" "at_dir disk_nested [''data'', ''a'']"
  "paths_short disk_nested [''data'', ''a'']" "deep_enough disk_nested [''data'', ''a''] 3 8"
proof -
  show env: "cwd disk_nested = []" "spare_fds disk_nested = 8" "fs_quiet disk_nested" by (simp_all add: disk_nested_def disk_with_def fs_quiet_def)
  show "tree_ok disk_nested"
    by (auto simp: tree_ok_def proper_name_def split: if_splits) (simp_all add: disk_nested_def disk_with_def)
  have "is_dir disk_nested (take n [''data'', ''a''])" if "n \<le> 2" for n
    using take_two[OF that, of "''data''" "''a''"] by (elim disjE) simp_all
  moreover have "proper_path [''data'', ''a'']" by (simp add: proper_path_def proper_name_def)
  moreover have "length [''data'', ''a''] = 2" by simp
  ultimately show "at_dir disk_nested [''data'', ''a'']" using env(1) unfolding at_dir_def by (metis append_Nil)
  show "paths_short disk_nested [''data'', ''a'']" "deep_enough disk_nested [''data'', ''a''] 3 8"
    using env by (auto simp: paths_short_def deep_enough_def split: if_splits)
qed

lemma disk2_fds: "spare_fds disk2 = 8"
  by (simp add: disk_defs)

lemma can_send0 [simp]: "n \<le> 100 \<Longrightarrow> can_send node0 n" "n \<le> 100 \<Longrightarrow> can_send node1 n"
  by (simp_all add: can_send_def eager_def credits_def node_defs)

end
