(* ===== verification/Http_Frames.thy ===== *)
theory Http_Frames
  imports Node_Store Heap_Frames
begin

text \<open>
  No request of the HTTP server changes what the node has beyond its heap, its catalogue and
  its disk: the link to the master and the stop flag.
\<close>

abbreviation net :: "'h storage_node_scheme \<Rightarrow> 'h" where
  "net \<equiv> storage_node.more"

lemma keeps_net: "keeps rest m \<Longrightarrow> keeps net m"
  unfolding keeps_def by (metis storage_node.ext_inject storage_node.surjective StorageStateOuter.ext_inject
      StorageStateOuter.surjective heap.ext_inject heap.surjective)

lemma keeps_list [keeps_rules]:
  "keeps p m \<Longrightarrow> (\<And>x xs. keeps p (f x xs)) \<Longrightarrow> keeps p (case xs of [] \<Rightarrow> m | x # xs \<Rightarrow> f x xs)"
  by (cases xs) simp_all

lemma keeps_sum [keeps_rules]:
  "(\<And>x. keeps p (f x)) \<Longrightarrow> (\<And>y. keeps p (g y)) \<Longrightarrow> keeps p (case z of Inl x \<Rightarrow> f x | Inr y \<Rightarrow> g y)"
  by (cases z) simp_all

lemma keeps_page [keeps_rules]:
  "keeps p m \<Longrightarrow> (\<And>x. keeps p (f x)) \<Longrightarrow> (\<And>q. keeps p (g q)) \<Longrightarrow>
   keeps p (case z of NoPage \<Rightarrow> m | Literal x \<Rightarrow> f x | OnHeap q \<Rightarrow> g q)"
  by (cases z) simp_all

lemma keeps_net_heap [keeps_rules]:
  "keeps net (malloc_block b)" "keeps net (c_free q)" "keeps net (realloc_block q b n)" "keeps net (store q b)"
  "keeps net (load q)" "keeps net (load_str q)" "keeps net (copy_bytes q n bs)" "keeps net mutex_lock"
  "keeps net mutex_unlock" "keeps net (read_rec q i)" "keeps net (read_int q i)"
  "keeps net (insert_to_struct path c has)" "keeps net (remove_from_struct path)"
  by (rule keeps_net, rule keeps_rules)+

lemma keeps_net_fs [keeps_rules]: "keeps net (cput (\<lambda>s. s\<lparr>fs := t\<rparr>))"
  by (rule keeps_cput) simp

lemma keeps_on_fs [keeps_rules]: "keeps net (on_fs m)"
  by (auto simp: keeps_def on_fs_def split: sum.splits)

lemma keeps_conn [keeps_rules]: "keeps net (read_conn q)" "keeps net (write_conn q c)" "keeps net (load_bytes q n)"
  unfolding read_conn_def write_conn_def load_bytes_def by (intro keeps_rules)+

lemma keeps_scan [keeps_rules]: "keeps net (scan_chunk_ids ids c j k)" "keeps net (scan_files base f c i n)"
proof -
  show ids: "keeps net (scan_chunk_ids ids c j k)" for ids j k
    by (induction k arbitrary: j) (simp_all add: keeps_rules)
  show "keeps net (scan_files base f c i n)"
    by (induction n arbitrary: i) (auto intro!: keeps_rules ids)
qed

lemma keeps_atoi [keeps_rules]: "keeps p (atoi x)"
  by (simp add: atoi_def keeps_rules)

lemma keeps_save [keeps_rules]: "keeps net (saveChunkToFile name d n c)"
  unfolding saveChunkToFile_def write_chunk_def by (intro keeps_rules)

lemma keeps_delete [keeps_rules]: "keeps net (delete_file depth f)"
  unfolding delete_file_def by (intro keeps_rules)

lemma keeps_descriptor [keeps_rules]: "keeps net (getFileDescriptor f c)"
  unfolding getFileDescriptor_def by (intro keeps_rules)

lemma keeps_reply [keeps_rules]: "keeps net (send_reply m con left r)"
  unfolding send_reply_def page_text_def by (intro keeps_rules)

lemma keeps_new_chunk [keeps_rules]: "keeps net (handleNewChunk con r f c)"
  unfolding handleNewChunk_def by (intro keeps_rules)

lemma keeps_answer [keeps_rules]: "keeps net (answer_to_connection m depth url method up con)"
  unfolding answer_to_connection_def new_connection_def append_upload_def answer_post_def answer_get_def
    send_fd_def answer_delete_def
  by (intro keeps_rules)

lemma keeps_completed [keeps_rules]: "keeps net (request_completed con)"
  unfolding request_completed_def by (intro keeps_rules)

lemma keeps_pieces [keeps_rules]: "keeps net (upload_pieces m depth url method ps con)"
  by (induction ps arbitrary: con) (auto intro!: keeps_rules)

lemma keeps_request [keeps_rules]: "keeps net (serve_request m depth url method ps)"
  unfolding serve_request_def by (intro keeps_rules)

lemma keeps_node_step [keeps_rules]: "keeps net (node_step m depth x)"
  by (cases x) (simp_all add: keeps_rules)

lemma keeps_history: "keeps net (run_all (node_step m depth) xs)"
proof (induction xs)
  case Nil
  show ?case unfolding run_all.simps by (rule keeps_cret)
next
  case (Cons x xs)
  then show ?case unfolding run_all.simps by (intro keeps_rules)
qed

end
