(* ===== verification/Master_State.thy ===== *)
theory Master_State
  imports Proto_Data "HOL-Library.Signed_Division" "HOL-Library.Multiset"
begin

text \<open>
  The master's table of storage nodes: state/storage_unit.rs and
  state/connection_data_internal.rs, and the HTTP handlers that read it. A connection holds
  the files its node reported last. Addresses are strings.
\<close>

section \<open>The state\<close>

record ConnectionData =
  connection_id :: string
  ip :: string
  files_to_chunks :: "FileMappings list"

record TcpStorage =
  connections :: "ConnectionData list"
  index_to_write :: int
  replication_factor :: int

section \<open>The operations\<close>

definition storage_new :: "int \<Rightarrow> TcpStorage" where
  "storage_new replication =
     \<lparr>connections = [], index_to_write = - 1, replication_factor = replication\<rparr>"

definition storage_insert :: "string \<Rightarrow> string \<Rightarrow> TcpStorage \<Rightarrow> TcpStorage" where
  "storage_insert cid addr t =
     t\<lparr>connections := connections t @ [\<lparr>connection_id = cid, ip = addr, files_to_chunks = []\<rparr>],
       index_to_write := (if index_to_write t = - 1 then 0 else index_to_write t)\<rparr>"

definition storage_remove :: "string \<Rightarrow> TcpStorage \<Rightarrow> TcpStorage" where
  "storage_remove cid t = t\<lparr>connections := filter (\<lambda>x. connection_id x \<noteq> cid) (connections t)\<rparr>"

definition connection_update :: "FileMappings list \<Rightarrow> ConnectionData \<Rightarrow> ConnectionData" where
  "connection_update file_state c = c\<lparr>files_to_chunks := file_state\<rparr>"

text \<open>The first connection with the id; none is no error.\<close>

primrec update_first :: "string \<Rightarrow> FileMappings list \<Rightarrow> ConnectionData list \<Rightarrow> ConnectionData list" where
  "update_first cid file_state [] = []"
| "update_first cid file_state (c # cs) =
     (if connection_id c = cid then connection_update file_state c # cs
      else c # update_first cid file_state cs)"

definition update_state :: "string \<Rightarrow> FileMappings list \<Rightarrow> TcpStorage \<Rightarrow> TcpStorage" where
  "update_state cid file_state t = t\<lparr>connections := update_first cid file_state (connections t)\<rparr>"

text \<open>\<open>len() as i32\<close> wraps; \<open>%\<close> truncates and panics on zero; \<open>get\<close> is safe.\<close>

definition as_i32 :: "nat \<Rightarrow> int" where
  "as_i32 n = (int n + 2 ^ 31) mod 2 ^ 32 - 2 ^ 31"

definition rem_i32 :: "int \<Rightarrow> int \<Rightarrow> ('s, int) cm" where
  "rem_i32 a b = (if b = 0 then cfail DivideByZero else cret (a smod b))"

definition get_at :: "'a list \<Rightarrow> int \<Rightarrow> 'a option" where
  "get_at xs i = (if 0 \<le> i \<and> nat i < length xs then Some (xs ! nat i) else None)"

definition increment_index_and_return_addr :: "(TcpStorage, string option) cm" where
  "increment_index_and_return_addr =
     cbind (cget connections) (\<lambda>cs.
     if length cs = 0 then cret None
     else
       cbind (cget index_to_write) (\<lambda>i.
       cbind (if i < 0 then cret 0 else cbind (int_succ i) (\<lambda>j. rem_i32 j (as_i32 (length cs)))) (\<lambda>i'.
       cbind (cput (\<lambda>t. t\<lparr>index_to_write := i'\<rparr>)) (\<lambda>_.
       cret (map_option ip (get_at cs i'))))))"

text \<open>\<open>get_location\<close>: each address once, in the order of the connections.\<close>

fun file_has_chunk :: "string \<Rightarrow> int \<Rightarrow> string list \<Rightarrow> string \<Rightarrow> FileMappings list \<Rightarrow> string list" where
  "file_has_chunk file_name chunk_id res addr [] = res"
| "file_has_chunk file_name chunk_id res addr (f # fs) =
     (if mapping_filename f = file_name \<and> chunk_id \<in> set (mapping_chunk_ids f) \<and> addr \<notin> set res
      then res @ [addr] else file_has_chunk file_name chunk_id res addr fs)"

definition get_location :: "string \<Rightarrow> int \<Rightarrow> TcpStorage \<Rightarrow> string list" where
  "get_location file_name chunk_id t =
     fold (\<lambda>c res. file_has_chunk file_name chunk_id res (ip c) (files_to_chunks c)) (connections t) []"

definition get_multiple_chunks :: "string \<Rightarrow> int list \<Rightarrow> TcpStorage \<Rightarrow> string list list" where
  "get_multiple_chunks file_name ids t = map (\<lambda>i. get_location file_name i t) ids"

definition add_new :: "'a list \<Rightarrow> 'a list \<Rightarrow> 'a list" where
  "add_new xs res = fold (\<lambda>x res. if x \<in> set res then res else res @ [x]) xs res"

definition get_chunks_for_file :: "string \<Rightarrow> TcpStorage \<Rightarrow> int list" where
  "get_chunks_for_file file_name t =
     sort (fold (\<lambda>c res.
       case find (\<lambda>f. mapping_filename f = file_name) (files_to_chunks c) of
         None \<Rightarrow> res
       | Some f \<Rightarrow> add_new (mapping_chunk_ids f) res) (connections t) [])"

definition get_file_list :: "TcpStorage \<Rightarrow> string list" where
  "get_file_list t = fold (\<lambda>c res. add_new (map mapping_filename (files_to_chunks c)) res) (connections t) []"

text \<open>The code asks whether the file's name, not the address, is in the list already.\<close>

definition get_file_locations :: "string \<Rightarrow> TcpStorage \<Rightarrow> string list" where
  "get_file_locations file_name t =
     fold (\<lambda>c res.
       if list_ex (\<lambda>f. mapping_filename f = file_name \<and> mapping_filename f \<notin> set res) (files_to_chunks c)
       then res @ [ip c] else res) (connections t) []"

text \<open>
  \<open>return_server_to_write_chunk\<close>: the addresses of as many turns as there are to be
  replicas, collected in a hash set whose order of iteration is an argument.
\<close>

primrec collect_servers :: "nat \<Rightarrow> string option list \<Rightarrow> (TcpStorage, string option list) cm" where
  "collect_servers 0 seen = cret seen"
| "collect_servers (Suc k) seen =
     cbind increment_index_and_return_addr (\<lambda>a.
     collect_servers k (if a \<in> set seen then seen else seen @ [a]))"

definition return_server_to_write_chunk ::
  "(string option list \<Rightarrow> string option list) \<Rightarrow> int \<Rightarrow> (TcpStorage, string list) cm" where
  "return_server_to_write_chunk hash_order replication_count =
     cbind (collect_servers (nat replication_count) []) (\<lambda>seen.
     cret (concat (map (\<lambda>a. case a of None \<Rightarrow> [] | Some addr \<Rightarrow> [addr]) (hash_order seen))))"

section \<open>What the readers return\<close>

definition reports :: "ConnectionData \<Rightarrow> string \<Rightarrow> int \<Rightarrow> bool" where
  "reports c f i \<longleftrightarrow> (\<exists>m \<in> set (files_to_chunks c). mapping_filename m = f \<and> i \<in> set (mapping_chunk_ids m))"

lemma file_has_chunk:
  "file_has_chunk f i res a ms
    = (if (\<exists>m \<in> set ms. mapping_filename m = f \<and> i \<in> set (mapping_chunk_ids m)) \<and> a \<notin> set res then res @ [a] else res)"
  by (induction ms) auto

lemma get_location_fold:
  assumes "distinct res"
  shows "set (fold (\<lambda>c res. file_has_chunk f i res (ip c) (files_to_chunks c)) cs res)
      = set res \<union> {ip c | c. c \<in> set cs \<and> reports c f i} \<and>
    distinct (fold (\<lambda>c res. file_has_chunk f i res (ip c) (files_to_chunks c)) cs res)"
  using assms
proof (induction cs arbitrary: res)
  case (Cons c cs)
  show ?case
    using Cons.IH[of "file_has_chunk f i res (ip c) (files_to_chunks c)"] Cons.prems
    by (auto simp: file_has_chunk reports_def)
qed simp

lemma get_location_exact:
  "set (get_location f i t) = {ip c | c. c \<in> set (connections t) \<and> reports c f i}" "distinct (get_location f i t)"
  using get_location_fold[of "[]" f i "connections t"] by (simp_all add: get_location_def)

lemma set_add_new [simp]: "set (add_new xs res) = set xs \<union> set res"
  unfolding add_new_def by (induction xs arbitrary: res) auto

lemma distinct_add_new: "distinct res \<Longrightarrow> distinct (add_new xs res)"
  unfolding add_new_def by (induction xs arbitrary: res) auto

text \<open>The ids a connection contributes: those of the first entry with the name.\<close>

definition first_ids :: "string \<Rightarrow> ConnectionData \<Rightarrow> int list" where
  "first_ids f c = (case find (\<lambda>m. mapping_filename m = f) (files_to_chunks c) of
     None \<Rightarrow> [] | Some m \<Rightarrow> mapping_chunk_ids m)"

lemma get_chunks_exact:
  "set (get_chunks_for_file f t) = (\<Union>c \<in> set (connections t). set (first_ids f c))"
  "sorted (get_chunks_for_file f t)" "distinct (get_chunks_for_file f t)"
proof -
  have step: "(case find (\<lambda>m. mapping_filename m = f) (files_to_chunks c) of None \<Rightarrow> res
      | Some m \<Rightarrow> add_new (mapping_chunk_ids m) res) = add_new (first_ids f c) res" for c res
    by (auto simp: first_ids_def add_new_def split: option.split)
  have "set (fold (\<lambda>c res. add_new (first_ids f c) res) cs res) = set res \<union> (\<Union>c \<in> set cs. set (first_ids f c)) \<and>
      (distinct res \<longrightarrow> distinct (fold (\<lambda>c res. add_new (first_ids f c) res) cs res))" for cs res
    by (induction cs arbitrary: res) (auto simp: distinct_add_new)
  from this[of "connections t" "[]"]
  show "set (get_chunks_for_file f t) = (\<Union>c \<in> set (connections t). set (first_ids f c))"
    "distinct (get_chunks_for_file f t)" by (simp_all add: get_chunks_for_file_def step)
  show "sorted (get_chunks_for_file f t)" by (simp add: get_chunks_for_file_def)
qed

lemma get_file_list_exact:
  "set (get_file_list t) = {mapping_filename m | c m. c \<in> set (connections t) \<and> m \<in> set (files_to_chunks c)}"
  "distinct (get_file_list t)"
proof -
  have "set (fold (\<lambda>c res. add_new (map mapping_filename (files_to_chunks c)) res) cs res)
      = set res \<union> {mapping_filename m | c m. c \<in> set cs \<and> m \<in> set (files_to_chunks c)} \<and>
    (distinct res \<longrightarrow> distinct (fold (\<lambda>c res. add_new (map mapping_filename (files_to_chunks c)) res) cs res))" for cs res
    by (induction cs arbitrary: res) (auto simp: distinct_add_new)
  from this[of "connections t" "[]"] show
    "set (get_file_list t) = {mapping_filename m | c m. c \<in> set (connections t) \<and> m \<in> set (files_to_chunks c)}"
    "distinct (get_file_list t)" by (simp_all add: get_file_list_def)
qed

text \<open>
  The test of \<open>get_file_locations\<close> looks for a name among addresses: unless the name is one,
  an address is listed once for every connection from it.
\<close>

lemma get_file_locations_run:
  assumes "f \<notin> ip ` set (connections t)"
  shows "get_file_locations f t
    = map ip (filter (\<lambda>c. \<exists>m \<in> set (files_to_chunks c). mapping_filename m = f) (connections t))"
proof -
  have "fold (\<lambda>c res. if list_ex (\<lambda>m. mapping_filename m = f \<and> mapping_filename m \<notin> set res) (files_to_chunks c)
      then res @ [ip c] else res) cs res
    = res @ map ip (filter (\<lambda>c. \<exists>m \<in> set (files_to_chunks c). mapping_filename m = f) cs)"
    if "f \<notin> ip ` set cs" "f \<notin> set res" for cs res
    using that by (induction cs arbitrary: res) (auto simp: list_ex_iff)
  from this[of "connections t" "[]"] assms show ?thesis by (simp add: get_file_locations_def)
qed

section \<open>Whose turn it is\<close>

text \<open>The index is that of a connection, or there has never been one.\<close>

definition turn_ok :: "TcpStorage \<Rightarrow> bool" where
  "turn_ok t \<longleftrightarrow> - 1 \<le> index_to_write t \<and> index_to_write t < int_max \<and> length (connections t) < 2 ^ 31"

lemma as_i32_small [simp]: "n < 2 ^ 31 \<Longrightarrow> as_i32 n = int n"
  by (simp add: as_i32_def)

lemma smod_pos: "0 \<le> a \<Longrightarrow> 0 < b \<Longrightarrow> a smod b = a mod (b :: int)"
  by (simp add: signed_modulo_int_def signed_divide_int_def minus_div_mult_eq_mod sgn_if)

definition next_turn :: "TcpStorage \<Rightarrow> nat" where
  "next_turn t = (if index_to_write t < 0 then 0 else nat (index_to_write t + 1) mod length (connections t))"

lemma increment_run:
  assumes ok: "turn_ok t" and ne: "connections t \<noteq> []"
  shows "increment_index_and_return_addr t
    = Inr (Some (ip (connections t ! next_turn t)), t\<lparr>index_to_write := int (next_turn t)\<rparr>)"
    "next_turn t < length (connections t)" "turn_ok (t\<lparr>index_to_write := int (next_turn t)\<rparr>)"
proof -
  let ?n = "length (connections t)"
  have n: "0 < ?n" "?n < 2 ^ 31" using ok ne by (simp_all add: turn_ok_def)
  show lt: "next_turn t < ?n" using n by (simp add: next_turn_def)
  have "int (next_turn t) = (index_to_write t + 1) mod int ?n" if "0 \<le> index_to_write t"
    using that by (simp add: next_turn_def zmod_int)
  then have step: "(index_to_write t + 1) smod int ?n = int (next_turn t)" if "0 \<le> index_to_write t"
    using that n by (simp add: smod_pos)
  show "increment_index_and_return_addr t
    = Inr (Some (ip (connections t ! next_turn t)), t\<lparr>index_to_write := int (next_turn t)\<rparr>)"
  proof (cases "index_to_write t < 0")
    case True
    then show ?thesis using n lt
      by (simp add: increment_index_and_return_addr_def cbind_def get_at_def next_turn_def)
  next
    case False
    then have "0 \<le> index_to_write t" "index_to_write t < int_max" using ok by (simp_all add: turn_ok_def)
    then show ?thesis using n lt step ne
      by (simp add: increment_index_and_return_addr_def cbind_def int_succ_def rem_i32_def get_at_def)
  qed
  show "turn_ok (t\<lparr>index_to_write := int (next_turn t)\<rparr>)"
    using lt n ok by (simp add: turn_ok_def int_max_def)
qed

lemma turn_ok_steps:
  "turn_ok (storage_new r)"
  "turn_ok t \<Longrightarrow> Suc (length (connections t)) < 2 ^ 31 \<Longrightarrow> turn_ok (storage_insert cid a t)"
  "turn_ok t \<Longrightarrow> turn_ok (storage_remove cid t)" "turn_ok t \<Longrightarrow> turn_ok (update_state cid ms t)"
proof -
  have [simp]: "length (update_first cid ms cs) = length cs" for cs by (induction cs) simp_all
  show "turn_ok (storage_new r)" by (simp add: turn_ok_def storage_new_def int_max_def)
  show "turn_ok t \<Longrightarrow> Suc (length (connections t)) < 2 ^ 31 \<Longrightarrow> turn_ok (storage_insert cid a t)"
    by (simp add: turn_ok_def storage_insert_def int_max_def)
  show "turn_ok t \<Longrightarrow> turn_ok (storage_remove cid t)"
    using le_less_trans[OF length_filter_le[of "\<lambda>x. connection_id x \<noteq> cid" "connections t"], of "2 ^ 31"]
    by (simp add: turn_ok_def storage_remove_def)
  show "turn_ok t \<Longrightarrow> turn_ok (update_state cid ms t)" by (simp add: turn_ok_def update_state_def)
qed

text \<open>
  With as many connections from distinct addresses as there are to be replicas, a client gets
  that many distinct addresses, of connections one after the other.
\<close>

definition turns :: "ConnectionData list \<Rightarrow> nat \<Rightarrow> nat \<Rightarrow> string list" where
  "turns cs a k = map (\<lambda>j. ip (cs ! ((a + j) mod length cs))) [0..<k]"

lemma next_turn_set:
  "a < n \<Longrightarrow> next_turn (t\<lparr>index_to_write := int a\<rparr>) = Suc a mod length (connections t)"
  by (simp add: next_turn_def nat_add_distrib)

lemma mod_add_neq: "j < m \<Longrightarrow> m < n \<Longrightarrow> (a + j) mod n \<noteq> (a + m) mod (n :: nat)"
proof
  assume lt: "j < m" "m < n" and eq: "(a + j) mod n = (a + m) mod n"
  then have "n dvd (a + m) - (a + j)" by (metis mod_eq_dvd_iff_nat add_le_mono order_refl less_imp_le)
  then have "n dvd m - j" by simp
  then show False using lt by (auto dest: dvd_imp_le)
qed

lemma same_ip:
  assumes "distinct (map ip cs)" "i < length cs" "j < length cs" "ip (cs ! i) = ip (cs ! j)"
  shows "i = j"
proof -
  have "map ip cs ! i = map ip cs ! j" using assms(2-4) by simp
  then show ?thesis using assms(1-3) nth_eq_iff_index_eq[of "map ip cs" i j] by simp
qed

lemma collect_run:
  assumes ok: "turn_ok t" and cs: "connections t = cs" and dist: "distinct (map ip cs)"
    and turn: "next_turn t = (a + m) mod length cs" and k: "m + k \<le> length cs"
  shows "\<exists>i. collect_servers k (map Some (turns cs a m)) t
    = Inr (map Some (turns cs a (m + k)), t\<lparr>index_to_write := i\<rparr>) \<and> turn_ok (t\<lparr>index_to_write := i\<rparr>) \<and>
    next_turn (t\<lparr>index_to_write := i\<rparr>) = (a + (m + k)) mod length cs"
  using ok cs turn k
proof (induction k arbitrary: t m)
  case 0
  then show ?case by (intro exI[of _ "index_to_write t"]) simp
next
  case (Suc k)
  then have ne: "connections t \<noteq> []" by auto
  let ?t = "t\<lparr>index_to_write := int (next_turn t)\<rparr>"
  note inc = increment_run[OF Suc.prems(1) ne]
  have "ip (cs ! ((a + m) mod length cs)) \<notin> set (turns cs a m)"
  proof
    assume "ip (cs ! ((a + m) mod length cs)) \<in> set (turns cs a m)"
    then obtain j where j: "j < m" "ip (cs ! ((a + m) mod length cs)) = ip (cs ! ((a + j) mod length cs))"
      by (auto simp: turns_def)
    have "0 < length cs" using Suc.prems(4) by linarith
    then have "(a + m) mod length cs = (a + j) mod length cs" by (intro same_ip[OF dist _ _ j(2)]) simp_all
    then show False using mod_add_neq[of j m "length cs" a] j(1) Suc.prems by simp
  qed
  then have step: "collect_servers (Suc k) (map Some (turns cs a m)) t
      = collect_servers k (map Some (turns cs a (Suc m))) ?t"
    using inc(1) Suc.prems by (auto simp: cbind_def turns_def)
  have "next_turn ?t = (a + Suc m) mod length cs"
    using Suc.prems next_turn_set[OF inc(2), of t] by (simp add: mod_Suc_eq)
  then obtain i where "collect_servers k (map Some (turns cs a (Suc m))) ?t
      = Inr (map Some (turns cs a (Suc m + k)), ?t\<lparr>index_to_write := i\<rparr>)" "turn_ok (?t\<lparr>index_to_write := i\<rparr>)"
      "next_turn (?t\<lparr>index_to_write := i\<rparr>) = (a + (Suc m + k)) mod length cs"
    using Suc.IH[OF inc(3), of "Suc m"] Suc.prems by auto
  then show ?case using step by (intro exI[of _ i]) simp
qed

lemma distinct_turns:
  assumes "distinct (map ip cs)" "k \<le> length cs"
  shows "distinct (turns cs a k)"
  unfolding turns_def
proof (subst distinct_map, intro conjI inj_onI)
  fix i j
  assume ij: "i \<in> set [0..<k]" "j \<in> set [0..<k]"
    and eq: "ip (cs ! ((a + i) mod length cs)) = ip (cs ! ((a + j) mod length cs))"
  have lt: "(a + i) mod length cs < length cs" "(a + j) mod length cs < length cs"
    using assms(2) ij by (auto intro: mod_less_divisor)
  then have same: "(a + i) mod length cs = (a + j) mod length cs" by (rule same_ip[OF assms(1) _ _ eq])
  show "i = j"
    using mod_add_neq[of i j "length cs" a] mod_add_neq[of j i "length cs" a] same assms(2) ij
    by (cases i j rule: linorder_cases) auto
qed simp

lemma return_server_run:
  assumes ok: "turn_ok t" and ne: "connections t \<noteq> []" and dist: "distinct (map ip (connections t))"
    and r: "r \<le> int (length (connections t))" and hash: "\<And>xs. mset (hash_order xs) = mset xs"
  shows "\<exists>addrs i. return_server_to_write_chunk hash_order r t = Inr (addrs, t\<lparr>index_to_write := i\<rparr>) \<and>
    mset addrs = mset (turns (connections t) (next_turn t) (nat r)) \<and> turn_ok (t\<lparr>index_to_write := i\<rparr>) \<and>
    next_turn (t\<lparr>index_to_write := i\<rparr>) = (next_turn t + nat r) mod length (connections t)"
proof -
  let ?cs = "connections t" and ?a = "next_turn t"
  have "?a < length ?cs" using increment_run(2)[OF ok ne] .
  moreover have "nat r \<le> length ?cs" using r by linarith
  ultimately obtain i where run: "collect_servers (nat r) [] t
      = Inr (map Some (turns ?cs ?a (nat r)), t\<lparr>index_to_write := i\<rparr>)" and ok': "turn_ok (t\<lparr>index_to_write := i\<rparr>)"
      "next_turn (t\<lparr>index_to_write := i\<rparr>) = (?a + nat r) mod length ?cs"
    using collect_run[OF ok refl dist, of ?a 0 "nat r"] by (auto simp: turns_def)
  let ?out = "\<lambda>xs. concat (map (\<lambda>a. case a of None \<Rightarrow> [] | Some addr \<Rightarrow> [addr]) xs)"
  have "mset (?out xs) = \<Sum>\<^sub># (image_mset (\<lambda>a. case a of None \<Rightarrow> {#} | Some addr \<Rightarrow> {#addr#}) (mset xs))"
    for xs :: "string option list" by (induction xs) (auto split: option.split)
  then have "mset (?out (hash_order xs)) = mset (?out xs)" for xs by (simp add: hash)
  moreover have "?out (map Some ys) = ys" for ys :: "string list" by (induction ys) simp_all
  ultimately show ?thesis using run ok' by (auto simp: return_server_to_write_chunk_def cbind_Inr)
qed

lemma return_distinct_servers:
  assumes "turn_ok t" "connections t \<noteq> []" "distinct (map ip (connections t))"
    and "r \<le> int (length (connections t))" "\<And>xs. mset (hash_order xs) = mset xs"
  shows "\<exists>addrs i. return_server_to_write_chunk hash_order r t = Inr (addrs, t\<lparr>index_to_write := i\<rparr>) \<and>
    mset addrs = mset (turns (connections t) (next_turn t) (nat r)) \<and> distinct addrs \<and> length addrs = nat r \<and>
    turn_ok (t\<lparr>index_to_write := i\<rparr>) \<and>
    next_turn (t\<lparr>index_to_write := i\<rparr>) = (next_turn t + nat r) mod length (connections t)"
proof -
  obtain addrs i where "return_server_to_write_chunk hash_order r t = Inr (addrs, t\<lparr>index_to_write := i\<rparr>)"
    "turn_ok (t\<lparr>index_to_write := i\<rparr>)" "next_turn (t\<lparr>index_to_write := i\<rparr>) = (next_turn t + nat r) mod length (connections t)"
    and m: "mset addrs = mset (turns (connections t) (next_turn t) (nat r))"
    using return_server_run[OF assms] by blast
  moreover have "distinct addrs" using distinct_turns[OF assms(3)] assms(4) m by (metis mset_eq_imp_distinct_iff nat_le_iff)
  moreover have "length addrs = nat r" using mset_eq_length[OF m] by (simp add: turns_def)
  ultimately show ?thesis by blast
qed

end
