(* ===== verification/Master_Conn.thy ===== *)
theory Master_Conn
  imports Master_State Master_Link
begin

text \<open>
  A connection of the master: tcp_connection_to_storage/tcp_handler.rs. The loop reads one
  frame after the other, decodes it and changes the table, and takes the connection out of
  the table when the stream ends. Decoding is that of prost, an argument here.
\<close>

definition handle_message ::
  "(byte list \<Rightarrow> msg_type option) \<Rightarrow> string \<Rightarrow> string \<Rightarrow> byte list \<Rightarrow> TcpStorage \<Rightarrow> TcpStorage" where
  "handle_message decode cid addr buf t =
     (case decode buf of
        None \<Rightarrow> t
      | Some MsgNotSet \<Rightarrow> t
      | Some MsgJoin \<Rightarrow> storage_insert cid addr t
      | Some (MsgHealth file_state) \<Rightarrow> update_state cid file_state t)"

function connection_loop ::
  "(byte list \<Rightarrow> msg_type option) \<Rightarrow> string \<Rightarrow> string \<Rightarrow> byte list \<Rightarrow> TcpStorage \<Rightarrow> TcpStorage" where
  "connection_loop decode cid addr bytes t =
     (case read_frame bytes of
        None \<Rightarrow> storage_remove cid t
      | Some (buf, rest_bytes) \<Rightarrow>
          connection_loop decode cid addr rest_bytes (handle_message decode cid addr buf t))"
  by pat_completeness auto
termination
  by (relation "measure (\<lambda>(_, _, _, bytes, _). length bytes)") (auto simp: read_frame_def Let_def split: if_splits)

declare connection_loop.simps [simp del]

text \<open>The table after the whole frames received so far, the connection still open.\<close>

definition after_messages ::
  "(byte list \<Rightarrow> msg_type option) \<Rightarrow> string \<Rightarrow> string \<Rightarrow> byte list \<Rightarrow> TcpStorage \<Rightarrow> TcpStorage" where
  "after_messages decode cid addr bytes t = fold (handle_message decode cid addr) (fst (read_frames bytes)) t"

lemma connection_loop_frames:
  "connection_loop decode cid addr bytes t = storage_remove cid (after_messages decode cid addr bytes t)"
proof (induction decode cid addr bytes t rule: connection_loop.induct)
  case (1 decode cid addr bytes t)
  show ?case
  proof (cases "read_frame bytes")
    case None
    then show ?thesis by (simp add: connection_loop.simps[of _ _ _ bytes] after_messages_def read_frames.simps[of bytes])
  next
    case (Some r)
    obtain buf rb where r: "r = (buf, rb)" by (cases r)
    show ?thesis using 1[OF Some r[symmetric]] Some r
      by (simp add: connection_loop.simps[of _ _ _ bytes] after_messages_def read_frames.simps[of bytes]
          split: prod.split)
  qed
qed

section \<open>What the table knows\<close>

lemma update_first_last:
  assumes "cid \<notin> connection_id ` set cs" "connection_id c = cid"
  shows "update_first cid ms (cs @ [c]) = cs @ [connection_update ms c]"
  using assms by (induction cs) auto

definition joined :: "string \<Rightarrow> string \<Rightarrow> FileMappings list \<Rightarrow> TcpStorage \<Rightarrow> TcpStorage" where
  "joined cid addr ms t =
     t\<lparr>connections := connections t @ [\<lparr>connection_id = cid, ip = addr, files_to_chunks = ms\<rparr>],
       index_to_write := (if index_to_write t = - 1 then 0 else index_to_write t)\<rparr>"

lemma update_joined:
  "cid \<notin> connection_id ` set (connections t) \<Longrightarrow> update_state cid ms' (joined cid addr ms t) = joined cid addr ms' t"
  by (simp add: update_state_def joined_def update_first_last connection_update_def)

text \<open>The decoder reads what the node packs.\<close>

definition decodes :: "(byte list \<Rightarrow> msg_type option) \<Rightarrow> packer \<Rightarrow> msg_type \<Rightarrow> bool" where
  "decodes decode pk msg \<longleftrightarrow> decode (pk msg) = Some msg \<and> length (pk msg) < 2 ^ 32"

lemma after_reports:
  assumes new: "cid \<notin> connection_id ` set (connections t)"
    and dec: "decodes decode pk MsgJoin" "\<forall>cat \<in> set cats. decodes decode pk (health_of cat)"
  shows "after_messages decode cid addr
      (frame (pk MsgJoin) @ concat (map (\<lambda>cat. frame (pk (health_of cat))) cats)) t
    = joined cid addr (if cats = [] then [] else map to_mapping (last cats)) t"
proof -
  have frames: "read_frames (frame (pk MsgJoin) @ concat (map (\<lambda>cat. frame (pk (health_of cat))) cats))
      = (pk MsgJoin # map (\<lambda>cat. pk (health_of cat)) cats, [])"
    using read_frames_stream[of "pk MsgJoin # map (\<lambda>cat. pk (health_of cat)) cats" "[]"] dec
    by (auto simp: decodes_def read_frame_def comp_def)
  have join: "handle_message decode cid addr (pk MsgJoin) t = joined cid addr [] t"
    using dec(1) by (simp add: handle_message_def decodes_def joined_def storage_insert_def)
  have "fold (handle_message decode cid addr) (map (\<lambda>cat. pk (health_of cat)) cats) (joined cid addr ms t)
      = joined cid addr (if cats = [] then ms else map to_mapping (last cats)) t" for ms
    using dec(2)
  proof (induction cats arbitrary: ms)
    case (Cons cat cats)
    have "handle_message decode cid addr (pk (health_of cat)) (joined cid addr ms t)
        = joined cid addr (map to_mapping cat) t"
      using Cons.prems update_joined[OF new] by (simp add: handle_message_def decodes_def health_of_def)
    then show ?case using Cons by simp
  qed simp
  then show ?thesis by (simp add: after_messages_def frames join)
qed

lemma reports_catalogue:
  "reports \<lparr>connection_id = cid, ip = addr, files_to_chunks = map to_mapping cat\<rparr> f i
    \<longleftrightarrow> (\<exists>(g, ids) \<in> set cat. g = f \<and> i \<in> set ids)"
  by (force simp: reports_def to_mapping_def)

text \<open>A lookup sees the reported chunks of the new node and what it saw before.\<close>

lemma get_location_joined:
  "set (get_location f i (joined cid addr (map to_mapping cat) t))
    = set (get_location f i t) \<union> (if \<exists>(g, ids) \<in> set cat. g = f \<and> i \<in> set ids then {addr} else {})"
proof -
  have "connections (joined cid addr (map to_mapping cat) t)
      = connections t @ [\<lparr>connection_id = cid, ip = addr, files_to_chunks = map to_mapping cat\<rparr>]"
    by (simp add: joined_def)
  moreover have "{ip c | c. c \<in> set (cs @ [n]) \<and> reports c f i}
      = {ip c | c. c \<in> set cs \<and> reports c f i} \<union> (if reports n f i then {ip n} else {})" for cs n
    by auto
  ultimately show ?thesis unfolding get_location_exact reports_catalogue[symmetric, of cat f i cid addr] by simp
qed

text \<open>When the connection ends, the table is as it was before the join, but for the turn.\<close>

lemma remove_joined:
  "cid \<notin> connection_id ` set (connections t) \<Longrightarrow>
   connections (storage_remove cid (joined cid addr ms t)) = connections t"
  by (auto simp: storage_remove_def joined_def filter_id_conv)

end
