(* ===== verification/Proto_Generated.thy ===== *)
theory Proto_Generated
  imports C_Heap "HOL-Library.Char_ord"
begin

text \<open>
  The generated code of proto/data.pb-c.c: for each message type its six functions, which
  check the type of the object and call libprotobuf-c, and the descriptor tables the library
  works from. The library is a parameter: the size and the bytes of a message, and what it
  parses. A message object with everything it points to is one block here.
\<close>

section \<open>The library\<close>

record protobuf_c =
  message_size :: "message \<Rightarrow> nat"
  message_bytes :: "message \<Rightarrow> byte list"
  message_parse :: "descriptor \<Rightarrow> byte list \<Rightarrow> message option"

text \<open>The object at \<open>p\<close>; \<open>assert(message->base.descriptor == d)\<close>.\<close>

definition load_message :: "ptr \<Rightarrow> ('h heap_scheme, message) cm" where
  "load_message p = cbind (load p) (\<lambda>b. case b of
     MsgB (Some m) \<Rightarrow> cret m
   | MsgB None \<Rightarrow> cfail Uninitialised
   | _ \<Rightarrow> cfail TypeConfusion)"

definition assert_descriptor :: "descriptor \<Rightarrow> ptr \<Rightarrow> ('h heap_scheme, message) cm" where
  "assert_descriptor d p =
     cbind (load_message p) (\<lambda>m. if base_descriptor m = d then cret m else cfail AssertFailed)"

definition store_message :: "ptr \<Rightarrow> message \<Rightarrow> ('h heap_scheme, unit) cm" where
  "store_message p m = cbind (load p) (\<lambda>b. case b of
     MsgB _ \<Rightarrow> store p (MsgB (Some m))
   | _ \<Rightarrow> cfail TypeConfusion)"

text \<open>
  What the library does with an object that has passed the check: its size, its bytes written
  to \<open>out\<close> or appended to a buffer, a new object for bytes that parse, and its release.
\<close>

definition lib_pack :: "protobuf_c \<Rightarrow> message \<Rightarrow> ptr \<Rightarrow> ('h heap_scheme, nat) cm" where
  "lib_pack lib m out =
     cbind (copy_bytes out 0 (message_bytes lib m)) (\<lambda>_. cret (length (message_bytes lib m)))"

definition lib_pack_to_buffer :: "protobuf_c \<Rightarrow> message \<Rightarrow> byte list \<Rightarrow> ('h heap_scheme, nat \<times> byte list) cm" where
  "lib_pack_to_buffer lib m buffer = cret (length (message_bytes lib m), buffer @ message_bytes lib m)"

definition lib_unpack :: "protobuf_c \<Rightarrow> descriptor \<Rightarrow> byte list \<Rightarrow> ('h heap_scheme, ptr) cm" where
  "lib_unpack lib d bytes =
     (case message_parse lib d bytes of None \<Rightarrow> cret NULL | Some m \<Rightarrow> malloc_block (MsgB (Some m)))"

section \<open>The functions\<close>

text \<open>\<open>JoinMessageFromStorageToMaster\<close>.\<close>

definition join_message_from_storage_to_master_init :: "ptr \<Rightarrow> ('h heap_scheme, unit) cm" where
  "join_message_from_storage_to_master_init p =
     store_message p \<lparr>base_descriptor = JoinDescriptor, payload = JoinP\<rparr>"

definition join_message_from_storage_to_master_get_packed_size :: "protobuf_c \<Rightarrow> ptr \<Rightarrow> ('h heap_scheme, nat) cm" where
  "join_message_from_storage_to_master_get_packed_size lib p =
     cbind (assert_descriptor JoinDescriptor p) (\<lambda>m. cret (message_size lib m))"

definition join_message_from_storage_to_master_pack :: "protobuf_c \<Rightarrow> ptr \<Rightarrow> ptr \<Rightarrow> ('h heap_scheme, nat) cm" where
  "join_message_from_storage_to_master_pack lib p out =
     cbind (assert_descriptor JoinDescriptor p) (\<lambda>m. lib_pack lib m out)"

definition join_message_from_storage_to_master_pack_to_buffer ::
  "protobuf_c \<Rightarrow> ptr \<Rightarrow> byte list \<Rightarrow> ('h heap_scheme, nat \<times> byte list) cm" where
  "join_message_from_storage_to_master_pack_to_buffer lib p buffer =
     cbind (assert_descriptor JoinDescriptor p) (\<lambda>m. lib_pack_to_buffer lib m buffer)"

definition join_message_from_storage_to_master_unpack :: "protobuf_c \<Rightarrow> byte list \<Rightarrow> ('h heap_scheme, ptr) cm" where
  "join_message_from_storage_to_master_unpack lib bytes = lib_unpack lib JoinDescriptor bytes"

definition join_message_from_storage_to_master_free_unpacked :: "ptr \<Rightarrow> ('h heap_scheme, unit) cm" where
  "join_message_from_storage_to_master_free_unpacked p =
     (if p = NULL then cret ()
      else cbind (assert_descriptor JoinDescriptor p) (\<lambda>_. c_free p))"

text \<open>\<open>FileMappings\<close>.\<close>

definition file_mappings_init :: "ptr \<Rightarrow> ('h heap_scheme, unit) cm" where
  "file_mappings_init p =
     store_message p \<lparr>base_descriptor = FileMappingsDescriptor, payload = FileMappingsP \<lparr>mapping_filename = '''', mapping_chunk_ids = []\<rparr>\<rparr>"

definition file_mappings_get_packed_size :: "protobuf_c \<Rightarrow> ptr \<Rightarrow> ('h heap_scheme, nat) cm" where
  "file_mappings_get_packed_size lib p =
     cbind (assert_descriptor FileMappingsDescriptor p) (\<lambda>m. cret (message_size lib m))"

definition file_mappings_pack :: "protobuf_c \<Rightarrow> ptr \<Rightarrow> ptr \<Rightarrow> ('h heap_scheme, nat) cm" where
  "file_mappings_pack lib p out =
     cbind (assert_descriptor FileMappingsDescriptor p) (\<lambda>m. lib_pack lib m out)"

definition file_mappings_pack_to_buffer ::
  "protobuf_c \<Rightarrow> ptr \<Rightarrow> byte list \<Rightarrow> ('h heap_scheme, nat \<times> byte list) cm" where
  "file_mappings_pack_to_buffer lib p buffer =
     cbind (assert_descriptor FileMappingsDescriptor p) (\<lambda>m. lib_pack_to_buffer lib m buffer)"

definition file_mappings_unpack :: "protobuf_c \<Rightarrow> byte list \<Rightarrow> ('h heap_scheme, ptr) cm" where
  "file_mappings_unpack lib bytes = lib_unpack lib FileMappingsDescriptor bytes"

definition file_mappings_free_unpacked :: "ptr \<Rightarrow> ('h heap_scheme, unit) cm" where
  "file_mappings_free_unpacked p =
     (if p = NULL then cret ()
      else cbind (assert_descriptor FileMappingsDescriptor p) (\<lambda>_. c_free p))"

text \<open>\<open>HealthMessageFromStorageToMaster\<close>.\<close>

definition health_message_from_storage_to_master_init :: "ptr \<Rightarrow> ('h heap_scheme, unit) cm" where
  "health_message_from_storage_to_master_init p =
     store_message p \<lparr>base_descriptor = HealthDescriptor, payload = HealthP []\<rparr>"

definition health_message_from_storage_to_master_get_packed_size :: "protobuf_c \<Rightarrow> ptr \<Rightarrow> ('h heap_scheme, nat) cm" where
  "health_message_from_storage_to_master_get_packed_size lib p =
     cbind (assert_descriptor HealthDescriptor p) (\<lambda>m. cret (message_size lib m))"

definition health_message_from_storage_to_master_pack :: "protobuf_c \<Rightarrow> ptr \<Rightarrow> ptr \<Rightarrow> ('h heap_scheme, nat) cm" where
  "health_message_from_storage_to_master_pack lib p out =
     cbind (assert_descriptor HealthDescriptor p) (\<lambda>m. lib_pack lib m out)"

definition health_message_from_storage_to_master_pack_to_buffer ::
  "protobuf_c \<Rightarrow> ptr \<Rightarrow> byte list \<Rightarrow> ('h heap_scheme, nat \<times> byte list) cm" where
  "health_message_from_storage_to_master_pack_to_buffer lib p buffer =
     cbind (assert_descriptor HealthDescriptor p) (\<lambda>m. lib_pack_to_buffer lib m buffer)"

definition health_message_from_storage_to_master_unpack :: "protobuf_c \<Rightarrow> byte list \<Rightarrow> ('h heap_scheme, ptr) cm" where
  "health_message_from_storage_to_master_unpack lib bytes = lib_unpack lib HealthDescriptor bytes"

definition health_message_from_storage_to_master_free_unpacked :: "ptr \<Rightarrow> ('h heap_scheme, unit) cm" where
  "health_message_from_storage_to_master_free_unpacked p =
     (if p = NULL then cret ()
      else cbind (assert_descriptor HealthDescriptor p) (\<lambda>_. c_free p))"

text \<open>\<open>MessageFromMasterToStorage\<close>.\<close>

definition message_from_master_to_storage_init :: "ptr \<Rightarrow> ('h heap_scheme, unit) cm" where
  "message_from_master_to_storage_init p =
     store_message p \<lparr>base_descriptor = MasterDescriptor, payload = MasterP \<lparr>msg_id = ''''\<rparr>\<rparr>"

definition message_from_master_to_storage_get_packed_size :: "protobuf_c \<Rightarrow> ptr \<Rightarrow> ('h heap_scheme, nat) cm" where
  "message_from_master_to_storage_get_packed_size lib p =
     cbind (assert_descriptor MasterDescriptor p) (\<lambda>m. cret (message_size lib m))"

definition message_from_master_to_storage_pack :: "protobuf_c \<Rightarrow> ptr \<Rightarrow> ptr \<Rightarrow> ('h heap_scheme, nat) cm" where
  "message_from_master_to_storage_pack lib p out =
     cbind (assert_descriptor MasterDescriptor p) (\<lambda>m. lib_pack lib m out)"

definition message_from_master_to_storage_pack_to_buffer ::
  "protobuf_c \<Rightarrow> ptr \<Rightarrow> byte list \<Rightarrow> ('h heap_scheme, nat \<times> byte list) cm" where
  "message_from_master_to_storage_pack_to_buffer lib p buffer =
     cbind (assert_descriptor MasterDescriptor p) (\<lambda>m. lib_pack_to_buffer lib m buffer)"

definition message_from_master_to_storage_unpack :: "protobuf_c \<Rightarrow> byte list \<Rightarrow> ('h heap_scheme, ptr) cm" where
  "message_from_master_to_storage_unpack lib bytes = lib_unpack lib MasterDescriptor bytes"

definition message_from_master_to_storage_free_unpacked :: "ptr \<Rightarrow> ('h heap_scheme, unit) cm" where
  "message_from_master_to_storage_free_unpacked p =
     (if p = NULL then cret ()
      else cbind (assert_descriptor MasterDescriptor p) (\<lambda>_. c_free p))"

text \<open>\<open>MessageFromStorageToMaster\<close>.\<close>

definition message_from_storage_to_master_init :: "ptr \<Rightarrow> ('h heap_scheme, unit) cm" where
  "message_from_storage_to_master_init p =
     store_message p \<lparr>base_descriptor = StorageDescriptor, payload = StorageP MsgNotSet\<rparr>"

definition message_from_storage_to_master_get_packed_size :: "protobuf_c \<Rightarrow> ptr \<Rightarrow> ('h heap_scheme, nat) cm" where
  "message_from_storage_to_master_get_packed_size lib p =
     cbind (assert_descriptor StorageDescriptor p) (\<lambda>m. cret (message_size lib m))"

definition message_from_storage_to_master_pack :: "protobuf_c \<Rightarrow> ptr \<Rightarrow> ptr \<Rightarrow> ('h heap_scheme, nat) cm" where
  "message_from_storage_to_master_pack lib p out =
     cbind (assert_descriptor StorageDescriptor p) (\<lambda>m. lib_pack lib m out)"

definition message_from_storage_to_master_pack_to_buffer ::
  "protobuf_c \<Rightarrow> ptr \<Rightarrow> byte list \<Rightarrow> ('h heap_scheme, nat \<times> byte list) cm" where
  "message_from_storage_to_master_pack_to_buffer lib p buffer =
     cbind (assert_descriptor StorageDescriptor p) (\<lambda>m. lib_pack_to_buffer lib m buffer)"

definition message_from_storage_to_master_unpack :: "protobuf_c \<Rightarrow> byte list \<Rightarrow> ('h heap_scheme, ptr) cm" where
  "message_from_storage_to_master_unpack lib bytes = lib_unpack lib StorageDescriptor bytes"

definition message_from_storage_to_master_free_unpacked :: "ptr \<Rightarrow> ('h heap_scheme, unit) cm" where
  "message_from_storage_to_master_free_unpacked p =
     (if p = NULL then cret ()
      else cbind (assert_descriptor StorageDescriptor p) (\<lambda>_. c_free p))"

section \<open>The descriptors\<close>

text \<open>
  An offset is the name of the member, a size that of the type. The function pointer to the
  initialiser and the reserved members are left out.
\<close>

datatype label = LabelNone | LabelRepeated
datatype field_type = TypeString | TypeInt32 | TypeMessage
datatype field_flag = FlagPacked | FlagOneof

record field_descriptor =
  fd_name :: string
  fd_id :: nat
  fd_label :: label
  fd_type :: field_type
  quantifier_offset :: "string option"
  fd_offset :: string
  sub_descriptor :: "descriptor option"
  default_value :: "string option"
  fd_flags :: "field_flag option"

record int_range =
  start_value :: nat
  orig_index :: nat

record message_descriptor =
  md_name :: string
  short_name :: string
  c_name :: string
  package_name :: string
  sizeof_message :: string
  n_fields :: nat
  md_fields :: "field_descriptor list"
  fields_sorted_by_name :: "nat list"
  n_field_ranges :: nat
  field_ranges :: "int_range list"

definition join_message_from_storage_to_master_descriptor :: message_descriptor where
  "join_message_from_storage_to_master_descriptor =
     \<lparr>md_name = ''data.JoinMessageFromStorageToMaster'', short_name = ''JoinMessageFromStorageToMaster'',
      c_name = ''Data__JoinMessageFromStorageToMaster'', package_name = ''data'', sizeof_message = ''Data__JoinMessageFromStorageToMaster'',
      n_fields = 0,
      md_fields = [],
      fields_sorted_by_name = [],
      n_field_ranges = 0, field_ranges = []\<rparr>"

definition file_mappings_field_descriptors :: "field_descriptor list" where
  "file_mappings_field_descriptors =
    [\<lparr>fd_name = ''filename'', fd_id = 1, fd_label = LabelNone, fd_type = TypeString,
      quantifier_offset = None, fd_offset = ''filename'', sub_descriptor = None, default_value = Some '''', fd_flags = None\<rparr>,
     \<lparr>fd_name = ''chunk_ids'', fd_id = 2, fd_label = LabelRepeated, fd_type = TypeInt32,
      quantifier_offset = Some ''n_chunk_ids'', fd_offset = ''chunk_ids'', sub_descriptor = None, default_value = None, fd_flags = Some FlagPacked\<rparr>]"

definition file_mappings_descriptor :: message_descriptor where
  "file_mappings_descriptor =
     \<lparr>md_name = ''data.FileMappings'', short_name = ''FileMappings'',
      c_name = ''Data__FileMappings'', package_name = ''data'', sizeof_message = ''Data__FileMappings'',
      n_fields = 2,
      md_fields = file_mappings_field_descriptors,
      fields_sorted_by_name = [1, 0],
      n_field_ranges = 1, field_ranges = [\<lparr>start_value = 1, orig_index = 0\<rparr>, \<lparr>start_value = 0, orig_index = 2\<rparr>]\<rparr>"

definition health_message_from_storage_to_master_field_descriptors :: "field_descriptor list" where
  "health_message_from_storage_to_master_field_descriptors =
    [\<lparr>fd_name = ''file_mappings'', fd_id = 1, fd_label = LabelRepeated, fd_type = TypeMessage,
      quantifier_offset = Some ''n_file_mappings'', fd_offset = ''file_mappings'', sub_descriptor = Some FileMappingsDescriptor, default_value = None, fd_flags = None\<rparr>]"

definition health_message_from_storage_to_master_descriptor :: message_descriptor where
  "health_message_from_storage_to_master_descriptor =
     \<lparr>md_name = ''data.HealthMessageFromStorageToMaster'', short_name = ''HealthMessageFromStorageToMaster'',
      c_name = ''Data__HealthMessageFromStorageToMaster'', package_name = ''data'', sizeof_message = ''Data__HealthMessageFromStorageToMaster'',
      n_fields = 1,
      md_fields = health_message_from_storage_to_master_field_descriptors,
      fields_sorted_by_name = [0],
      n_field_ranges = 1, field_ranges = [\<lparr>start_value = 1, orig_index = 0\<rparr>, \<lparr>start_value = 0, orig_index = 1\<rparr>]\<rparr>"

definition message_from_master_to_storage_field_descriptors :: "field_descriptor list" where
  "message_from_master_to_storage_field_descriptors =
    [\<lparr>fd_name = ''id'', fd_id = 1, fd_label = LabelNone, fd_type = TypeString,
      quantifier_offset = None, fd_offset = ''id'', sub_descriptor = None, default_value = Some '''', fd_flags = None\<rparr>]"

definition message_from_master_to_storage_descriptor :: message_descriptor where
  "message_from_master_to_storage_descriptor =
     \<lparr>md_name = ''data.MessageFromMasterToStorage'', short_name = ''MessageFromMasterToStorage'',
      c_name = ''Data__MessageFromMasterToStorage'', package_name = ''data'', sizeof_message = ''Data__MessageFromMasterToStorage'',
      n_fields = 1,
      md_fields = message_from_master_to_storage_field_descriptors,
      fields_sorted_by_name = [0],
      n_field_ranges = 1, field_ranges = [\<lparr>start_value = 1, orig_index = 0\<rparr>, \<lparr>start_value = 0, orig_index = 1\<rparr>]\<rparr>"

definition message_from_storage_to_master_field_descriptors :: "field_descriptor list" where
  "message_from_storage_to_master_field_descriptors =
    [\<lparr>fd_name = ''join'', fd_id = 1, fd_label = LabelNone, fd_type = TypeMessage,
      quantifier_offset = Some ''msg_type_case'', fd_offset = ''join'', sub_descriptor = Some JoinDescriptor, default_value = None, fd_flags = Some FlagOneof\<rparr>,
     \<lparr>fd_name = ''health'', fd_id = 2, fd_label = LabelNone, fd_type = TypeMessage,
      quantifier_offset = Some ''msg_type_case'', fd_offset = ''health'', sub_descriptor = Some HealthDescriptor, default_value = None, fd_flags = Some FlagOneof\<rparr>]"

definition message_from_storage_to_master_descriptor :: message_descriptor where
  "message_from_storage_to_master_descriptor =
     \<lparr>md_name = ''data.MessageFromStorageToMaster'', short_name = ''MessageFromStorageToMaster'',
      c_name = ''Data__MessageFromStorageToMaster'', package_name = ''data'', sizeof_message = ''Data__MessageFromStorageToMaster'',
      n_fields = 2,
      md_fields = message_from_storage_to_master_field_descriptors,
      fields_sorted_by_name = [1, 0],
      n_field_ranges = 1, field_ranges = [\<lparr>start_value = 1, orig_index = 0\<rparr>, \<lparr>start_value = 0, orig_index = 2\<rparr>]\<rparr>"

fun descriptor_table :: "descriptor \<Rightarrow> message_descriptor" where
  "descriptor_table JoinDescriptor = join_message_from_storage_to_master_descriptor"
| "descriptor_table FileMappingsDescriptor = file_mappings_descriptor"
| "descriptor_table HealthDescriptor = health_message_from_storage_to_master_descriptor"
| "descriptor_table MasterDescriptor = message_from_master_to_storage_descriptor"
| "descriptor_table StorageDescriptor = message_from_storage_to_master_descriptor"

end
