(* ===== verification/Proto_Messages.thy ===== *)
theory Proto_Messages
  imports Proto_Generated Tcp_Client
begin

text \<open>
  The generated functions of each message type meet one contract, stated as a locale: on an
  object of their type they are the library's functions, and on another they fail an
  assertion. With a library that parses what it packs, a message survives the exchange; and
  the two parameters of the reports are the generated functions.
\<close>

section \<open>The library's contract\<close>

fun fits :: "descriptor \<Rightarrow> payload \<Rightarrow> bool" where
  "fits JoinDescriptor JoinP \<longleftrightarrow> True"
| "fits FileMappingsDescriptor (FileMappingsP fm) \<longleftrightarrow> list_all in_int (mapping_chunk_ids fm)"
| "fits HealthDescriptor (HealthP fms) \<longleftrightarrow> list_all (\<lambda>fm. list_all in_int (mapping_chunk_ids fm)) fms"
| "fits MasterDescriptor (MasterP m) \<longleftrightarrow> True"
| "fits StorageDescriptor (StorageP (MsgHealth fms)) \<longleftrightarrow>
     list_all (\<lambda>fm. list_all in_int (mapping_chunk_ids fm)) fms"
| "fits StorageDescriptor (StorageP _) \<longleftrightarrow> True"
| "fits _ _ \<longleftrightarrow> False"

definition library_ok :: "protobuf_c \<Rightarrow> bool" where
  "library_ok lib \<longleftrightarrow>
     (\<forall>m. length (message_bytes lib m) = message_size lib m) \<and>
     (\<forall>m. fits (base_descriptor m) (payload m) \<longrightarrow>
        message_parse lib (base_descriptor m) (message_bytes lib m) = Some m) \<and>
     (\<forall>d bs m. message_parse lib d bs = Some m \<longrightarrow> base_descriptor m = d \<and> fits d (payload m))"

text \<open>An object packed into a new block, the way the node does it.\<close>

definition pack_new ::
  "(protobuf_c \<Rightarrow> ptr \<Rightarrow> ('h heap_scheme, nat) cm) \<Rightarrow> (protobuf_c \<Rightarrow> ptr \<Rightarrow> ptr \<Rightarrow> ('h heap_scheme, nat) cm)
    \<Rightarrow> protobuf_c \<Rightarrow> ptr \<Rightarrow> ('h heap_scheme, ptr \<times> nat) cm" where
  "pack_new get_packed_size pack lib p =
     cbind (get_packed_size lib p) (\<lambda>len.
     cbind (malloc_block (ByteB (replicate len None))) (\<lambda>out.
     cbind (pack lib p out) (\<lambda>_. cret (out, len))))"

section \<open>The contract of a message type\<close>

locale generated_message =
  fixes D :: descriptor
    and get_packed_size :: "protobuf_c \<Rightarrow> ptr \<Rightarrow> ('h heap_scheme, nat) cm"
    and pack :: "protobuf_c \<Rightarrow> ptr \<Rightarrow> ptr \<Rightarrow> ('h heap_scheme, nat) cm"
    and pack_to_buffer :: "protobuf_c \<Rightarrow> ptr \<Rightarrow> byte list \<Rightarrow> ('h heap_scheme, nat \<times> byte list) cm"
    and unpack :: "protobuf_c \<Rightarrow> byte list \<Rightarrow> ('h heap_scheme, ptr) cm"
    and free_unpacked :: "ptr \<Rightarrow> ('h heap_scheme, unit) cm"
  assumes size_law: "p \<noteq> NULL \<Longrightarrow> mem s p = Some (MsgB (Some m)) \<Longrightarrow>
      get_packed_size lib p s = (if base_descriptor m = D then Inr (message_size lib m, s) else Inl AssertFailed)"
    and pack_law: "p \<noteq> NULL \<Longrightarrow> mem s p = Some (MsgB (Some m)) \<Longrightarrow>
      pack lib p out s = (if base_descriptor m = D then lib_pack lib m out s else Inl AssertFailed)"
    and buffer_law: "p \<noteq> NULL \<Longrightarrow> mem s p = Some (MsgB (Some m)) \<Longrightarrow>
      pack_to_buffer lib p bs s
        = (if base_descriptor m = D then lib_pack_to_buffer lib m bs s else Inl AssertFailed)"
    and unpack_law: "unpack lib bs s = lib_unpack lib D bs s"
    and free_law: "p \<noteq> NULL \<Longrightarrow> mem s p = Some (MsgB (Some m)) \<Longrightarrow>
      free_unpacked p s
        = (if base_descriptor m = D then Inr ((), s\<lparr>mem := (mem s)(p := None)\<rparr>) else Inl AssertFailed)"
begin

lemma pack_new_run:
  assumes lib: "library_ok lib" and p: "p \<noteq> NULL" "mem s p = Some (MsgB (Some m))" "base_descriptor m = D"
    and heap: "heap_ok s" "\<not> oom s (brk s)"
  shows "pack_new get_packed_size pack lib p s
    = Inr ((brk s, message_size lib m),
        s\<lparr>mem := (mem s)(brk s \<mapsto> ByteB (map Some (message_bytes lib m))), brk := Suc (brk s)\<rparr>)"
proof -
  have old: "p \<noteq> brk s" "brk s \<noteq> NULL" using heap_okD[OF heap(1) p(2)] heap_ok_brk[OF heap(1)] by simp_all
  have len: "length (message_bytes lib m) = message_size lib m" using lib by (simp add: library_ok_def)
  show ?thesis
    using p old heap(2) len
    by (simp add: pack_new_def cbind_def malloc_block_def size_law pack_law lib_pack_def copy_all_bytes)
qed

text \<open>Packed, parsed and freed: the new object is the old one, and only the bytes are left.\<close>

lemma exchange:
  assumes lib: "library_ok lib" and p: "p \<noteq> NULL" "mem s p = Some (MsgB (Some m))" "base_descriptor m = D"
    and fits: "fits D (payload m)" and heap: "heap_ok s" "no_oom s"
  shows "\<exists>out s1 q s2 s3. pack_new get_packed_size pack lib p s = Inr ((out, message_size lib m), s1) \<and>
    mem s1 = (mem s)(out \<mapsto> ByteB (map Some (message_bytes lib m))) \<and>
    unpack lib (message_bytes lib m) s1 = Inr (q, s2) \<and> mem s2 q = Some (MsgB (Some m)) \<and>
    free_unpacked q s2 = Inr ((), s3) \<and> mem s3 = mem s1"
proof -
  let ?s1 = "s\<lparr>mem := (mem s)(brk s \<mapsto> ByteB (map Some (message_bytes lib m))), brk := Suc (brk s)\<rparr>"
  have oom: "\<not> oom s k" for k using heap(2) by (simp add: no_oom_def)
  note run = pack_new_run[OF lib p heap(1) oom]
  have fresh: "mem s (Suc (brk s)) = None"
    using heap(1) by (cases "mem s (Suc (brk s))") (auto simp: heap_ok_def)
  have parse: "message_parse lib D (message_bytes lib m) = Some m"
    using lib fits p(3) by (auto simp: library_ok_def)
  have "unpack lib (message_bytes lib m) ?s1
      = Inr (Suc (brk s), ?s1\<lparr>mem := (mem ?s1)(Suc (brk s) \<mapsto> MsgB (Some m)), brk := Suc (Suc (brk s))\<rparr>)"
    using oom by (simp add: unpack_law lib_unpack_def parse malloc_block_def)
  moreover have "free_unpacked (Suc (brk s))
      (?s1\<lparr>mem := (mem ?s1)(Suc (brk s) \<mapsto> MsgB (Some m)), brk := Suc (Suc (brk s))\<rparr>)
    = Inr ((), ?s1\<lparr>mem := (mem ?s1)(Suc (brk s) := None), brk := Suc (Suc (brk s))\<rparr>)"
    using p(3) by (simp add: free_law)
  moreover have "(mem ?s1)(Suc (brk s) := None) = mem ?s1" using fresh by (simp add: fun_upd_idem_iff)
  ultimately show ?thesis using run by fastforce
qed

lemma wrong_type:
  assumes "p \<noteq> NULL" "mem s p = Some (MsgB (Some m))" "base_descriptor m \<noteq> D"
  shows "pack_new get_packed_size pack lib p s = Inl AssertFailed" "free_unpacked p s = Inl AssertFailed"
  using assms by (simp_all add: pack_new_def cbind_def size_law free_law)

end

section \<open>The five types\<close>

lemma assert_descriptor_run [cm_run]:
  "p \<noteq> NULL \<Longrightarrow> mem s p = Some (MsgB (Some m)) \<Longrightarrow>
   assert_descriptor d p s = (if base_descriptor m = d then Inr (m, s) else Inl AssertFailed)"
  by (simp add: assert_descriptor_def load_message_def cbind_def load_ok)

lemmas generated_defs =
  join_message_from_storage_to_master_get_packed_size_def join_message_from_storage_to_master_pack_def
  join_message_from_storage_to_master_pack_to_buffer_def join_message_from_storage_to_master_unpack_def
  join_message_from_storage_to_master_free_unpacked_def
  file_mappings_get_packed_size_def file_mappings_pack_def file_mappings_pack_to_buffer_def
  file_mappings_unpack_def file_mappings_free_unpacked_def
  health_message_from_storage_to_master_get_packed_size_def health_message_from_storage_to_master_pack_def
  health_message_from_storage_to_master_pack_to_buffer_def health_message_from_storage_to_master_unpack_def
  health_message_from_storage_to_master_free_unpacked_def
  message_from_master_to_storage_get_packed_size_def message_from_master_to_storage_pack_def
  message_from_master_to_storage_pack_to_buffer_def message_from_master_to_storage_unpack_def
  message_from_master_to_storage_free_unpacked_def
  message_from_storage_to_master_get_packed_size_def message_from_storage_to_master_pack_def
  message_from_storage_to_master_pack_to_buffer_def message_from_storage_to_master_unpack_def
  message_from_storage_to_master_free_unpacked_def

interpretation join_type: generated_message JoinDescriptor join_message_from_storage_to_master_get_packed_size
    join_message_from_storage_to_master_pack join_message_from_storage_to_master_pack_to_buffer
    join_message_from_storage_to_master_unpack join_message_from_storage_to_master_free_unpacked
  by unfold_locales (simp_all add: generated_defs cbind_def assert_descriptor_run c_free_def)

interpretation mappings_type: generated_message FileMappingsDescriptor file_mappings_get_packed_size
    file_mappings_pack file_mappings_pack_to_buffer file_mappings_unpack file_mappings_free_unpacked
  by unfold_locales (simp_all add: generated_defs cbind_def assert_descriptor_run c_free_def)

interpretation health_type: generated_message HealthDescriptor health_message_from_storage_to_master_get_packed_size
    health_message_from_storage_to_master_pack health_message_from_storage_to_master_pack_to_buffer
    health_message_from_storage_to_master_unpack health_message_from_storage_to_master_free_unpacked
  by unfold_locales (simp_all add: generated_defs cbind_def assert_descriptor_run c_free_def)

interpretation master_type: generated_message MasterDescriptor message_from_master_to_storage_get_packed_size
    message_from_master_to_storage_pack message_from_master_to_storage_pack_to_buffer
    message_from_master_to_storage_unpack message_from_master_to_storage_free_unpacked
  by unfold_locales (simp_all add: generated_defs cbind_def assert_descriptor_run c_free_def)

interpretation storage_type: generated_message StorageDescriptor message_from_storage_to_master_get_packed_size
    message_from_storage_to_master_pack message_from_storage_to_master_pack_to_buffer
    message_from_storage_to_master_unpack message_from_storage_to_master_free_unpacked
  by unfold_locales (simp_all add: generated_defs cbind_def assert_descriptor_run c_free_def)

section \<open>The codec of the node\<close>

text \<open>
  The parameters of the report, the join message and the client, as the generated functions
  have them: for the objects made from the \<open>INIT\<close> macros the assertions hold.
\<close>

definition storage_message :: "msg_type \<Rightarrow> message" where
  "storage_message msg = \<lparr>base_descriptor = StorageDescriptor, payload = StorageP msg\<rparr>"

definition codec_size :: "protobuf_c \<Rightarrow> packed_size" where
  "codec_size lib msg = message_size lib (storage_message msg)"

definition codec_pack :: "protobuf_c \<Rightarrow> packer" where
  "codec_pack lib msg = message_bytes lib (storage_message msg)"

definition codec_unpack :: "protobuf_c \<Rightarrow> byte list \<Rightarrow> MessageFromMasterToStorage option" where
  "codec_unpack lib bytes =
     (case message_parse lib MasterDescriptor bytes of
        Some m \<Rightarrow> (case payload m of MasterP r \<Rightarrow> Some r | _ \<Rightarrow> None)
      | None \<Rightarrow> None)"

text \<open>What the master's side reads: the message of a frame, by the same library.\<close>

definition codec_decode :: "protobuf_c \<Rightarrow> byte list \<Rightarrow> msg_type option" where
  "codec_decode lib bytes =
     (case message_parse lib StorageDescriptor bytes of
        Some m \<Rightarrow> (case payload m of StorageP msg \<Rightarrow> Some msg | _ \<Rightarrow> None)
      | None \<Rightarrow> None)"

lemma codec_decode_pack:
  assumes "library_ok lib" "fits StorageDescriptor (StorageP msg)"
  shows "codec_decode lib (codec_pack lib msg) = Some msg"
proof -
  let ?m = "storage_message msg"
  have "fits (base_descriptor ?m) (payload ?m)" using assms(2) by (simp add: storage_message_def)
  then have "message_parse lib (base_descriptor ?m) (message_bytes lib ?m) = Some ?m"
    using assms(1) unfolding library_ok_def by blast
  then show ?thesis by (simp add: codec_decode_def codec_pack_def storage_message_def)
qed

lemma codec_packs: "library_ok lib \<Longrightarrow> packs_to_size (codec_size lib) (codec_pack lib)"
  by (simp add: library_ok_def packs_to_size_def codec_size_def codec_pack_def)

lemma join_message_generated:
  assumes lib: "library_ok lib" and p: "p \<noteq> NULL" "mem s p = Some (MsgB (Some (storage_message MsgJoin)))"
    and heap: "heap_ok s" "\<not> oom s (brk s)"
  shows "join_message (codec_size lib) (codec_pack lib) s
    = pack_new message_from_storage_to_master_get_packed_size message_from_storage_to_master_pack lib p s"
proof -
  have len: "length (codec_pack lib MsgJoin) = codec_size lib MsgJoin"
    using codec_packs[OF lib] by (simp add: packs_to_size_def)
  have "join_message (codec_size lib) (codec_pack lib) s
    = Inr ((brk s, codec_size lib MsgJoin),
        s\<lparr>mem := (mem s)(brk s \<mapsto> ByteB (map Some (codec_pack lib MsgJoin))), brk := Suc (brk s)\<rparr>)"
    using heap heap_ok_brk[OF heap(1)] len
    by (simp add: join_message_def Let_def cbind_def malloc_block_def copy_all_bytes)
  moreover have "base_descriptor (storage_message MsgJoin) = StorageDescriptor" by (simp add: storage_message_def)
  ultimately show ?thesis using storage_type.pack_new_run[OF lib p _ heap] by (simp add: codec_size_def codec_pack_def)
qed

lemma unpack_message_generated:
  assumes "library_ok lib"
  shows "unpack_message (codec_unpack lib) bytes s = message_from_master_to_storage_unpack lib bytes s"
proof (cases "message_parse lib MasterDescriptor bytes")
  case None
  then show ?thesis
    by (simp add: unpack_message_def codec_unpack_def message_from_master_to_storage_unpack_def lib_unpack_def)
next
  case (Some m)
  then have m: "base_descriptor m = MasterDescriptor" "fits MasterDescriptor (payload m)"
    using assms by (auto simp: library_ok_def)
  then obtain r where "payload m = MasterP r" by (cases "payload m") simp_all
  then have "m = \<lparr>base_descriptor = MasterDescriptor, payload = MasterP r\<rparr>" using m(1) by (cases m) simp
  then show ?thesis using Some
    by (simp add: unpack_message_def codec_unpack_def message_from_master_to_storage_unpack_def lib_unpack_def)
qed

end
