(* ===== verification/Master_Tasks.thy ===== *)
theory Master_Tasks
  imports Master_Conn Proto_Messages
begin

text \<open>
  The tasks of the master: for every connection of a node a reader
  (tcp_connection_to_storage/tcp_handler.rs) and a sender of health checks
  (loop_health_check_sender.rs), and the requests of clients that take turns. They share the
  table, each access under its lock; a step is one access.
\<close>

section \<open>The state\<close>

text \<open>
  A connection: its address, the bytes received and not yet read, the frames read so far,
  whether the reader is in its loop, \<open>shared_conn_state\<close>, where the sender of health checks is,
  and the bytes it has written. The sender waits for its timer, is about to write, or has ended.
\<close>

datatype sender = Ticking | Writing | SenderDone

record conn_task =
  task_addr :: string
  received :: "byte list"
  frames_read :: "byte list list"
  reading :: bool
  shared_conn_state :: bool
  sender :: sender
  written :: "byte list"

record master_state =
  tcp_storage :: TcpStorage
  tasks :: "string \<Rightarrow> conn_task option"

text \<open>\<open>encoded_message\<close>: the id of the connection, and a line feed.\<close>

definition health_check :: "(MessageFromMasterToStorage \<Rightarrow> byte list) \<Rightarrow> string \<Rightarrow> byte list" where
  "health_check encode cid = encode \<lparr>msg_id = cid\<rparr> @ [10]"

section \<open>The steps\<close>

definition accept_task :: "string \<Rightarrow> conn_task" where
  "accept_task addr = \<lparr>task_addr = addr, received = [], frames_read = [], reading = True,
     shared_conn_state = True, sender = Ticking, written = []\<rparr>"

definition set_task :: "string \<Rightarrow> conn_task \<Rightarrow> master_state \<Rightarrow> master_state" where
  "set_task cid k M = M\<lparr>tasks := (tasks M)(cid \<mapsto> k)\<rparr>"

text \<open>A join message sets the flag of the sender again.\<close>

definition read_one_frame ::
  "(byte list \<Rightarrow> msg_type option) \<Rightarrow> string \<Rightarrow> conn_task \<Rightarrow> byte list \<Rightarrow> byte list \<Rightarrow> master_state \<Rightarrow> master_state" where
  "read_one_frame decode cid k buf bytes M =
     (set_task cid (k\<lparr>received := bytes, frames_read := frames_read k @ [buf],
        shared_conn_state := (shared_conn_state k \<or> decode buf = Some MsgJoin)\<rparr>) M)
       \<lparr>tcp_storage := handle_message decode cid (task_addr k) buf (tcp_storage M)\<rparr>"

definition end_task :: "string \<Rightarrow> conn_task \<Rightarrow> master_state \<Rightarrow> master_state" where
  "end_task cid k M =
     (set_task cid (k\<lparr>reading := False, shared_conn_state := False\<rparr>) M)
       \<lparr>tcp_storage := storage_remove cid (tcp_storage M)\<rparr>"

text \<open>
  A step of one connection: bytes come in, the reader takes a frame or ends, the sender's timer
  fires. \<open>write\<close> sends some of the bytes it is given and says how many, which the sender does
  not look at; an error of \<open>write\<close>, or of \<open>flush\<close> after it, is a panic of the sender alone.
\<close>

inductive conn_step ::
  "(byte list \<Rightarrow> msg_type option) \<Rightarrow> (MessageFromMasterToStorage \<Rightarrow> byte list) \<Rightarrow> master_state \<Rightarrow> master_state \<Rightarrow> bool"
  for decode encode where
  arrive: "tasks M cid = Some k \<Longrightarrow>
    conn_step decode encode M (set_task cid (k\<lparr>received := received k @ bytes\<rparr>) M)"
| frame: "tasks M cid = Some k \<Longrightarrow> reading k \<Longrightarrow> read_frame (received k) = Some (buf, bytes) \<Longrightarrow>
    conn_step decode encode M (read_one_frame decode cid k buf bytes M)"
| ended: "tasks M cid = Some k \<Longrightarrow> reading k \<Longrightarrow> read_frame (received k) = None \<Longrightarrow>
    conn_step decode encode M (end_task cid k M)"
| tick: "tasks M cid = Some k \<Longrightarrow> sender k = Ticking \<Longrightarrow>
    conn_step decode encode M (set_task cid (k\<lparr>sender := (if shared_conn_state k then Writing else SenderDone)\<rparr>) M)"
| check: "tasks M cid = Some k \<Longrightarrow> sender k = Writing \<Longrightarrow> go_on \<in> {Ticking, SenderDone} \<Longrightarrow>
    conn_step decode encode M (set_task cid (k\<lparr>written := written k @ take n (health_check encode cid), sender := go_on\<rparr>) M)"

text \<open>Besides, a connection is accepted, or a request takes a turn.\<close>

inductive master_step ::
  "(byte list \<Rightarrow> msg_type option) \<Rightarrow> (MessageFromMasterToStorage \<Rightarrow> byte list) \<Rightarrow> master_state \<Rightarrow> master_state \<Rightarrow> bool"
  for decode encode where
  accept: "tasks M cid = None \<Longrightarrow> master_step decode encode M (set_task cid (accept_task addr) M)"
| conn: "conn_step decode encode M M' \<Longrightarrow> master_step decode encode M M'"
| turn: "increment_index_and_return_addr (tcp_storage M) = Inr (a, t) \<Longrightarrow>
    master_step decode encode M (M\<lparr>tcp_storage := t\<rparr>)"

lemmas master_arrive = master_step.conn[OF conn_step.arrive]
lemmas master_frame = master_step.conn[OF conn_step.frame]

abbreviation master_steps where
  "master_steps decode encode \<equiv> (master_step decode encode)\<^sup>*\<^sup>*"

definition master_init :: "int \<Rightarrow> master_state" where
  "master_init replication = \<lparr>tcp_storage = storage_new replication, tasks = Map.empty\<rparr>"

lemmas task_defs = set_task_def read_one_frame_def end_task_def accept_task_def

section \<open>The entries of a connection\<close>

definition entries :: "string \<Rightarrow> TcpStorage \<Rightarrow> ConnectionData list" where
  "entries cid t = filter (\<lambda>c. connection_id c = cid) (connections t)"

lemma entries_insert:
  "entries cid (storage_insert cid' addr t)
    = entries cid t @ (if cid' = cid then [\<lparr>connection_id = cid, ip = addr, files_to_chunks = []\<rparr>] else [])"
  by (simp add: entries_def storage_insert_def)

lemma entries_remove: "entries cid (storage_remove cid' t) = (if cid' = cid then [] else entries cid t)"
  by (auto simp: entries_def storage_remove_def filter_empty_conv intro: filter_cong)

lemma update_first_entries:
  "filter (\<lambda>c. connection_id c = cid) (update_first cid' ms cs)
    = (if cid' = cid then update_first cid ms (filter (\<lambda>c. connection_id c = cid) cs)
       else filter (\<lambda>c. connection_id c = cid) cs)"
  by (induction cs) (auto simp: connection_update_def)

lemma entries_update:
  "entries cid (update_state cid' ms t) = (if cid' = cid then update_first cid ms (entries cid t) else entries cid t)"
  by (simp add: entries_def update_state_def update_first_entries)

text \<open>What a message does to the entries of its own connection, and to those of the others.\<close>

definition message_entries ::
  "(byte list \<Rightarrow> msg_type option) \<Rightarrow> string \<Rightarrow> string \<Rightarrow> byte list \<Rightarrow> ConnectionData list \<Rightarrow> ConnectionData list" where
  "message_entries decode cid addr buf es =
     (case decode buf of
        Some MsgJoin \<Rightarrow> es @ [\<lparr>connection_id = cid, ip = addr, files_to_chunks = []\<rparr>]
      | Some (MsgHealth file_state) \<Rightarrow> update_first cid file_state es
      | _ \<Rightarrow> es)"

lemma entries_message:
  "entries cid (handle_message decode cid' addr buf t)
    = (if cid' = cid then message_entries decode cid addr buf (entries cid t) else entries cid t)"
  by (simp add: handle_message_def message_entries_def entries_insert entries_update
      split: option.split msg_type.split)

lemma increment_entries:
  "increment_index_and_return_addr t = Inr (a, t') \<Longrightarrow> connections t' = connections t"
  by (auto simp: increment_index_and_return_addr_def cbind_def int_succ_def rem_i32_def split: if_splits sum.splits)

section \<open>The invariant\<close>

text \<open>
  The table has, for each connection whose reader is in its loop, what the connection's own
  frames leave, whatever the others do; and nothing of any other connection. The flag of the
  sender is that of the reader, and only health checks have been written, each of them perhaps cut short.
\<close>

definition task_ok ::
  "(byte list \<Rightarrow> msg_type option) \<Rightarrow> (MessageFromMasterToStorage \<Rightarrow> byte list) \<Rightarrow> string \<Rightarrow> conn_task option
    \<Rightarrow> ConnectionData list \<Rightarrow> bool" where
  "task_ok decode encode cid x es \<longleftrightarrow>
     (case x of
        None \<Rightarrow> es = []
      | Some k \<Rightarrow>
          es = (if reading k then fold (message_entries decode cid (task_addr k)) (frames_read k) [] else []) \<and>
          shared_conn_state k = reading k \<and>
          (\<exists>ns. written k = concat (map (\<lambda>n. take n (health_check encode cid)) ns)))"

definition master_ok ::
  "(byte list \<Rightarrow> msg_type option) \<Rightarrow> (MessageFromMasterToStorage \<Rightarrow> byte list) \<Rightarrow> master_state \<Rightarrow> bool" where
  "master_ok decode encode M \<longleftrightarrow>
     (\<forall>cid. task_ok decode encode cid (tasks M cid) (entries cid (tcp_storage M)))"

lemma master_ok_init: "master_ok decode encode (master_init replication)"
  by (simp add: master_ok_def task_ok_def master_init_def entries_def storage_new_def)

text \<open>A step of one connection leaves the others: only its own task is to be looked at.\<close>

lemma master_ok_set:
  assumes ok: "master_ok decode encode M"
    and own: "task_ok decode encode cid (Some k') (entries cid t')"
    and others: "\<And>c. c \<noteq> cid \<Longrightarrow> entries c t' = entries c (tcp_storage M)"
  shows "master_ok decode encode ((set_task cid k' M)\<lparr>tcp_storage := t'\<rparr>)"
  using assms by (simp add: master_ok_def set_task_def)

lemma master_ok_task:
  "master_ok decode encode M \<Longrightarrow> tasks M cid = Some k \<Longrightarrow>
   task_ok decode encode cid (Some k) (entries cid (tcp_storage M))"
  unfolding master_ok_def by metis

lemma master_ok_same:
  "master_ok decode encode M \<Longrightarrow> task_ok decode encode cid (Some k') (entries cid (tcp_storage M)) \<Longrightarrow>
   master_ok decode encode (set_task cid k' M)"
  using master_ok_set[of decode encode M cid k' "tcp_storage M"] by (simp add: set_task_def)

lemma master_ok_conn:
  assumes "conn_step decode encode M M'" "master_ok decode encode M"
  shows "master_ok decode encode M'"
  using assms
proof cases
  case (arrive cid k bytes)
  then have "task_ok decode encode cid (Some (k\<lparr>received := received k @ bytes\<rparr>)) (entries cid (tcp_storage M))"
    using master_ok_task[OF assms(2)] by (simp add: task_ok_def)
  then show ?thesis using arrive(1) assms(2) by (simp add: master_ok_same)
next
  case (frame cid k buf bytes)
  show ?thesis unfolding frame(1) read_one_frame_def
    by (rule master_ok_set[OF assms(2)])
      (use master_ok_task[OF assms(2) frame(2)] frame(3) in \<open>simp_all add: task_ok_def entries_message\<close>)
next
  case (ended cid k)
  show ?thesis unfolding ended(1) end_task_def
    by (rule master_ok_set[OF assms(2)])
      (use master_ok_task[OF assms(2) ended(2)] in \<open>simp_all add: task_ok_def entries_remove\<close>)
next
  case (tick cid k)
  then have "task_ok decode encode cid (Some (k\<lparr>sender := (if shared_conn_state k then Writing else SenderDone)\<rparr>))
      (entries cid (tcp_storage M))"
    using master_ok_task[OF assms(2)] by (simp add: task_ok_def)
  then show ?thesis using tick(1) assms(2) by (simp add: master_ok_same)
next
  case (check cid k go_on n)
  have task: "task_ok decode encode cid (Some k) (entries cid (tcp_storage M))"
    by (rule master_ok_task[OF assms(2) check(2)])
  then obtain ns where "written k = concat (map (\<lambda>n. take n (health_check encode cid)) ns)" by (auto simp: task_ok_def)
  then have "written k @ take n (health_check encode cid) = concat (map (\<lambda>n. take n (health_check encode cid)) (ns @ [n]))"
    by simp
  then have "task_ok decode encode cid
      (Some (k\<lparr>written := written k @ take n (health_check encode cid), sender := go_on\<rparr>)) (entries cid (tcp_storage M))"
    using task unfolding task_ok_def by (auto intro: exI[of _ "ns @ [n]"])
  then show ?thesis using check(1) assms(2) by (simp add: master_ok_same)
qed

lemma master_ok_step:
  assumes "master_step decode encode M M'" "master_ok decode encode M"
  shows "master_ok decode encode M'"
  using assms
proof cases
  case (accept cid addr)
  then have "entries cid (tcp_storage M) = []" using assms(2) by (auto simp: master_ok_def task_ok_def dest: spec[of _ cid])
  then have "task_ok decode encode cid (Some (accept_task addr)) (entries cid (tcp_storage M))"
    by (simp add: task_ok_def accept_task_def exI[of _ "[]"])
  then show ?thesis using accept(1) assms(2) by (simp add: master_ok_same)
next
  case conn
  then show ?thesis using assms(2) by (rule master_ok_conn)
next
  case (turn a t)
  then show ?thesis using assms(2) increment_entries[OF turn(2)] by (simp add: master_ok_def entries_def)
qed

lemma master_ok_reachable:
  assumes "master_steps decode encode (master_init replication) M"
  shows "master_ok decode encode M"
  using assms by (induction rule: rtranclp_induct) (auto intro: master_ok_init master_ok_step)

section \<open>What follows for lookups\<close>

lemma set_update_first: "set (update_first cid ms es) \<subseteq> set es \<union> connection_update ms ` set es"
  by (induction es) auto

lemma message_entries_of:
  "\<forall>e \<in> set es. connection_id e = cid \<and> ip e = addr \<Longrightarrow>
   \<forall>e \<in> set (fold (message_entries decode cid addr) bufs es). connection_id e = cid \<and> ip e = addr"
proof (induction bufs arbitrary: es)
  case (Cons buf bufs)
  have "\<forall>e \<in> set (update_first cid ms es). connection_id e = cid \<and> ip e = addr" for ms
  proof
    fix e
    assume "e \<in> set (update_first cid ms es)"
    then have "e \<in> set es \<union> connection_update ms ` set es" using set_update_first by blast
    then show "connection_id e = cid \<and> ip e = addr" using Cons.prems unfolding connection_update_def by fastforce
  qed
  from this Cons.prems
  have "\<forall>e \<in> set (message_entries decode cid addr buf es). connection_id e = cid \<and> ip e = addr"
    unfolding message_entries_def by (cases "decode buf"; cases "the (decode buf)") simp_all
  then have "\<forall>e \<in> set (fold (message_entries decode cid addr) bufs (message_entries decode cid addr buf es)).
      connection_id e = cid \<and> ip e = addr" by (rule Cons.IH)
  then show ?case by simp
qed simp

text \<open>Every address the master gives out is that of a connection that is still open.\<close>

lemma located_open:
  assumes "master_steps decode encode (master_init replication) M" "a \<in> set (get_location f i (tcp_storage M))"
  shows "\<exists>cid k. tasks M cid = Some k \<and> reading k \<and> shared_conn_state k \<and> task_addr k = a \<and>
    (\<exists>e \<in> set (fold (message_entries decode cid a) (frames_read k) []). reports e f i)"
proof -
  obtain e where e: "e \<in> set (connections (tcp_storage M))" "ip e = a" "reports e f i"
    using assms(2) get_location_exact(1) by auto
  let ?cid = "connection_id e"
  have mem: "e \<in> set (entries ?cid (tcp_storage M))" using e(1) by (simp add: entries_def)
  have ok: "task_ok decode encode ?cid (tasks M ?cid) (entries ?cid (tcp_storage M))"
    using master_ok_reachable[OF assms(1)] by (simp add: master_ok_def)
  then obtain k where k: "tasks M ?cid = Some k" using mem by (cases "tasks M ?cid") (auto simp: task_ok_def)
  then have r: "reading k" "shared_conn_state k"
    and es: "entries ?cid (tcp_storage M) = fold (message_entries decode ?cid (task_addr k)) (frames_read k) []"
    using ok mem by (auto simp: task_ok_def split: if_splits)
  have "\<forall>e' \<in> set (fold (message_entries decode ?cid (task_addr k)) (frames_read k) []).
      connection_id e' = ?cid \<and> ip e' = task_addr k" by (rule message_entries_of) simp
  from bspec[OF this mem[unfolded es]] have "ip e = task_addr k" by (rule conjunct2)
  then have a: "task_addr k = a" using e(2) by simp
  have "e \<in> set (fold (message_entries decode ?cid a) (frames_read k) [])" using mem es a by simp
  then show ?thesis using k r a e(3) by blast
qed

text \<open>The only open connection from an address decides what the address is given out for.\<close>

definition only_from :: "master_state \<Rightarrow> string \<Rightarrow> string \<Rightarrow> bool" where
  "only_from M addr cid \<longleftrightarrow> (\<forall>cid' k. tasks M cid' = Some k \<longrightarrow> reading k \<longrightarrow> task_addr k = addr \<longrightarrow> cid' = cid)"

lemma located_by_frames:
  assumes M: "master_steps decode encode (master_init replication) M" and k: "tasks M cid = Some k" "reading k"
    and only: "only_from M (task_addr k) cid"
  shows "task_addr k \<in> set (get_location f i (tcp_storage M)) \<longleftrightarrow>
    (\<exists>e \<in> set (fold (message_entries decode cid (task_addr k)) (frames_read k) []). reports e f i)"
proof
  assume "task_addr k \<in> set (get_location f i (tcp_storage M))"
  from located_open[OF M this] obtain cid' k' where k': "tasks M cid' = Some k'" "reading k'" "task_addr k' = task_addr k"
    and e: "\<exists>e \<in> set (fold (message_entries decode cid' (task_addr k)) (frames_read k') []). reports e f i" by blast
  have "cid' = cid" using only k' by (simp add: only_from_def)
  then show "\<exists>e \<in> set (fold (message_entries decode cid (task_addr k)) (frames_read k) []). reports e f i"
    using k k'(1) e by simp
next
  assume "\<exists>e \<in> set (fold (message_entries decode cid (task_addr k)) (frames_read k) []). reports e f i"
  then obtain e where e: "e \<in> set (fold (message_entries decode cid (task_addr k)) (frames_read k) [])" "reports e f i"
    by blast
  have "entries cid (tcp_storage M) = fold (message_entries decode cid (task_addr k)) (frames_read k) []"
    using master_ok_task[OF master_ok_reachable[OF M] k(1)] k(2) by (simp add: task_ok_def)
  then have "e \<in> set (entries cid (tcp_storage M))" using e(1) by simp
  then have "e \<in> set (connections (tcp_storage M))" by (simp add: entries_def)
  moreover have "\<forall>e' \<in> set (fold (message_entries decode cid (task_addr k)) (frames_read k) []).
      connection_id e' = cid \<and> ip e' = task_addr k" by (rule message_entries_of) simp
  then have "ip e = task_addr k" using e(1) by blast
  ultimately show "task_addr k \<in> set (get_location f i (tcp_storage M))"
    using e(2) unfolding get_location_exact(1) by force
qed

text \<open>Bytes that have arrived can be read up to the last whole frame, with the other tasks at rest.\<close>

lemma read_all_frames:
  "tasks M cid = Some k \<Longrightarrow> reading k \<Longrightarrow> received k = bytes \<Longrightarrow>
   \<exists>M' k'. master_steps decode encode M M' \<and> tasks M' cid = Some k' \<and> reading k' \<and> task_addr k' = task_addr k \<and>
     frames_read k' = frames_read k @ fst (read_frames bytes) \<and> (\<forall>c. c \<noteq> cid \<longrightarrow> tasks M' c = tasks M c)"
proof (induction bytes arbitrary: M k rule: read_frames.induct)
  case (1 bytes)
  show ?case
  proof (cases "read_frame bytes")
    case None
    then have "fst (read_frames bytes) = []" by (simp add: read_frames.simps[of bytes])
    then show ?thesis using 1 by (intro exI[of _ M] exI[of _ k]) simp
  next
    case (Some r)
    obtain buf more where r: "r = (buf, more)" by (cases r)
    let ?k = "k\<lparr>received := more, frames_read := frames_read k @ [buf],
      shared_conn_state := (shared_conn_state k \<or> decode buf = Some MsgJoin)\<rparr>"
    let ?M = "read_one_frame decode cid k buf more M"
    have step: "master_step decode encode M ?M" using 1 Some r by (intro master_frame) simp_all
    have t: "tasks ?M cid = Some ?k" "\<forall>c. c \<noteq> cid \<longrightarrow> tasks ?M c = tasks M c"
      by (simp_all add: read_one_frame_def set_task_def)
    obtain M' k' where M': "master_steps decode encode ?M M'" "tasks M' cid = Some k'" "reading k'"
      "task_addr k' = task_addr ?k" "frames_read k' = frames_read ?k @ fst (read_frames more)"
      "\<forall>c. c \<noteq> cid \<longrightarrow> tasks M' c = tasks ?M c"
      using 1(1)[OF Some r[symmetric] t(1)] 1(3) by auto
    have "fst (read_frames bytes) = buf # fst (read_frames more)"
      using Some r by (simp add: read_frames.simps[of bytes] split: prod.split)
    then show ?thesis using M' t(2) step by (intro exI[of _ M'] exI[of _ k']) (auto intro: converse_rtranclp_into_rtranclp)
  qed
qed

lemma bytes_can_be_read:
  "\<exists>M k. master_steps decode encode (master_init replication) M \<and> tasks M cid = Some k \<and> reading k \<and>
     task_addr k = addr \<and> frames_read k = fst (read_frames bytes) \<and> only_from M addr cid"
proof -
  let ?M1 = "set_task cid (accept_task addr) (master_init replication)"
  let ?k = "(accept_task addr)\<lparr>received := bytes\<rparr>"
  let ?M2 = "set_task cid ?k ?M1"
  have "master_step decode encode (master_init replication) ?M1" by (rule master_step.accept) (simp add: master_init_def)
  moreover have "master_step decode encode ?M1 ?M2"
    using master_arrive[of ?M1 cid "accept_task addr" decode encode bytes] by (simp add: set_task_def accept_task_def)
  moreover obtain M' k' where M': "master_steps decode encode ?M2 M'" "tasks M' cid = Some k'" "reading k'"
    "task_addr k' = addr" "frames_read k' = fst (read_frames bytes)" "\<forall>c. c \<noteq> cid \<longrightarrow> tasks M' c = None"
    using read_all_frames[of ?M2 cid ?k bytes decode encode]
    by (auto simp: set_task_def accept_task_def master_init_def)
  moreover have "only_from M' addr cid" using M'(6) by (auto simp: only_from_def)
  ultimately show ?thesis by (intro exI[of _ M'] exI[of _ k']) (simp add: converse_rtranclp_into_rtranclp)
qed

text \<open>A node that has joined and reported is located for what its last report says, and it alone counts for it.\<close>

lemma joined_entries:
  assumes "decodes decode pk MsgJoin" "\<forall>cat \<in> set cats. decodes decode pk (health_of cat)"
  shows "fold (message_entries decode cid addr) (pk MsgJoin # map (\<lambda>cat. pk (health_of cat)) cats) []
    = [\<lparr>connection_id = cid, ip = addr, files_to_chunks = (if cats = [] then [] else map to_mapping (last cats))\<rparr>]"
proof -
  have "fold (message_entries decode cid addr) (map (\<lambda>cat. pk (health_of cat)) cats)
      [\<lparr>connection_id = cid, ip = addr, files_to_chunks = ms\<rparr>]
    = [\<lparr>connection_id = cid, ip = addr, files_to_chunks = (if cats = [] then ms else map to_mapping (last cats))\<rparr>]" for ms
    using assms(2)
    by (induction cats arbitrary: ms)
      (auto simp: message_entries_def decodes_def health_of_def connection_update_def)
  then show ?thesis using assms(1) by (simp add: message_entries_def decodes_def)
qed

section \<open>Health checks\<close>

definition codec_encode :: "protobuf_c \<Rightarrow> MessageFromMasterToStorage \<Rightarrow> byte list" where
  "codec_encode lib m = message_bytes lib \<lparr>base_descriptor = MasterDescriptor, payload = MasterP m\<rparr>"

text \<open>The node reads a health check: it leaves out the line feed.\<close>

lemma health_check_read:
  assumes "library_ok lib"
  shows "health_check (codec_encode lib) cid \<noteq> []"
    "codec_unpack lib (take (length (health_check (codec_encode lib) cid) - 1) (health_check (codec_encode lib) cid))
      = Some \<lparr>msg_id = cid\<rparr>"
proof -
  let ?m = "\<lparr>base_descriptor = MasterDescriptor, payload = MasterP \<lparr>msg_id = cid\<rparr>\<rparr>"
  have "fits (base_descriptor ?m) (payload ?m)" by simp
  then have "message_parse lib (base_descriptor ?m) (message_bytes lib ?m) = Some ?m"
    using assms unfolding library_ok_def by blast
  then show "codec_unpack lib (take (length (health_check (codec_encode lib) cid) - 1) (health_check (codec_encode lib) cid))
      = Some \<lparr>msg_id = cid\<rparr>" by (simp add: health_check_def codec_unpack_def codec_encode_def)
qed (simp add: health_check_def)

end
