(* ===== verification/Cluster.thy ===== *)
theory Cluster
  imports Http_Frames Master_Tasks Node_Threads
begin

text \<open>
  A node and the master together: from the start of the node, through its requests and its
  reports, to what the master answers about it.
\<close>

section \<open>What the node's history leaves of the link\<close>

lemma history_run:
  fixes s :: "'h tcp_node_scheme"
  assumes rel: "node_rel s [] Map.empty F" and m: "mhd_serves m" "2 \<le> depth"
    and xs: "admissible node_pre node_spec xs ([], Map.empty)"
  obtains rs s' where "run_all (node_step m depth) xs s = Inr (rs, s')"
    "node_rel s' (fst (fold node_spec xs ([], Map.empty))) (snd (fold node_spec xs ([], Map.empty))) F"
    "wire s' = wire s" "send_answers s' = send_answers s" "shouldWork s' = shouldWork s"
proof -
  have "node_srel m depth F s ([], Map.empty)" using rel m by (simp add: node_srel_def)
  then obtain rs s' where run: "run_all (node_step m depth) xs s = Inr (rs, s')"
    and rel': "node_srel m depth F s' (fold node_spec xs ([], Map.empty))"
    using node_store.run_all_refines[OF _ xs] by blast
  have "storage_node.more s' = storage_node.more s" using keepsD[OF keeps_history run] .
  then have "wire s' = wire s" "send_answers s' = send_answers s" "shouldWork s' = shouldWork s"
    by (cases s; cases s'; simp)+
  with run rel' that show thesis by (auto simp: node_srel_def split: prod.splits)
qed

text \<open>
  A node that starts on an empty disk, serves any admissible history, answers at least one
  health check and loses the connection. In every state of the master that has read what the
  node has sent, whatever else its other tasks have done, the address of the node is given
  out for a chunk exactly when the node has it, and the node serves what the master promises.
\<close>

lemma reports_located:
  fixes s :: "tcp_node"
  assumes heap: "heap_ok s" "finite (dom (mem s))" and mem: "no_oom s" and codec: "packs_to_size ps pk"
    and net: "0 \<le> fd" "0 < pton" "0 \<le> conn" and wire: "wire s = []" and disk: "disk_rel (fs s) [] Map.empty"
    and m: "mhd_serves m" "2 \<le> depth" and xs: "admissible node_pre node_spec xs ([], Map.empty)"
    and cat: "cat = fst (fold node_spec xs ([], Map.empty))" and st: "st = snd (fold node_spec xs ([], Map.empty))"
    and bufs: "bufs \<noteq> []" "\<forall>b \<in> set bufs. b \<noteq> [] \<and> unpack (take (length b - 1) b) \<noteq> None"
    and send: "can_send s (4 + length (pk MsgJoin) + length bufs * (4 + length (pk (health_of cat))))"
    and dec: "decodes decode pk MsgJoin" "decodes decode pk (health_of cat)"
  shows "\<exists>st_args s1 rs s2 s3. main_start ps pk fd pton conn s = Inr (st_args, s1) \<and>
    run_all (node_step m depth) xs s1 = Inr (rs, s2) \<and>
    receive_messages unpack ps pk (map Received bufs @ [Received []]) s2 = Inr ((), s3) \<and>
    (\<forall>encode replication M cid k. master_steps decode encode (master_init replication) M \<longrightarrow> tasks M cid = Some k \<longrightarrow>
        reading k \<longrightarrow> frames_read k = fst (read_frames (wire s3)) \<longrightarrow> only_from M (task_addr k) cid \<longrightarrow>
        (\<forall>f c. task_addr k \<in> set (get_location f c (tcp_storage M)) \<longleftrightarrow> st (f, c) \<noteq> None)) \<and>
    (\<forall>f c. in_int c \<longrightarrow> (\<exists>s4. fetch m depth (f, c) s3 = Inr (st (f, c), s4)))"
proof -
  obtain sp args s1 where start: "main_start ps pk fd pton conn s = Inr ((sp, args), s1)"
    and ok: "started sp args (mem s) s1" and s1: "wire s1 = wire s @ frame (pk MsgJoin)"
      "can_send s1 (length bufs * (4 + length (pk (health_of cat))))" "fs s1 = fs s"
    by (rule main_start_run[OF heap(1) mem codec net send])
  define F where "F = insert args (insert sp (dom (mem s)))"
  have rel1: "storage_rel s1 [] [] F" and pre1: "shouldWork s1" "\<not> locked s1" "no_oom s1"
    using ok by (simp_all add: started_def F_def)
  have fin: "finite F" using heap(2) by (simp add: F_def)
  have "node_rel s1 [] Map.empty F" using rel1 pre1 s1 disk by (auto simp: node_rel_def)
  then obtain rs s2 where run: "run_all (node_step m depth) xs s1 = Inr (rs, s2)" and rel2: "node_rel s2 cat st F"
    and s2: "wire s2 = wire s1" "send_answers s2 = send_answers s1" "shouldWork s2 = shouldWork s1"
    unfolding cat st by (rule history_run[OF _ m xs])
  from rel2 obtain recs where sr2: "storage_rel s2 recs cat F" and pre2: "\<not> locked s2" "no_oom s2"
    and disk2: "disk_rel (fs s2) cat st" by (auto simp: node_rel_def)
  have send2: "can_send s2 (length bufs * (4 + length (pk (health_of cat))))" "shouldWork s2"
    using s1 pre1 s2 by (simp_all add: can_send_def)
  obtain L s3 where rec: "receive_messages unpack ps pk (map Received bufs @ [Received []]) s2 = Inr ((), s3)"
    and sr3: "storage_rel s3 recs cat (L \<union> F)"
    and w3: "wire s3 = wire s2 @ concat (map frame (replicate (length bufs) (pk (health_of cat))))"
    and s3: "fs s3 = fs s2" "\<not> locked s3" "no_oom s3"
    by (rule receive_messages_run[OF sr2 pre2 codec bufs(2) send2 fin])
  have "wire s3 = frame (pk MsgJoin)
      @ concat (map (\<lambda>cat. frame (pk (health_of cat))) (replicate (length bufs) cat))"
    using w3 s2 s1 wire by (simp add: map_replicate_const)
  then have sent: "fst (read_frames (wire s3)) = pk MsgJoin # map (\<lambda>cat. pk (health_of cat)) (replicate (length bufs) cat)"
    using read_frames_stream[of "pk MsgJoin # map (\<lambda>cat. pk (health_of cat)) (replicate (length bufs) cat)" "[]"] dec
    by (auto simp: decodes_def read_frame_def comp_def)
  have known: "reports e f c \<longleftrightarrow> st (f, c) \<noteq> None"
    if "e = \<lparr>connection_id = cid, ip = addr, files_to_chunks = map to_mapping cat\<rparr>" for e cid addr f c
    using disk_relD(8)[OF disk2, of f c] unfolding that reports_catalogue by (simp add: cat_has_def)
  have loc: "task_addr k \<in> set (get_location f c (tcp_storage M)) \<longleftrightarrow> st (f, c) \<noteq> None"
    if "master_steps decode encode (master_init replication) M" "tasks M cid = Some k" "reading k"
      "frames_read k = fst (read_frames (wire s3))" "only_from M (task_addr k) cid" for encode replication M cid k f c
  proof -
    have "fold (message_entries decode cid (task_addr k)) (frames_read k) []
        = [\<lparr>connection_id = cid, ip = task_addr k, files_to_chunks = map to_mapping cat\<rparr>]"
      using joined_entries[OF dec(1), of "replicate (length bufs) cat"] dec(2) bufs(1) unfolding that(4) sent by simp
    then show ?thesis using located_by_frames[OF that(1-3,5), of f c] known by simp
  qed
  have "node_rel s3 cat st (L \<union> F)" using sr3 s3 disk2 by (auto simp: node_rel_def)
  then have "\<exists>s4. fetch m depth (f, c) s3 = Inr (st (f, c), s4)" if "in_int c" for f c
    using fetch_refines[OF _ m(1) that] by blast
  with start run rec loc show ?thesis by blast
qed

text \<open>
  The same with the generated functions as the codec of both sides, and with health checks
  as the connection's task of the master writes them, each in one piece.
\<close>

lemma health_fits:
  assumes "disk_rel t cat st"
  shows "fits StorageDescriptor (StorageP (health_of cat))"
proof -
  have "in_int i" if "(g, ids) \<in> set cat" "i \<in> set ids" for g ids i
  proof (rule disk_relD(9)[OF assms])
    show "st (g, i) \<noteq> None" using that disk_relD(8)[OF assms, of g i] by (auto simp: cat_has_def)
  qed
  then show ?thesis by (auto simp: health_of_def to_mapping_def list_all_iff)
qed

lemma start_to_lookup:
  fixes s :: "tcp_node"
  assumes heap: "heap_ok s" "finite (dom (mem s))" and mem: "no_oom s" and lib: "library_ok lib"
    and net: "0 \<le> fd" "0 < pton" "0 \<le> conn" and wire: "wire s = []" and disk: "disk_rel (fs s) [] Map.empty"
    and m: "mhd_serves m" "2 \<le> depth" and xs: "admissible node_pre node_spec xs ([], Map.empty)"
    and cat: "cat = fst (fold node_spec xs ([], Map.empty))" and st: "st = snd (fold node_spec xs ([], Map.empty))"
    and n: "0 < n" "length (health_check (codec_encode lib) cid) < 1024"
    and send: "can_send s (4 + codec_size lib MsgJoin + n * (4 + codec_size lib (health_of cat)))"
    and small: "codec_size lib MsgJoin < 2 ^ 32" "codec_size lib (health_of cat) < 2 ^ 32"
  shows "\<exists>st_args s1 rs s2 s3. main_start (codec_size lib) (codec_pack lib) fd pton conn s = Inr (st_args, s1) \<and>
    run_all (node_step m depth) xs s1 = Inr (rs, s2) \<and>
    receive_messages (codec_unpack lib) (codec_size lib) (codec_pack lib) 
      (replicate n (Received (health_check (codec_encode lib) cid)) @ [Received []]) s2 = Inr ((), s3) \<and>
    (\<forall>replication M k. master_steps (codec_decode lib) (codec_encode lib) (master_init replication) M \<longrightarrow>
        tasks M cid = Some k \<longrightarrow> reading k \<longrightarrow> frames_read k = fst (read_frames (wire s3)) \<longrightarrow>
        only_from M (task_addr k) cid \<longrightarrow>
        (\<forall>f c. task_addr k \<in> set (get_location f c (tcp_storage M)) \<longleftrightarrow> st (f, c) \<noteq> None)) \<and>
    (\<forall>f c. in_int c \<longrightarrow> (\<exists>s4. fetch m depth (f, c) s3 = Inr (st (f, c), s4)))"
proof -
  let ?bufs = "replicate n (health_check (codec_encode lib) cid)"
  have bufs: "?bufs \<noteq> []" "\<forall>b \<in> set ?bufs. b \<noteq> [] \<and> codec_unpack lib (take (length b - 1) b) \<noteq> None"
    using n(1) health_check_read[OF lib, of cid] by simp_all
  have codec: "packs_to_size (codec_size lib) (codec_pack lib)" using lib by (rule codec_packs)
  then have len: "length (codec_pack lib msg) = codec_size lib msg" for msg by (simp add: packs_to_size_def)
  obtain sp args and s1 :: tcp_node where "started sp args (mem s) s1" "fs s1 = fs s"
    by (rule main_start_run[OF heap(1) mem codec net send[folded len]]) blast
  then have "node_rel s1 [] Map.empty (insert args (insert sp (dom (mem s))))"
    using disk by (auto simp: node_rel_def started_def)
  then obtain s2 :: tcp_node where "node_rel s2 cat st (insert args (insert sp (dom (mem s))))" unfolding cat st by (rule history_run[OF _ m xs]) blast
  then have "fits StorageDescriptor (StorageP (health_of cat))" using health_fits by (auto simp: node_rel_def)
  then have dec: "decodes (codec_decode lib) (codec_pack lib) MsgJoin"
    "decodes (codec_decode lib) (codec_pack lib) (health_of cat)"
    using codec_decode_pack[OF lib] small by (simp_all add: decodes_def len)
  have send': "can_send s (4 + length (codec_pack lib MsgJoin) + length ?bufs * (4 + length (codec_pack lib (health_of cat))))"
    using send by (simp add: len)
  from reports_located[OF heap mem codec net wire disk m xs cat st bufs send' dec]
  obtain st_args s1 rs s2 s3 where run: "main_start (codec_size lib) (codec_pack lib) fd pton conn s = Inr (st_args, s1)"
      "run_all (node_step m depth) xs s1 = Inr (rs, s2)"
      "receive_messages (codec_unpack lib) (codec_size lib) (codec_pack lib) (map Received ?bufs @ [Received []]) s2
        = Inr ((), s3)"
    and loc: "\<forall>encode replication M cid k. master_steps (codec_decode lib) encode (master_init replication) M \<longrightarrow>
        tasks M cid = Some k \<longrightarrow> reading k \<longrightarrow> frames_read k = fst (read_frames (wire s3)) \<longrightarrow>
        only_from M (task_addr k) cid \<longrightarrow>
        (\<forall>f c. task_addr k \<in> set (get_location f c (tcp_storage M)) \<longleftrightarrow> st (f, c) \<noteq> None)"
    and served: "\<forall>f c. in_int c \<longrightarrow> (\<exists>s4. fetch m depth (f, c) s3 = Inr (st (f, c), s4))"
    by (elim exE conjE) (rule that; assumption)
  show ?thesis using run(1,2) run(3)[unfolded map_replicate] loc served by blast
qed

end
