(* ===== verification/Master_Http.thy ===== *)
theory Master_Http
  imports Master_Tasks
begin

text \<open>
  The master's HTTP server: the routes of http_connection_to_client/http_main.rs and the
  handlers of http_handlers/. A body is what a JSON object has of the fields the handlers ask
  for. An answer is the value a handler gives to \<open>json\<close>; for a request that has no route, or
  whose body lacks a field, the library answers alone, with an error.
\<close>

section \<open>Requests and answers\<close>

record json_body =
  json_file_name :: "string option"
  json_chunk_id :: "int option"
  json_chunk_ids :: "int list option"

abbreviation no_body :: json_body where
  "no_body \<equiv> \<lparr>json_file_name = None, json_chunk_id = None, json_chunk_ids = None\<rparr>"

abbreviation file_body :: "string \<Rightarrow> json_body" where
  "file_body f \<equiv> \<lparr>json_file_name = Some f, json_chunk_id = None, json_chunk_ids = None\<rparr>"

datatype json = Strings "string list" | StringLists "string list list" | Ints "int list"

datatype http_answer = Json json | LibraryError

definition in_i32 :: "int \<Rightarrow> bool" where
  "in_i32 n \<longleftrightarrow> - (2 ^ 31) \<le> n \<and> n < 2 ^ 31"

section \<open>The handlers\<close>

text \<open>An extractor that fails keeps its handler from being called.\<close>

definition get_chunk_location_addr :: "json_body \<Rightarrow> (TcpStorage, http_answer) cm" where
  "get_chunk_location_addr item =
     (case (json_file_name item, json_chunk_id item) of
        (Some file_name, Some chunk_id) \<Rightarrow>
          if in_i32 chunk_id then cget (\<lambda>t. Json (Strings (get_location file_name chunk_id t))) else cret LibraryError
      | _ \<Rightarrow> cret LibraryError)"

definition get_chunk_location_addr_multiple :: "json_body \<Rightarrow> (TcpStorage, http_answer) cm" where
  "get_chunk_location_addr_multiple item =
     (case (json_file_name item, json_chunk_ids item) of
        (Some file_name, Some ids) \<Rightarrow>
          if list_all in_i32 ids then cget (\<lambda>t. Json (StringLists (get_multiple_chunks file_name ids t)))
          else cret LibraryError
      | _ \<Rightarrow> cret LibraryError)"

definition get_list_chunks :: "json_body \<Rightarrow> (TcpStorage, http_answer) cm" where
  "get_list_chunks item =
     (case json_file_name item of
        Some file_name \<Rightarrow> cget (\<lambda>t. Json (Ints (get_chunks_for_file file_name t)))
      | None \<Rightarrow> cret LibraryError)"

definition show_available_files :: "(TcpStorage, http_answer) cm" where
  "show_available_files = cget (\<lambda>t. Json (Strings (get_file_list t)))"

definition get_file_location :: "json_body \<Rightarrow> (TcpStorage, http_answer) cm" where
  "get_file_location item =
     (case json_file_name item of
        Some file_name \<Rightarrow> cget (\<lambda>t. Json (Strings (get_file_locations file_name t)))
      | None \<Rightarrow> cret LibraryError)"

section \<open>The routes\<close>

definition http_main ::
  "(string option list \<Rightarrow> string option list) \<Rightarrow> int \<Rightarrow> string \<Rightarrow> string \<Rightarrow> json_body \<Rightarrow> (TcpStorage, http_answer) cm" where
  "http_main hash_order replication_count http_method path item =
     (if path = ''/server_to_write'' \<and> http_method = ''GET'' then
        cbind (return_server_to_write_chunk hash_order replication_count) (\<lambda>res. cret (Json (Strings res)))
      else if path = ''/chunk-location'' \<and> http_method = ''POST'' then get_chunk_location_addr item
      else if path = ''/chunk-location-multiple'' \<and> http_method = ''POST'' then get_chunk_location_addr_multiple item
      else if path = ''/chunks'' \<and> http_method = ''POST'' then get_list_chunks item
      else if path = ''/file-list'' \<and> http_method = ''GET'' then show_available_files
      else if path = ''/filelocation'' \<and> http_method = ''POST'' then get_file_location item
      else cret LibraryError)"

lemmas handler_defs = get_chunk_location_addr_def get_chunk_location_addr_multiple_def get_list_chunks_def
  show_available_files_def get_file_location_def

lemma in_int_i32: "in_int n \<Longrightarrow> in_i32 n"
  by (simp add: in_int_def in_i32_def int_max_def int_min_def)

text \<open>A handler that only reads leaves the table alone.\<close>

lemma handlers_read:
  assumes "h \<in> {get_chunk_location_addr item, get_chunk_location_addr_multiple item, get_list_chunks item,
      show_available_files, get_file_location item}"
  shows "\<exists>a. h t = Inr (a, t)"
  using assms by (auto simp: handler_defs split: option.splits)

text \<open>
  A request only takes turns: it is a number of steps of the master's tasks, between which
  those of others may come.
\<close>

lemma collect_turns:
  assumes "collect_servers n seen (tcp_storage M) = Inr (res, t)"
  shows "master_steps decode encode M (M\<lparr>tcp_storage := t\<rparr>)"
  using assms
proof (induction n arbitrary: seen M)
  case (Suc n)
  obtain a t1 where turn: "increment_index_and_return_addr (tcp_storage M) = Inr (a, t1)"
    and more: "collect_servers n (if a \<in> set seen then seen else seen @ [a]) (tcp_storage (M\<lparr>tcp_storage := t1\<rparr>)) = Inr (res, t)"
    using Suc.prems by (auto simp: cbind_def split: sum.splits)
  have "master_step decode encode M (M\<lparr>tcp_storage := t1\<rparr>)" by (rule master_step.turn[OF turn])
  then show ?case using Suc.IH[OF more] by simp
next
  case 0
  then have "t = tcp_storage M" by simp
  then show ?case by simp
qed

lemma request_steps:
  assumes "http_main hash_order r http_method path item (tcp_storage M) = Inr (a, t)"
  shows "master_steps decode encode M (M\<lparr>tcp_storage := t\<rparr>)"
proof (cases "path = ''/server_to_write'' \<and> http_method = ''GET''")
  case True
  then obtain seen where "collect_servers (nat r) [] (tcp_storage M) = Inr (seen, t)"
    using assms by (auto simp: http_main_def return_server_to_write_chunk_def cbind_def split: sum.splits)
  then show ?thesis by (rule collect_turns)
next
  case False
  then have "t = tcp_storage M" using assms
    by (auto simp: http_main_def handler_defs split: if_splits option.splits)
  then show ?thesis by simp
qed

end
