(* ===== verification/Client.thy ===== *)
theory Client
  imports Http_Frames Master_Http
begin

text \<open>
  The client: client/client/insertFile.ts, readFile.ts and removeFile.ts and the requests of
  client/master, with the master's table and the nodes by their addresses. What the program
  does not decide is in one record: how the library cuts a body and answers, the order of a
  hash set, which of its requests the master answers, the random choice of a replica,
  whether the local files can be written, and the address the host of a URL stands for when it is a
  plain number: 0 is 0.0.0.0, by which a machine reaches itself.
\<close>

section \<open>The cluster\<close>

record cluster =
  c_mhd :: mhd
  c_depth :: nat
  c_pieces :: "byte list \<Rightarrow> byte list list"
  c_hash_order :: "string option list \<Rightarrow> string option list"
  c_replicas :: int
  c_master_ok :: "nat \<Rightarrow> bool"
  c_pick :: "nat \<Rightarrow> nat \<Rightarrow> nat"
  c_create_ok :: bool
  c_append_ok :: "nat \<Rightarrow> bool"
  c_host :: "string \<Rightarrow> string"

record 'h world =
  master :: TcpStorage
  nodes :: "string \<Rightarrow> 'h storage_node_scheme option"

text \<open>
  A request to the node at an address, with its headers: no answer when there is no node, when the node ends
  during the request, or when it closes the connection. \<open>tryCatch(axios...)\<close> has no error
  when the status is one of success.
\<close>

definition node_request ::
  "cluster \<Rightarrow> string \<Rightarrow> string \<Rightarrow> string \<Rightarrow> (string \<times> string) list \<Rightarrow> byte list \<Rightarrow> 'h world
    \<Rightarrow> response option \<times> 'h world" where
  "node_request k location url method headers data w =
     (case nodes w location of
        None \<Rightarrow> (None, w)
      | Some s \<Rightarrow>
          (case serve_request ((c_mhd k)\<lparr>connection_value := map_of headers\<rparr>) (c_depth k) url method
                 (if data = [] then [] else c_pieces k data) s of
             Inl e \<Rightarrow> (None, w\<lparr>nodes := (nodes w)(location := None)\<rparr>)
           | Inr (resp, s') \<Rightarrow> (resp, w\<lparr>nodes := (nodes w)(location \<mapsto> s')\<rparr>)))"

definition axios_ok :: "response option \<Rightarrow> bool" where
  "axios_ok resp = (case resp of None \<Rightarrow> False | Some r \<Rightarrow> 200 \<le> resp_status r \<and> resp_status r < 300)"

definition chunk_header :: "string \<Rightarrow> int \<Rightarrow> (string \<times> string) list" where
  "chunk_header f c = [(''X-Filename'', f), (''X-Chunk-ID'', show_int c)]"

lemma chunk_header [simp]: "m\<lparr>connection_value := map_of (chunk_header f c)\<rparr> = with_headers m f c"
  by (simp add: chunk_header_def with_headers_def fun_upd_twist)

section \<open>Requests to the master\<close>

text \<open>\<open>tryCatch(axios...)\<close> of a request to the master: no data when it does not answer, or with an error.\<close>

definition master_request ::
  "cluster \<Rightarrow> nat \<Rightarrow> string \<Rightarrow> string \<Rightarrow> json_body \<Rightarrow> 'h world \<Rightarrow> json option \<times> 'h world" where
  "master_request k i http_method path item w =
     (if \<not> c_master_ok k i then (None, w)
      else case http_main (c_hash_order k) (c_replicas k) http_method path item (master w) of
        Inl e \<Rightarrow> (None, w)
      | Inr (LibraryError, t) \<Rightarrow> (None, w\<lparr>master := t\<rparr>)
      | Inr (Json j, t) \<Rightarrow> (Some j, w\<lparr>master := t\<rparr>))"

text \<open>The master answers each path with one kind of value; the functions return it, or \<open>null\<close>.\<close>

definition strings_of :: "json option \<Rightarrow> string list option" where
  "strings_of j = (case j of Some (Strings xs) \<Rightarrow> Some xs | _ \<Rightarrow> None)"

definition string_lists_of :: "json option \<Rightarrow> string list list option" where
  "string_lists_of j = (case j of Some (StringLists xs) \<Rightarrow> Some xs | _ \<Rightarrow> None)"

definition ints_of :: "json option \<Rightarrow> int list option" where
  "ints_of j = (case j of Some (Ints xs) \<Rightarrow> Some xs | _ \<Rightarrow> None)"

definition getChunkServerToAddChunkTo :: "cluster \<Rightarrow> nat \<Rightarrow> 'h world \<Rightarrow> string list option \<times> 'h world" where
  "getChunkServerToAddChunkTo k i w = apfst strings_of (master_request k i ''GET'' ''/server_to_write'' no_body w)"

definition getMultipleChunkLocations ::
  "cluster \<Rightarrow> nat \<Rightarrow> string \<Rightarrow> int list \<Rightarrow> 'h world \<Rightarrow> string list list option \<times> 'h world" where
  "getMultipleChunkLocations k i f ids w =
     apfst string_lists_of (master_request k i ''POST'' ''/chunk-location-multiple''
       \<lparr>json_file_name = Some f, json_chunk_id = None, json_chunk_ids = Some ids\<rparr> w)"

definition getSingleChunkLocations ::
  "cluster \<Rightarrow> nat \<Rightarrow> string \<Rightarrow> int \<Rightarrow> 'h world \<Rightarrow> string list option \<times> 'h world" where
  "getSingleChunkLocations k i f c w =
     apfst strings_of (master_request k i ''POST'' ''/chunk-location''
       \<lparr>json_file_name = Some f, json_chunk_id = Some c, json_chunk_ids = None\<rparr> w)"

lemmas request_defs = master_request_def strings_of_def string_lists_of_def ints_of_def

lemma write_request:
  assumes "c_master_ok k i" "return_server_to_write_chunk (c_hash_order k) (c_replicas k) (master w) = Inr (addrs, t)"
  shows "getChunkServerToAddChunkTo k i w = (Some addrs, w\<lparr>master := t\<rparr>)"
  using assms by (simp add: getChunkServerToAddChunkTo_def request_defs http_main_def cbind_def)

lemma read_request:
  assumes "c_master_ok k i"
  shows "master_request k i ''POST'' ''/chunks'' (file_body f) w
      = (Some (Ints (get_chunks_for_file f (master w))), w)"
    "master_request k i ''POST'' ''/filelocation'' (file_body f) w
      = (Some (Strings (get_file_locations f (master w))), w)"
    "list_all in_i32 ids \<Longrightarrow>
      getMultipleChunkLocations k i f ids w = (Some (get_multiple_chunks f ids (master w)), w)"
    "in_i32 c \<Longrightarrow> getSingleChunkLocations k i f c w = (Some (get_location f c (master w)), w)"
  using assms by (simp_all add: getMultipleChunkLocations_def getSingleChunkLocations_def request_defs
      http_main_def handler_defs)

datatype 'a outcome = Done 'a | Thrown | Running

section \<open>Inserting a file\<close>

definition chunk_size :: nat where "chunk_size = 8 * 1024"

definition total_chunks :: "byte list \<Rightarrow> nat" where
  "total_chunks content = (length content + (chunk_size - 1)) div chunk_size"

definition chunk_at :: "byte list \<Rightarrow> nat \<Rightarrow> byte list" where
  "chunk_at content i =
     (let start = i * chunk_size; last = min (start + chunk_size) (length content)
      in take (last - start) (drop start content))"

text \<open>The loop around one upload does not end while the node refuses; its turns are fuel.\<close>

primrec upload_until ::
  "cluster \<Rightarrow> string \<Rightarrow> int \<Rightarrow> byte list \<Rightarrow> string \<Rightarrow> nat \<Rightarrow> 'h world \<Rightarrow> 'h world outcome" where
  "upload_until k f c chunk location 0 w = Running"
| "upload_until k f c chunk location (Suc tries) w =
     (case node_request k location ''/new-chunk'' ''POST'' (chunk_header f c) chunk w of
        (resp, w') \<Rightarrow>
          if axios_ok resp \<and> map_option resp_status resp = Some 200 then Done w'
          else upload_until k f c chunk location tries w')"

primrec upload_everywhere ::
  "cluster \<Rightarrow> nat \<Rightarrow> string \<Rightarrow> int \<Rightarrow> byte list \<Rightarrow> string list \<Rightarrow> 'h world \<Rightarrow> 'h world outcome" where
  "upload_everywhere k tries f c chunk [] w = Done w"
| "upload_everywhere k tries f c chunk (location # locations) w =
     (case upload_until k f c chunk location tries w of
        Done w' \<Rightarrow> upload_everywhere k tries f c chunk locations w'
      | Thrown \<Rightarrow> Thrown
      | Running \<Rightarrow> Running)"

primrec insert_chunks ::
  "cluster \<Rightarrow> nat \<Rightarrow> string \<Rightarrow> byte list \<Rightarrow> nat list \<Rightarrow> 'h world \<Rightarrow> 'h world outcome" where
  "insert_chunks k tries f content [] w = Done w"
| "insert_chunks k tries f content (i # is) w =
     (case getChunkServerToAddChunkTo k i w of
        (None, w') \<Rightarrow> Thrown
      | (Some locations, w') \<Rightarrow>
          (case upload_everywhere k tries f (int i) (chunk_at content i) locations w' of
             Done w'' \<Rightarrow> insert_chunks k tries f content is w''
           | Thrown \<Rightarrow> Thrown
           | Running \<Rightarrow> Running))"

definition insertFile :: "cluster \<Rightarrow> nat \<Rightarrow> string \<Rightarrow> byte list \<Rightarrow> 'h world \<Rightarrow> 'h world outcome" where
  "insertFile k tries f content w = insert_chunks k tries f content [0..<total_chunks content] w"

section \<open>Reading a file\<close>

text \<open>The bytes of an answer, as the node's disk has them when it is sent.\<close>

definition answer_bytes :: "response option \<Rightarrow> string \<Rightarrow> 'h world \<Rightarrow> byte list" where
  "answer_bytes resp location w =
     (case resp of
        None \<Rightarrow> []
      | Some r \<Rightarrow>
          (case resp_body r of
             PageBody text \<Rightarrow> map of_char text
           | FdBody n l \<Rightarrow>
               (case nodes w location of
                  None \<Rightarrow> []
                | Some s \<Rightarrow> (case body_bytes (fs s) resp of None \<Rightarrow> [] | Some bs \<Rightarrow> bs))))"

primrec read_chunks ::
  "cluster \<Rightarrow> string \<Rightarrow> nat \<Rightarrow> (int \<times> string list) list \<Rightarrow> byte list \<Rightarrow> 'h world \<Rightarrow> (bool \<times> byte list) \<times> 'h world" where
  "read_chunks k f i [] out w = ((True, out), w)"
| "read_chunks k f i (x # xs) out w =
     (let location = snd x ! c_pick k i (length (snd x)) in
      case node_request k location ''/chunk'' ''GET'' (chunk_header f (fst x)) [] w of
        (resp, w') \<Rightarrow>
          if \<not> axios_ok resp then ((False, out), w')
          else if \<not> c_append_ok k i then ((False, out), w')
          else read_chunks k f (Suc i) xs (out @ answer_bytes resp location w') w')"

definition readFile :: "cluster \<Rightarrow> string \<Rightarrow> 'h world \<Rightarrow> (bool \<times> byte list) \<times> 'h world" where
  "readFile k f w =
     (if \<not> c_create_ok k then ((False, []), w)
      else case apfst ints_of (master_request k 0 ''POST'' ''/chunks'' (file_body f) w) of
        (None, w1) \<Rightarrow> ((False, []), w1)
      | (Some ids, w1) \<Rightarrow>
          (case getMultipleChunkLocations k 1 f ids w1 of
             (None, w2) \<Rightarrow> ((False, []), w2)
           | (Some locations, w2) \<Rightarrow>
               if locations = [] then ((False, []), w2)
               else if list_ex (\<lambda>l. l = []) locations then ((False, []), w2)
               else read_chunks k f 0 (zip ids locations) [] w2))"

section \<open>Removing a file\<close>

text \<open>
  \<open>for (let x in locations)\<close> goes through the indices of the array, as strings: each is the host
  of a URL.
\<close>

primrec delete_at :: "cluster \<Rightarrow> string \<Rightarrow> string list \<Rightarrow> 'h world \<Rightarrow> bool \<times> 'h world" where
  "delete_at k f [] w = (True, w)"
| "delete_at k f (location # locations) w =
     (case node_request k (c_host k location) ''/remove-file'' ''DELETE'' [(''X-Filename'', f)] [] w of
        (resp, w') \<Rightarrow>
          if \<not> axios_ok resp \<or> map_option resp_status resp \<noteq> Some 200 then (False, w')
          else delete_at k f locations w')"

definition deleteFile :: "cluster \<Rightarrow> string \<Rightarrow> 'h world \<Rightarrow> bool \<times> 'h world" where
  "deleteFile k f w =
     (case apfst strings_of (master_request k 0 ''POST'' ''/filelocation'' (file_body f) w) of
        (None, w1) \<Rightarrow> (False, w1)
      | (Some locations, w1) \<Rightarrow> delete_at k f (map show_nat [0..<length locations]) w1)"

text \<open>
  The addresses that the master lists play no part, only how many they are: a node that no host
  0, 1, ... leads to keeps what it has. When 0 leads to no node, nothing is deleted, and the client is told so.
\<close>

lemma node_request_others: "a \<noteq> location \<Longrightarrow> nodes (snd (node_request k location url method headers data w)) a = nodes w a"
  by (simp add: node_request_def split: option.split sum.split)

lemma delete_at_others:
  "a \<notin> c_host k ` set locations \<Longrightarrow> nodes (snd (delete_at k f locations w)) a = nodes w a"
proof (induction locations arbitrary: w)
  case (Cons location locations)
  then show ?case
    using node_request_others[of a "c_host k location" k "''/remove-file''" "''DELETE''" "[(''X-Filename'', f)]" "[]" w]
    by (cases "node_request k (c_host k location) ''/remove-file'' ''DELETE'' [(''X-Filename'', f)] [] w") simp
qed simp

lemma show_nat_0: "show_nat 0 = ''0''"
  by (subst show_nat.simps) (simp add: digit_char_def, code_simp)

lemma deleteFile_asked:
  "c_master_ok k 0 \<Longrightarrow> deleteFile k f w = delete_at k f (map show_nat [0..<length (get_file_locations f (master w))]) w"
  by (simp add: deleteFile_def read_request strings_of_def)

lemma delete_reaches_hosts:
  assumes "c_master_ok k 0" "\<And>i. i < length (get_file_locations f (master w)) \<Longrightarrow> c_host k (show_nat i) \<noteq> a"
  shows "nodes (snd (deleteFile k f w)) a = nodes w a"
  unfolding deleteFile_asked[OF assms(1)] using assms(2) by (intro delete_at_others) fastforce

lemma delete_reaches_none:
  assumes "nodes w (c_host k ''0'') = None" "c_master_ok k 0"
  shows "deleteFile k f w = (get_file_locations f (master w) = [], w)"
proof (cases "length (get_file_locations f (master w))")
  case (Suc n)
  then have "map show_nat [0..<Suc n] = ''0'' # map show_nat [Suc 0..<Suc n]"
    by (simp add: upt_conv_Cons show_nat_0 del: upt_Suc)
  then show ?thesis using assms Suc
    by (auto simp: deleteFile_asked node_request_def axios_ok_def simp del: upt_Suc)
qed (use assms in \<open>simp add: deleteFile_asked\<close>)

section \<open>The chunks of a file\<close>

lemma chunk_at_take: "chunk_at content i = take chunk_size (drop (i * chunk_size) content)"
  by (simp add: chunk_at_def Let_def min_def)

lemma chunk_size_pos [simp]: "0 < chunk_size"
  by (simp add: chunk_size_def)

lemma total_chunks_Suc: "i < total_chunks content \<longleftrightarrow> i * chunk_size < length content"
proof -
  have "Suc i \<le> (length content + (chunk_size - 1)) div chunk_size
      \<longleftrightarrow> Suc i * chunk_size \<le> length content + (chunk_size - 1)"
    by (rule less_eq_div_iff_mult_less_eq) simp
  moreover have "Suc i * chunk_size = i * chunk_size + chunk_size" by simp
  ultimately show ?thesis unfolding total_chunks_def using chunk_size_pos by linarith
qed

lemma chunk_at_nonempty: "i < total_chunks content \<Longrightarrow> chunk_at content i \<noteq> []"
  by (simp add: chunk_at_take total_chunks_Suc)

lemma concat_chunks_take:
  "concat (map (chunk_at content) [0..<n]) = take (n * chunk_size) content"
proof (induction n)
  case (Suc n)
  have "Suc n * chunk_size = n * chunk_size + chunk_size" by simp
  then show ?case using Suc by (simp only: take_add) (simp add: chunk_at_take)
qed simp

lemma concat_chunks: "concat (map (chunk_at content) [0..<total_chunks content]) = content"
proof -
  have "length content \<le> total_chunks content * chunk_size"
    using total_chunks_Suc[of "total_chunks content" content] by simp
  then show ?thesis by (simp add: concat_chunks_take)
qed

end
