(* ===== verification/Client_Store.thy ===== *)
theory Client_Store
  imports Client Tcp_Client
begin

text \<open>
  The client, the master and the nodes as one store of files: a file inserted through any
  number of nodes and replicas is read back as it was, once the nodes have reported.
\<close>

section \<open>The setting\<close>

definition cluster_ok :: "cluster \<Rightarrow> bool" where
  "cluster_ok k \<longleftrightarrow> mhd_serves (c_mhd k) \<and> 2 \<le> c_depth k \<and>
     (\<forall>d. d \<noteq> [] \<longrightarrow> c_pieces k d \<noteq> [] \<and> [] \<notin> set (c_pieces k d) \<and> concat (c_pieces k d) = d) \<and>
     (\<forall>xs. mset (c_hash_order k xs) = mset xs) \<and> (\<forall>i n. 0 < n \<longrightarrow> c_pick k i n < n) \<and>
     (\<forall>i. c_master_ok k i) \<and> c_create_ok k \<and> (\<forall>i. c_append_ok k i)"

definition world_rel ::
  "'h world \<Rightarrow> string set \<Rightarrow> (string \<Rightarrow> catalogue) \<Rightarrow> (string \<Rightarrow> store) \<Rightarrow> (string \<Rightarrow> ptr set) \<Rightarrow> bool" where
  "world_rel w A cat st F \<longleftrightarrow> (\<forall>a \<in> A. \<exists>s. nodes w a = Some s \<and> node_rel s (cat a) (st a) (F a))"

text \<open>Room in the counters of a catalogue for \<open>n\<close> more chunks of a file.\<close>

definition room :: "string \<Rightarrow> nat \<Rightarrow> catalogue \<Rightarrow> bool" where
  "room f n cat \<longleftrightarrow> (\<forall>(g, ids) \<in> set cat. int (length ids) + (if g = f then int n else 0) < int_max) \<and>
     int n < int_max \<and> int (length cat) + (if f \<in> cat_names cat then 0 else 1) < int_max"

lemma room_bounded: "room f n cat \<Longrightarrow> cat_bounded cat"
  by (force simp: room_def cat_bounded_def split: if_splits)

lemma room_mono: "room f n cat \<Longrightarrow> m \<le> n \<Longrightarrow> room f m cat"
  by (force simp: room_def split: if_splits)

text \<open>What a node knows of the file so far: chunks of the file as it is, and nothing else.\<close>

definition part_of :: "string \<Rightarrow> byte list \<Rightarrow> store \<Rightarrow> bool" where
  "part_of f content st \<longleftrightarrow>
     (\<forall>c bs. st (f, c) = Some bs \<longrightarrow> (\<exists>j < total_chunks content. c = int j \<and> bs = chunk_at content j))"

definition taking :: "string \<Rightarrow> byte list \<Rightarrow> nat \<Rightarrow> catalogue \<Rightarrow> store \<Rightarrow> bool" where
  "taking f content n cat st \<longleftrightarrow> room f n cat \<and> serial f cat \<and> part_of f content st"

section \<open>Uploads\<close>

lemma insert_split:
  assumes "serial f cat"
  shows "cat_insert f c (f \<in> cat_names cat) cat = (if f \<in> cat_names cat
    then butlast cat @ [(f, snd (last cat) @ [c])] else cat @ [(f, [c])])"
proof (cases "f \<in> cat_names cat")
  case True
  with serial_last[OF assms] obtain ca ids where "cat = ca @ [(f, ids)]"
    by (metis prod.collapse append_butlast_last_id)
  then show ?thesis using True by (simp add: cat_insert_last)
qed (simp add: cat_insert_new)

lemma taking_upload:
  assumes t: "taking f content (Suc n) cat st" and j: "j < total_chunks content"
    and up: "spec_upload f (int j) (chunk_at content j) (cat, st) = (cat', st')"
  shows "taking f content n cat' st'" "st' = st((f, int j) \<mapsto> chunk_at content j)"
proof -
  from t have ser: "serial f cat" and part: "part_of f content st" and r: "room f (Suc n) cat"
    by (simp_all add: taking_def)
  have st': "st' = st((f, int j) \<mapsto> chunk_at content j)"
  proof (cases "st (f, int j)")
    case None
    then show ?thesis using up by (auto simp: spec_upload_def)
  next
    case (Some bs)
    then have "bs = chunk_at content j" using part unfolding part_of_def by (metis of_nat_eq_iff)
    then show ?thesis using up Some by (auto simp: spec_upload_def fun_upd_idem_iff)
  qed
  then show "st' = st((f, int j) \<mapsto> chunk_at content j)" .
  have part': "part_of f content st'" using part j unfolding st' part_of_def by auto
  have "room f n cat' \<and> serial f cat'"
  proof (cases "st (f, int j) = None")
    case False
    then have "cat' = cat" using up by (auto simp: spec_upload_def)
    then show ?thesis using ser room_mono[OF r] by simp
  next
    case True
    then have cat': "cat' = cat_insert f (int j) (f \<in> cat_names cat) cat" using up by (auto simp: spec_upload_def)
    show ?thesis
    proof (cases "f \<in> cat_names cat")
      case False
      then show ?thesis using r room_mono[OF r, of n] unfolding cat' insert_split[OF ser]
        by (force simp: room_def serial_def split: if_splits)
    next
      case True
      with serial_last[OF ser] obtain ca ids where cat: "cat = ca @ [(f, ids)]"
        by (metis prod.collapse append_butlast_last_id)
      then show ?thesis using r True unfolding cat' insert_split[OF ser]
        by (auto simp: room_def serial_def split: if_splits)
    qed
  qed
  then show "taking f content n cat' st'" using part' by (simp add: taking_def)
qed

text \<open>One upload: the first attempt succeeds.\<close>

lemma upload_one:
  assumes k: "cluster_ok k" and w: "world_rel w A cat st F" and a: "a \<in> A" and name: "simple_name f"
    and t: "taking f content (Suc n) (cat a) (st a)" and j: "j < total_chunks content" "in_int (int j)"
    and tries: "0 < tries"
  shows "\<exists>w' cat' st'. upload_until k f (int j) (chunk_at content j) a tries w = Done w' \<and>
    master w' = master w \<and> world_rel w' A (cat(a := cat')) (st(a := st')) F \<and>
    taking f content n cat' st' \<and> st' = (st a)((f, int j) \<mapsto> chunk_at content j) \<and>
    cat' = fst (spec_upload f (int j) (chunk_at content j) (cat a, st a))"
proof -
  let ?chunk = "chunk_at content j" and ?m = "with_headers (c_mhd k) f (int j)"
  obtain s where s: "nodes w a = Some s" "node_rel s (cat a) (st a) (F a)"
    using w a by (auto simp: world_rel_def)
  have ne: "?chunk \<noteq> []" using j by (simp add: chunk_at_nonempty)
  then have ps: "\<forall>p \<in> set (c_pieces k ?chunk). p \<noteq> []" "c_pieces k ?chunk \<noteq> []" "concat (c_pieces k ?chunk) = ?chunk"
    using k by (auto simp: cluster_ok_def)
  have bound: "cat_bounded (cat a)" and ser: "serial f (cat a)" using t room_bounded by (auto simp: taking_def)
  obtain s' where run: "serve_request ?m (c_depth k) ''/new-chunk'' ''POST'' (c_pieces k ?chunk) s
      = Inr (page_reply ?m http_ok (snprintf 200 (new_chunk_json (int j) (length ?chunk))), s')"
    and rel': "case spec_upload f (int j) ?chunk (cat a, st a) of (cat', st') \<Rightarrow> node_rel s' cat' st' (F a)"
    using upload_refines[OF s(2) bound name ser with_headers(1)[OF j(2)] ps(1,2), of "c_mhd k" "c_depth k"] ps(3)
    by auto
  obtain cat' st' where up: "spec_upload f (int j) ?chunk (cat a, st a) = (cat', st')" by force
  have queue: "queue_response (c_mhd k) http_ok" using k by (simp add: cluster_ok_def mhd_serves_def)
  obtain n' where n': "tries = Suc n'" using tries by (cases tries) auto
  have "upload_until k f (int j) ?chunk a tries w = Done (w\<lparr>nodes := (nodes w)(a \<mapsto> s')\<rparr>)"
    using s(1) run ne queue by (simp add: n' node_request_def axios_ok_def page_reply_def)
  moreover have "world_rel (w\<lparr>nodes := (nodes w)(a \<mapsto> s')\<rparr>) A (cat(a := cat')) (st(a := st')) F"
    using w rel' up by (auto simp: world_rel_def)
  ultimately show ?thesis using taking_upload[OF t j(1) up] up by fastforce
qed

lemma upload_everywhere_run:
  assumes k: "cluster_ok k" and name: "simple_name f" and j: "j < total_chunks content" "in_int (int j)"
    and tries: "0 < tries"
  shows "world_rel w A cat st F \<Longrightarrow> set as \<subseteq> A \<Longrightarrow> distinct as \<Longrightarrow>
    \<forall>a \<in> A. taking f content (if a \<in> set as then Suc n else n) (cat a) (st a) \<Longrightarrow>
    \<exists>w' cat' st'. upload_everywhere k tries f (int j) (chunk_at content j) as w = Done w' \<and>
      master w' = master w \<and> world_rel w' A cat' st' F \<and> (\<forall>a \<in> A. taking f content n (cat' a) (st' a)) \<and>
      (\<forall>a. st' a = (if a \<in> set as then (st a)((f, int j) \<mapsto> chunk_at content j) else st a))"
proof (induction as arbitrary: w cat st)
  case Nil
  then show ?case by auto
next
  case (Cons a as)
  then have a: "a \<in> A" "taking f content (Suc n) (cat a) (st a)" by auto
  obtain w1 cat1 st1 where one: "upload_until k f (int j) (chunk_at content j) a tries w = Done w1"
    "master w1 = master w" "world_rel w1 A (cat(a := cat1)) (st(a := st1)) F"
    and t1: "taking f content n cat1 st1" and st1: "st1 = (st a)((f, int j) \<mapsto> chunk_at content j)"
    using upload_one[OF k Cons.prems(1) a(1) name a(2) j tries] by auto
  have "\<forall>b \<in> A. taking f content (if b \<in> set as then Suc n else n) ((cat(a := cat1)) b) ((st(a := st1)) b)"
    using Cons.prems(3,4) t1 by auto
  then obtain w' cat' st' where rest: "upload_everywhere k tries f (int j) (chunk_at content j) as w1 = Done w'"
    "master w' = master w1" "world_rel w' A cat' st' F" "\<forall>a \<in> A. taking f content n (cat' a) (st' a)"
    "\<forall>b. st' b = (if b \<in> set as then ((st(a := st1)) b)((f, int j) \<mapsto> chunk_at content j) else (st(a := st1)) b)"
    using Cons.IH[OF one(3)] Cons.prems(2,3) by auto
  have "st' b = (if b \<in> set (a # as) then (st b)((f, int j) \<mapsto> chunk_at content j) else st b)" for b
    using rest(5) st1 Cons.prems(3) by auto
  moreover have "upload_everywhere k tries f (int j) (chunk_at content j) (a # as) w = Done w'" "master w' = master w"
    using one rest by simp_all
  ultimately show ?case using rest(3,4) by blast
qed

section \<open>A file inserted\<close>

definition spread :: "string \<Rightarrow> byte list \<Rightarrow> nat \<Rightarrow> string set \<Rightarrow> (string \<Rightarrow> store) \<Rightarrow> bool" where
  "spread f content i A st \<longleftrightarrow> (\<forall>j < i. \<exists>a \<in> A. st a (f, int j) = Some (chunk_at content j))"

lemma insert_chunks_run:
  assumes k: "cluster_ok k" and name: "simple_name f" and tries: "0 < tries"
    and ids: "int (total_chunks content) < int_max" and dist: "distinct (map ip cs)" and ne: "cs \<noteq> []"
    and r: "0 < c_replicas k" "c_replicas k \<le> int (length cs)" and A: "A = ip ` set cs"
  shows "i + n = total_chunks content \<Longrightarrow> world_rel w A cat st F \<Longrightarrow> connections (master w) = cs \<Longrightarrow>
    turn_ok (master w) \<Longrightarrow> \<forall>a \<in> A. taking f content n (cat a) (st a) \<Longrightarrow> spread f content i A st \<Longrightarrow>
    \<exists>w' cat' st'. insert_chunks k tries f content [i..<total_chunks content] w = Done w' \<and>
      connections (master w') = cs \<and> world_rel w' A cat' st' F \<and> (\<forall>a \<in> A. part_of f content (st' a)) \<and>
      spread f content (total_chunks content) A st'"
proof (induction n arbitrary: i w cat st)
  case 0
  then show ?case by (auto simp: taking_def)
next
  case (Suc n)
  let ?t = "master w"
  have i: "i < total_chunks content" using Suc.prems(1) by simp
  have ini: "in_int (int i)" using i ids by (simp add: in_int_def int_min_def)
  have cs: "connections ?t \<noteq> []" "distinct (map ip (connections ?t))" "c_replicas k \<le> int (length (connections ?t))"
    using Suc.prems(3) ne dist r by simp_all
  have up_ok: "c_master_ok k j" for j using k by (simp add: cluster_ok_def)
  have hash: "\<And>xs. mset (c_hash_order k xs) = mset xs" using k by (simp add: cluster_ok_def)
  obtain as x where srv: "return_server_to_write_chunk (c_hash_order k) (c_replicas k) ?t
      = Inr (as, ?t\<lparr>index_to_write := x\<rparr>)"
    and as: "mset as = mset (turns cs (next_turn ?t) (nat (c_replicas k)))"
    and ok: "turn_ok (?t\<lparr>index_to_write := x\<rparr>)"
    using return_server_run[OF Suc.prems(4) cs hash] Suc.prems(3) by auto
  let ?w1 = "w\<lparr>master := ?t\<lparr>index_to_write := x\<rparr>\<rparr>"
  have da: "distinct as" using distinct_turns[OF dist, of "nat (c_replicas k)" "next_turn ?t"] r as
    by (metis mset_eq_imp_distinct_iff nat_le_iff)
  have sub: "set as \<subseteq> A" and nea: "as \<noteq> []"
  proof -
    have "set as = set (turns cs (next_turn ?t) (nat (c_replicas k)))" using as by (rule mset_eq_setD)
    then show "set as \<subseteq> A" using ne by (auto simp: turns_def A)
    have "length as = nat (c_replicas k)" using mset_eq_length[OF as] by (simp add: turns_def)
    then show "as \<noteq> []" using r by auto
  qed
  have w1: "world_rel ?w1 A cat st F" using Suc.prems(2) by (simp add: world_rel_def)
  have take1: "\<forall>a \<in> A. taking f content (if a \<in> set as then Suc n else n) (cat a) (st a)"
  proof
    fix a
    assume "a \<in> A"
    then have "taking f content (Suc n) (cat a) (st a)" using Suc.prems(5) by blast
    then show "taking f content (if a \<in> set as then Suc n else n) (cat a) (st a)"
      using room_mono[of f "Suc n" "cat a" n] by (simp add: taking_def)
  qed
  obtain w2 cat2 st2 where up: "upload_everywhere k tries f (int i) (chunk_at content i) as ?w1 = Done w2"
    and w2: "master w2 = master ?w1" "world_rel w2 A cat2 st2 F" "\<forall>a \<in> A. taking f content n (cat2 a) (st2 a)"
    and st2: "\<forall>a. st2 a = (if a \<in> set as then (st a)((f, int i) \<mapsto> chunk_at content i) else st a)"
    using upload_everywhere_run[OF k name i ini tries w1 sub da take1] by blast
  have "spread f content (Suc i) A st2"
    unfolding spread_def
  proof (intro allI impI)
    fix j
    assume "j < Suc i"
    show "\<exists>a \<in> A. st2 a (f, int j) = Some (chunk_at content j)"
    proof (cases "j = i")
      case True
      then show ?thesis using nea sub st2 by (intro bexI[of _ "hd as"]) auto
    next
      case False
      with \<open>j < Suc i\<close> have "j < i" by simp
      then obtain a where "a \<in> A" "st a (f, int j) = Some (chunk_at content j)"
        using Suc.prems(6) by (auto simp: spread_def)
      then show ?thesis using st2 False by (intro bexI[of _ a]) auto
    qed
  qed
  then obtain w' cat' st' where rest: "insert_chunks k tries f content [Suc i..<total_chunks content] w2 = Done w'"
    "connections (master w') = cs" "world_rel w' A cat' st' F" "\<forall>a \<in> A. part_of f content (st' a)"
    "spread f content (total_chunks content) A st'"
    using Suc.IH[of "Suc i" w2 cat2 st2] w2 Suc.prems(1,3) ok by auto
  have "[i..<total_chunks content] = i # [Suc i..<total_chunks content]" using i by (rule upt_conv_Cons)
  then show ?case using rest srv up by (auto simp: write_request[OF up_ok])
qed

section \<open>A file read\<close>

lemma read_one:
  assumes k: "cluster_ok k" and w: "world_rel w A cat st F" and a: "a \<in> A" and c: "in_int c"
    and bs: "st a (f, c) = Some bs"
  shows "\<exists>r w'. node_request k a ''/chunk'' ''GET'' (chunk_header f c) [] w = (r, w') \<and> axios_ok r \<and>
    answer_bytes r a w' = bs \<and> world_rel w' A cat st F"
proof -
  let ?m = "with_headers (c_mhd k) f c"
  obtain s where s: "nodes w a = Some s" "node_rel s (cat a) (st a) (F a)"
    using w a by (auto simp: world_rel_def)
  then obtain rs where sr: "storage_rel s rs (cat a) (F a)" and free: "\<not> locked s" and mem: "no_oom s"
    and d: "disk_rel (fs s) (cat a) (st a)" by (auto simp: node_rel_def)
  have serves: "response_from_fd ?m (length bs) (chunk_loc (fs s) f c)" "queue_response ?m http_ok"
    using k by (simp_all add: cluster_ok_def mhd_serves_def)
  obtain s' where run: "serve_request ?m (c_depth k) ''/chunk'' ''GET'' [] s = Inr (get_result ?m f c (cat a) (fs s), s')"
    and sr': "storage_rel s' rs (cat a) (F a)" and fr: "hframe (F a) s s'" and fs': "fs s' = fs s"
    by (rule get_chunk[OF sr free mem with_headers(1)[OF c]])
  have rel': "node_rel s' (cat a) (st a) (F a)"
    using sr' fr free mem d fs' by (auto simp: node_rel_def hframe_def no_oom_def)
  have name: "simple_name f"
    using disk_at_dir(2)[OF d] cat_has_name disk_relD(8)[OF d, of f c] bs by blast
  have stored: "fs_lookup (fs s) (chunk_loc (fs s) f c) = Some (FReg bs)" using disk_chunk[OF d name, of c] bs by simp
  note res = disk_get_result(2)[OF d bs serves]
  have "node_request k a ''/chunk'' ''GET'' (chunk_header f c) [] w
      = (get_result ?m f c (cat a) (fs s), w\<lparr>nodes := (nodes w)(a \<mapsto> s')\<rparr>)"
    using s(1) run by (simp add: node_request_def)
  moreover have "axios_ok (get_result ?m f c (cat a) (fs s))" by (simp add: res axios_ok_def)
  moreover have "answer_bytes (get_result ?m f c (cat a) (fs s)) a (w\<lparr>nodes := (nodes w)(a \<mapsto> s')\<rparr>) = bs"
    using stored by (simp add: res answer_bytes_def body_bytes_def fs')
  moreover have "world_rel (w\<lparr>nodes := (nodes w)(a \<mapsto> s')\<rparr>) A cat st F" using w rel' by (auto simp: world_rel_def)
  ultimately show ?thesis by blast
qed

lemma read_chunks_run:
  assumes k: "cluster_ok k"
  shows "world_rel w A cat st F \<Longrightarrow>
    \<forall>(c, locs) \<in> set xs. in_int c \<and> locs \<noteq> [] \<and> (\<forall>a \<in> set locs. a \<in> A \<and> st a (f, c) = Some (data c)) \<Longrightarrow>
    \<exists>w'. read_chunks k f i xs out w = ((True, out @ concat (map (\<lambda>x. data (fst x)) xs)), w')"
proof (induction xs arbitrary: i out w)
  case (Cons x xs)
  obtain c locs where x: "x = (c, locs)" by (cases x)
  let ?a = "locs ! c_pick k i (length locs)"
  have c: "in_int c" "locs \<noteq> []" using Cons.prems(2) x by auto
  then have "c_pick k i (length locs) < length locs" using k by (simp add: cluster_ok_def)
  then have "?a \<in> set locs" by simp
  then have a: "?a \<in> A" "st ?a (f, c) = Some (data c)" using Cons.prems(2) x by auto
  obtain r w1 where one: "node_request k ?a ''/chunk'' ''GET'' (chunk_header f c) [] w = (r, w1)" "axios_ok r"
    "answer_bytes r ?a w1 = data c" "world_rel w1 A cat st F"
    using read_one[OF k Cons.prems(1) a(1) c(1) a(2)] by blast
  have xs: "\<forall>(c, locs) \<in> set xs. in_int c \<and> locs \<noteq> [] \<and> (\<forall>a \<in> set locs. a \<in> A \<and> st a (f, c) = Some (data c))"
    using Cons.prems(2) by simp
  have "c_append_ok k i" using k by (simp add: cluster_ok_def)
  then show ?case using one Cons.IH[OF one(4) xs, of "Suc i" "out @ data c"] x by simp
qed simp

text \<open>
  The master's table when the nodes at the addresses \<open>A\<close> have all reported: each connection
  is that of such a node, and has the catalogue of the node.
\<close>

definition table_shows :: "TcpStorage \<Rightarrow> string set \<Rightarrow> (string \<Rightarrow> catalogue) \<Rightarrow> bool" where
  "table_shows t A cat \<longleftrightarrow> ip ` set (connections t) = A \<and>
     (\<forall>e \<in> set (connections t). files_to_chunks e = map to_mapping (cat (ip e)))"

lemma first_ids_reported:
  assumes "distinct (map fst cat)" "files_to_chunks c = map to_mapping cat"
  shows "set (first_ids f c) = {i. cat_has f i cat}"
proof -
  have "set (first_ids f (c\<lparr>files_to_chunks := map to_mapping cat\<rparr>)) = {i. cat_has f i cat}"
    using assms(1)
  proof (induction cat)
    case Nil
    then show ?case by (simp add: first_ids_def)
  next
    case (Cons x cat)
    obtain g ids where x: "x = (g, ids)" by (cases x)
    show ?case
    proof (cases "g = f")
      case True
      then have "\<not> cat_has f i cat" for i using Cons.prems x by (force simp: cat_has_def)
      then show ?thesis using True x by (auto simp: first_ids_def to_mapping_def)
    next
      case False
      then show ?thesis using Cons x by (auto simp: first_ids_def to_mapping_def)
    qed
  qed
  moreover have "c\<lparr>files_to_chunks := map to_mapping cat\<rparr> = c" using assms(2) by (cases c) simp
  ultimately show ?thesis by simp
qed

lemma sorted_range:
  assumes "sorted xs" "distinct xs" "set xs = int ` {0..<n}"
  shows "xs = map int [0..<n]"
proof -
  have "sorted (map int [0..<n])" "distinct (map int [0..<n])" "set (map int [0..<n]) = int ` {0..<n}"
    by (simp_all add: sorted_map distinct_map)
  then show ?thesis using assms by (intro sorted_distinct_set_unique) simp_all
qed

text \<open>What the master answers once a file is spread over the nodes.\<close>

lemma reported_file:
  assumes w: "world_rel w A cat st F" and t: "table_shows t A cat"
    and parts: "\<forall>a \<in> A. part_of f content (st a)" and spread: "spread f content (total_chunks content) A st"
  shows "get_chunks_for_file f t = map int [0..<total_chunks content]"
    and "set (get_location f c t) = {a \<in> A. st a (f, c) \<noteq> None}"
proof -
  have A: "A = ip ` set (connections t)"
    and files: "files_to_chunks e = map to_mapping (cat (ip e))" if "e \<in> set (connections t)" for e
    using t that by (auto simp: table_shows_def)
  have rel: "\<exists>s. nodes w a = Some s \<and> node_rel s (cat a) (st a) (F a)" if "a \<in> A" for a
    using w that by (auto simp: world_rel_def)
  have disk: "distinct (map fst (cat a))" "cat_has f c (cat a) = (st a (f, c) \<noteq> None)" if "a \<in> A" for a c
    using rel[OF that] disk_relD(4,8) by (fastforce simp: node_rel_def cat_ok_def)+
  have A: "A = ip ` set (connections t)" using t by (simp add: table_shows_def)
  have "set (first_ids f e) = {i. st (ip e) (f, i) \<noteq> None}" if "e \<in> set (connections t)" for e
    using first_ids_reported[OF disk(1) files[OF that]] disk(2) that A by blast
  then have "set (get_chunks_for_file f t) = (\<Union>a \<in> A. {i. st a (f, i) \<noteq> None})"
    unfolding get_chunks_exact(1) A by simp
  also have "\<dots> = int ` {0..<total_chunks content}"
    using parts spread by (fastforce simp: part_of_def spread_def)
  finally show "get_chunks_for_file f t = map int [0..<total_chunks content]"
    by (intro sorted_range get_chunks_exact)
  have "reports e f c \<longleftrightarrow> st (ip e) (f, c) \<noteq> None" if "e \<in> set (connections t)" for e
  proof -
    have "reports e f c \<longleftrightarrow> cat_has f c (cat (ip e))"
      unfolding reports_def files[OF that] by (force simp: to_mapping_def cat_has_def)
    then show ?thesis using disk(2)[of "ip e" c] that A by simp
  qed
  then show "set (get_location f c t) = {a \<in> A. st a (f, c) \<noteq> None}"
    unfolding get_location_exact(1) A by blast
qed

lemma read_file_run:
  assumes k: "cluster_ok k" and w: "world_rel w A cat st F" and t: "table_shows (master w) A cat"
    and parts: "\<forall>a \<in> A. part_of f content (st a)" and spread: "spread f content (total_chunks content) A st"
    and ne: "content \<noteq> []" and ids: "int (total_chunks content) < int_max"
  shows "fst (readFile k f w) = (True, content)"
proof -
  let ?t = "master w" and ?n = "total_chunks content"
  let ?ids = "map int [0..<?n]" and ?data = "\<lambda>c. chunk_at content (nat c)"
  note known = reported_file[OF w t parts spread]
  have n: "0 < ?n" using ne total_chunks_Suc[of 0 content] by simp
  have locs: "get_location f (int j) ?t \<noteq> []" if "j < ?n" for j
    using spread that known(2)[of "int j"] by (fastforce simp: spread_def)
  have holds: "a \<in> A \<and> st a (f, int j) = Some (?data (int j))" if a: "a \<in> set (get_location f (int j) ?t)" for a j
  proof -
    from a known(2)[of "int j"] obtain bs where "a \<in> A" "st a (f, int j) = Some bs" by auto
    moreover from this parts obtain i where "int j = int i" "bs = chunk_at content i"
      unfolding part_of_def by meson
    ultimately show ?thesis by simp
  qed
  let ?xs = "zip ?ids (get_multiple_chunks f ?ids ?t)"
  have xs: "?xs = map (\<lambda>j. (int j, get_location f (int j) ?t)) [0..<?n]"
    by (simp add: get_multiple_chunks_def zip_map1 zip_map2 comp_def zip_same_conv_map)
  have "\<forall>(c, l) \<in> set ?xs. in_int c \<and> l \<noteq> [] \<and> (\<forall>a \<in> set l. a \<in> A \<and> st a (f, c) = Some (?data c))"
  proof
    fix x
    assume "x \<in> set ?xs"
    then obtain j where j: "j < ?n" and x: "x = (int j, get_location f (int j) ?t)" unfolding xs by auto
    have "in_int (int j)" using j ids by (simp add: in_int_def int_min_def)
    then show "case x of (c, l) \<Rightarrow> in_int c \<and> l \<noteq> [] \<and> (\<forall>a \<in> set l. a \<in> A \<and> st a (f, c) = Some (?data c))"
      unfolding x split using locs[OF j] holds[of _ j] \<open>in_int (int j)\<close> by blast
  qed
  then have "\<exists>w'. read_chunks k f 0 ?xs [] w
      = ((True, [] @ concat (map (\<lambda>x. ?data (fst x)) ?xs)), w')"
    by (rule read_chunks_run[OF k w])
  then obtain w' where run: "read_chunks k f 0 ?xs [] w
      = ((True, [] @ concat (map (\<lambda>x. ?data (fst x)) ?xs)), w')" ..
  have whole: "concat (map (\<lambda>x. ?data (fst x)) ?xs) = content"
    unfolding xs by (simp add: comp_def concat_chunks)
  have all: "get_multiple_chunks f ?ids ?t = map (\<lambda>j. get_location f (int j) ?t) [0..<?n]"
    by (simp add: get_multiple_chunks_def)
  have "\<not> list_ex (\<lambda>l. l = []) (get_multiple_chunks f ?ids ?t)"
  proof (rule notI)
    assume "list_ex (\<lambda>l. l = []) (get_multiple_chunks f ?ids ?t)"
    then obtain j where "j < ?n" "get_location f (int j) ?t = []" unfolding all list_ex_iff by auto
    then show False using locs by blast
  qed
  moreover have "get_multiple_chunks f ?ids ?t \<noteq> []" unfolding all using n by simp
  moreover have "list_all in_i32 ?ids" using ids by (auto simp: list_all_iff in_i32_def int_max_def)
  moreover have "c_create_ok k" "c_master_ok k i" for i using k by (simp_all add: cluster_ok_def)
  ultimately show ?thesis using known(1) run whole by (simp add: readFile_def read_request ints_of_def)
qed

text \<open>The whole way round, for whatever table shows the nodes as they are after the insertion.\<close>

lemma insert_file_run:
  assumes k: "cluster_ok k" and name: "simple_name f" and tries: "0 < tries" and ne: "content \<noteq> []"
    and ids: "int (total_chunks content) < int_max" and cs: "connections (master w) \<noteq> []"
    and dist: "distinct (map ip (connections (master w)))" and turn: "turn_ok (master w)"
    and r: "0 < c_replicas k" "c_replicas k \<le> int (length (connections (master w)))"
    and A: "A = ip ` set (connections (master w))" and w: "world_rel w A cat st F"
    and new: "\<forall>a \<in> A. f \<notin> cat_names (cat a) \<and> room f (total_chunks content) (cat a)"
  obtains w' cat' st' where "insertFile k tries f content w = Done w'" "world_rel w' A cat' st' F"
    "\<And>t. table_shows t A cat' \<Longrightarrow> fst (readFile k f (w'\<lparr>master := t\<rparr>)) = (True, content)"
proof -
  have "taking f content (total_chunks content) (cat a) (st a)" if "a \<in> A" for a
  proof -
    from w that have "\<exists>s. nodes w a = Some s \<and> node_rel s (cat a) (st a) (F a)" by (simp add: world_rel_def)
    then obtain s where "nodes w a = Some s" "node_rel s (cat a) (st a) (F a)" by blast
    then have "st a (f, c) = None" for c
      using new that disk_relD(8)[of "fs s" "cat a" "st a" f c] cat_has_name[of f c "cat a"] by (auto simp: node_rel_def)
    then show ?thesis using new that by (auto simp: taking_def serial_def part_of_def)
  qed
  then obtain w' cat' st' where ins: "insert_chunks k tries f content [0..<total_chunks content] w = Done w'"
    and w': "connections (master w') = connections (master w)" "world_rel w' A cat' st' F"
      "\<forall>a \<in> A. part_of f content (st' a)" "spread f content (total_chunks content) A st'"
    using insert_chunks_run[OF k name tries ids dist cs r A, of 0 "total_chunks content" w cat st F] w turn
    by (auto simp: spread_def)
  have "fst (readFile k f (w'\<lparr>master := t\<rparr>)) = (True, content)" if "table_shows t A cat'" for t
  proof (rule read_file_run[OF k _ _ w'(3,4) ne ids])
    show "world_rel (w'\<lparr>master := t\<rparr>) A cat' st' F" using w'(2) by (simp add: world_rel_def)
    show "table_shows (master (w'\<lparr>master := t\<rparr>)) A cat'" using that by simp
  qed
  with ins w'(2) show thesis by (intro that) (simp_all add: insertFile_def)
qed

end
