(* ===== verification/Cluster_Files.thy ===== *)
theory Cluster_Files
  imports Cluster Client_Store
begin

text \<open>
  Client, master and nodes together: the client's insertion is a run of the master's tasks, and
  once the readers of the master have read the nodes' next reports, the file is read back.
\<close>

section \<open>The client's insertion as steps of the master\<close>

lemma node_request_master: "master (snd (node_request k a url http_method headers data w)) = master w"
  by (simp add: node_request_def split: option.split sum.split prod.split)

lemma upload_until_master: "upload_until k f c chunk a tries w = Done w' \<Longrightarrow> master w' = master w"
proof (induction tries arbitrary: w)
  case (Suc tries)
  obtain resp w1 where one: "node_request k a ''/new-chunk'' ''POST'' (chunk_header f c) chunk w = (resp, w1)" by force
  then have "master w1 = master w" using node_request_master[of k a _ _ _ chunk w] by (metis snd_conv)
  then show ?case using Suc one by (auto split: if_splits)
qed simp

lemma upload_everywhere_master: "upload_everywhere k tries f c chunk as w = Done w' \<Longrightarrow> master w' = master w"
  by (induction as arbitrary: w) (auto dest: upload_until_master split: outcome.splits)

lemma write_request_steps:
  assumes "getChunkServerToAddChunkTo k i w = (addrs, w')" "master w = tcp_storage M"
  shows "master_steps decode encode M (M\<lparr>tcp_storage := master w'\<rparr>)"
proof (cases "w' = w")
  case False
  then obtain a where "http_main (c_hash_order k) (c_replicas k) ''GET'' ''/server_to_write'' no_body (tcp_storage M)
      = Inr (a, master w')"
    using assms by (auto simp: getChunkServerToAddChunkTo_def master_request_def
        split: if_splits sum.splits http_answer.splits)
  then show ?thesis by (rule request_steps)
qed (use assms in simp)

lemma insert_chunks_steps:
  assumes "insert_chunks k tries f content js w = Done w'" "master w = tcp_storage M"
  shows "master_steps decode encode M (M\<lparr>tcp_storage := master w'\<rparr>)"
  using assms
proof (induction js arbitrary: w M)
  case Nil
  then show ?case by simp
next
  case (Cons j js)
  obtain addrs w1 w2 where ask: "getChunkServerToAddChunkTo k j w = (Some addrs, w1)"
    and up: "upload_everywhere k tries f (int j) (chunk_at content j) addrs w1 = Done w2"
    and more: "insert_chunks k tries f content js w2 = Done w'"
    using Cons.prems(1) by (auto split: prod.splits option.splits outcome.splits)
  let ?M = "M\<lparr>tcp_storage := master w1\<rparr>"
  have "master w2 = tcp_storage ?M" using upload_everywhere_master[OF up] by simp
  from Cons.IH[OF more this] have "master_steps decode encode ?M (M\<lparr>tcp_storage := master w'\<rparr>)" by simp
  moreover have "master_steps decode encode M ?M" by (rule write_request_steps[OF ask Cons.prems(2)])
  ultimately show ?case by (rule rtranclp_trans[rotated])
qed

section \<open>Reports read by the master\<close>

text \<open>The catalogue a node would report, as it lists it.\<close>

definition catalogue_of :: "'h StorageStateOuter_scheme \<Rightarrow> catalogue" where
  "catalogue_of s = (case print_storage_state s of Inl e \<Rightarrow> [] | Inr (cat, _) \<Rightarrow> cat)"

lemma catalogue_of_node: "node_rel s cat st F \<Longrightarrow> catalogue_of s = cat"
  using print_storage_state_run by (fastforce simp: node_rel_def catalogue_of_def)

text \<open>
  What a reader has read ends with the report of a catalogue, after the node's one join message
  and whatever else.
\<close>

definition last_report ::
  "(byte list \<Rightarrow> msg_type option) \<Rightarrow> packer \<Rightarrow> catalogue \<Rightarrow> byte list list \<Rightarrow> bool" where
  "last_report decode pk cat bufs \<longleftrightarrow>
     (\<exists>earlier. bufs = pk MsgJoin # earlier @ [pk (health_of cat)] \<and> (\<forall>buf \<in> set earlier. decode buf \<noteq> Some MsgJoin))"

text \<open>
  Every node at an address of \<open>A\<close> has an open connection, every open connection is that of
  such a node, and has read the node's catalogue last.
\<close>

definition all_reported ::
  "(byte list \<Rightarrow> msg_type option) \<Rightarrow> packer \<Rightarrow> 'h world \<Rightarrow> string set \<Rightarrow> master_state \<Rightarrow> bool" where
  "all_reported decode pk w A M \<longleftrightarrow>
     (\<forall>a \<in> A. \<exists>cid k. tasks M cid = Some k \<and> reading k \<and> task_addr k = a) \<and>
     (\<forall>cid k. tasks M cid = Some k \<longrightarrow> reading k \<longrightarrow> task_addr k \<in> A \<and>
       (\<exists>s. nodes w (task_addr k) = Some s \<and> last_report decode pk (catalogue_of s) (frames_read k)))"

lemma last_report_entries:
  assumes "last_report decode pk cat bufs" "decode (pk MsgJoin) = Some MsgJoin"
    "decode (pk (health_of cat)) = Some (health_of cat)"
  shows "fold (message_entries decode cid addr) bufs []
    = [\<lparr>connection_id = cid, ip = addr, files_to_chunks = map to_mapping cat\<rparr>]"
proof -
  obtain earlier where bufs: "bufs = pk MsgJoin # earlier @ [pk (health_of cat)]"
    and plain: "\<forall>buf \<in> set earlier. decode buf \<noteq> Some MsgJoin" using assms(1) by (auto simp: last_report_def)
  have "\<exists>ms'. fold (message_entries decode cid addr) earlier
      [\<lparr>connection_id = cid, ip = addr, files_to_chunks = ms\<rparr>]
    = [\<lparr>connection_id = cid, ip = addr, files_to_chunks = ms'\<rparr>]" for ms
    using plain
    by (induction earlier arbitrary: ms)
      (auto simp: message_entries_def connection_update_def split: option.split msg_type.split)
  from this[of "[]"] obtain ms' where "fold (message_entries decode cid addr) earlier
      [\<lparr>connection_id = cid, ip = addr, files_to_chunks = []\<rparr>]
    = [\<lparr>connection_id = cid, ip = addr, files_to_chunks = ms'\<rparr>]" ..
  then show ?thesis using assms(2,3)
    by (simp add: bufs message_entries_def health_of_def connection_update_def)
qed

lemma reported_table:
  assumes M: "master_steps decode encode (master_init replication) M" and all: "all_reported decode pk w A M"
    and w: "world_rel w A cat st F" and join: "decode (pk MsgJoin) = Some MsgJoin"
    and health: "\<And>a. a \<in> A \<Longrightarrow> decode (pk (health_of (cat a))) = Some (health_of (cat a))"
  shows "table_shows (tcp_storage M) A cat"
proof -
  have entry: "task_addr k \<in> A \<and> entries cid (tcp_storage M)
      = [\<lparr>connection_id = cid, ip = task_addr k, files_to_chunks = map to_mapping (cat (task_addr k))\<rparr>]"
    if k: "tasks M cid = Some k" "reading k" for cid k
  proof -
    obtain s where a: "task_addr k \<in> A" and s: "nodes w (task_addr k) = Some s"
      and last: "last_report decode pk (catalogue_of s) (frames_read k)"
      using all k unfolding all_reported_def by blast
    have "catalogue_of s = cat (task_addr k)" using w a s catalogue_of_node by (fastforce simp: world_rel_def)
    then have "fold (message_entries decode cid (task_addr k)) (frames_read k) []
        = [\<lparr>connection_id = cid, ip = task_addr k, files_to_chunks = map to_mapping (cat (task_addr k))\<rparr>]"
      using last_report_entries[OF _ join health[OF a]] last by simp
    then show ?thesis using master_ok_task[OF master_ok_reachable[OF M] k(1)] k(2) a by (simp add: task_ok_def)
  qed
  have known: "ip e \<in> A \<and> files_to_chunks e = map to_mapping (cat (ip e))" if e: "e \<in> set (connections (tcp_storage M))" for e
  proof -
    have mem: "e \<in> set (entries (connection_id e) (tcp_storage M))" using e by (simp add: entries_def)
    have "task_ok decode encode (connection_id e) (tasks M (connection_id e)) (entries (connection_id e) (tcp_storage M))"
      using master_ok_reachable[OF M] by (simp add: master_ok_def)
    then obtain k where "tasks M (connection_id e) = Some k" "reading k"
      using mem by (cases "tasks M (connection_id e)") (auto simp: task_ok_def split: if_splits)
    from entry[OF this] have a: "task_addr k \<in> A"
      and e: "e = \<lparr>connection_id = connection_id e, ip = task_addr k, files_to_chunks = map to_mapping (cat (task_addr k))\<rparr>"
      using mem by simp_all
    from arg_cong[where f = ip, OF e] arg_cong[where f = files_to_chunks, OF e] a show ?thesis by simp
  qed
  have "a \<in> ip ` set (connections (tcp_storage M))" if a: "a \<in> A" for a
  proof -
    obtain cid k where k: "tasks M cid = Some k" "reading k" "task_addr k = a"
      using all a unfolding all_reported_def by blast
    from entry[OF k(1,2)] have "\<lparr>connection_id = cid, ip = a, files_to_chunks = map to_mapping (cat a)\<rparr>
        \<in> set (entries cid (tcp_storage M))" using k(3) by simp
    then show ?thesis by (force simp: entries_def)
  qed
  then show ?thesis using known by (auto simp: table_shows_def)
qed

text \<open>A whole message that arrives can be read at once.\<close>

lemma frame_arrives:
  assumes k: "tasks M cid = Some k" "reading k" "received k = []" and len: "length buf < 2 ^ 32"
  shows "master_steps decode encode M (read_one_frame decode cid k buf [] M)"
proof -
  let ?k = "k\<lparr>received := frame buf\<rparr>"
  let ?M = "set_task cid ?k M"
  have "master_step decode encode M ?M" using master_arrive[OF k(1), of decode encode "frame buf"] k(3) by simp
  moreover have "master_step decode encode ?M (read_one_frame decode cid ?k buf [] ?M)"
    using read_frame_frame[OF len, of "[]"] k(2) by (intro master_frame) (simp_all add: set_task_def)
  moreover have "read_one_frame decode cid ?k buf [] ?M = read_one_frame decode cid k buf [] M"
    by (simp add: read_one_frame_def set_task_def)
  ultimately show ?thesis by (simp add: converse_rtranclp_into_rtranclp)
qed

section \<open>The whole way round\<close>

lemma insert_then_read:
  assumes k: "cluster_ok k" and lib: "library_ok lib" and name: "simple_name f" and tries: "0 < tries" and ne: "content \<noteq> []"
    and ids: "int (total_chunks content) < int_max"
    and M: "master_steps (codec_decode lib) (codec_encode lib) (master_init replication) M" "master w = tcp_storage M"
    and cs: "connections (master w) \<noteq> []"
    and dist: "distinct (map ip (connections (master w)))" and turn: "turn_ok (master w)"
    and r: "0 < c_replicas k" "c_replicas k \<le> int (length (connections (master w)))"
    and A: "A = ip ` set (connections (master w))" and w: "world_rel w A cat st F"
    and new: "\<forall>a \<in> A. f \<notin> cat_names (cat a) \<and> room f (total_chunks content) (cat a)"
  shows "\<exists>w'. insertFile k tries f content w = Done w' \<and>
    master_steps (codec_decode lib) (codec_encode lib) M (M\<lparr>tcp_storage := master w'\<rparr>) \<and>
    (\<forall>M'. master_steps (codec_decode lib) (codec_encode lib) (M\<lparr>tcp_storage := master w'\<rparr>) M' \<longrightarrow>
      all_reported (codec_decode lib) (codec_pack lib) w' A M' \<longrightarrow>
      fst (readFile k f (w'\<lparr>master := tcp_storage M'\<rparr>)) = (True, content))"
proof -
  obtain w' cat' st' where ins: "insertFile k tries f content w = Done w'" and w': "world_rel w' A cat' st' F"
    and whole: "\<And>t. table_shows t A cat' \<Longrightarrow> fst (readFile k f (w'\<lparr>master := t\<rparr>)) = (True, content)"
    by (rule insert_file_run[OF k name tries ne ids cs dist turn r A w new]) blast
  have steps: "master_steps (codec_decode lib) (codec_encode lib) M (M\<lparr>tcp_storage := master w'\<rparr>)"
    by (rule insert_chunks_steps[OF ins[unfolded insertFile_def] M(2)])
  have join: "codec_decode lib (codec_pack lib MsgJoin) = Some MsgJoin" using codec_decode_pack[OF lib] by simp
  have health: "codec_decode lib (codec_pack lib (health_of (cat' a))) = Some (health_of (cat' a))" if a: "a \<in> A" for a
  proof -
    obtain s where "nodes w' a = Some s" "node_rel s (cat' a) (st' a) (F a)" using w' a unfolding world_rel_def by blast
    then have "disk_rel (fs s) (cat' a) (st' a)" by (auto simp: node_rel_def)
    from codec_decode_pack[OF lib health_fits[OF this]] show ?thesis .
  qed
  have "fst (readFile k f (w'\<lparr>master := tcp_storage M'\<rparr>)) = (True, content)"
    if "master_steps (codec_decode lib) (codec_encode lib) (M\<lparr>tcp_storage := master w'\<rparr>) M'"
      "all_reported (codec_decode lib) (codec_pack lib) w' A M'" for M'
  proof (rule whole[OF reported_table[OF _ that(2) w' join health]])
    show "master_steps (codec_decode lib) (codec_encode lib) (master_init replication) M'"
      using M(1) steps that(1) by simp
  qed
  then show ?thesis using ins steps by blast
qed

end
