(* ===== verification/Example_Codec.thy ===== *)
theory Example_Codec
  imports Proto_Messages
begin

text \<open>
  A concrete library that parses what it packs, for the hypotheses that ask for one: lengths
  before strings and lists, a number for the kind of a message.
\<close>

definition enc_str :: "string \<Rightarrow> nat list" where
  "enc_str x = length x # map of_char x"

fun dec_str :: "nat list \<Rightarrow> (string \<times> nat list) option" where
  "dec_str [] = None"
| "dec_str (n # bs) = (if length bs < n then None else Some (map char_of (take n bs), drop n bs))"

definition enc_int :: "int \<Rightarrow> nat list" where
  "enc_int i = [if i < 0 then 1 else 0, nat \<bar>i\<bar>]"

fun dec_int :: "nat list \<Rightarrow> (int \<times> nat list) option" where
  "dec_int (a # b # bs) = Some (if a = 1 then - int b else int b, bs)"
| "dec_int bs = None"

primrec dec_many :: "(nat list \<Rightarrow> ('a \<times> nat list) option) \<Rightarrow> nat \<Rightarrow> nat list \<Rightarrow> ('a list \<times> nat list) option" where
  "dec_many dec 0 bs = Some ([], bs)"
| "dec_many dec (Suc k) bs =
     (case dec bs of None \<Rightarrow> None
      | Some (x, r) \<Rightarrow> map_option (\<lambda>(xs, r'). (x # xs, r')) (dec_many dec k r))"

definition enc_list :: "('a \<Rightarrow> nat list) \<Rightarrow> 'a list \<Rightarrow> nat list" where
  "enc_list enc xs = length xs # concat (map enc xs)"

fun dec_list :: "(nat list \<Rightarrow> ('a \<times> nat list) option) \<Rightarrow> nat list \<Rightarrow> ('a list \<times> nat list) option" where
  "dec_list dec [] = None"
| "dec_list dec (n # bs) = dec_many dec n bs"

lemma dec_str [simp]: "dec_str (enc_str x @ r) = Some (x, r)"
  by (simp add: enc_str_def comp_def)

lemma dec_int [simp]: "dec_int (enc_int i @ r) = Some (i, r)"
  by (simp add: enc_int_def)

lemma dec_many:
  "(\<And>x r. dec (enc x @ r) = Some (x, r)) \<Longrightarrow> dec_many dec (length xs) (concat (map enc xs) @ r) = Some (xs, r)"
  by (induction xs) simp_all

lemma dec_list: "(\<And>x r. dec (enc x @ r) = Some (x, r)) \<Longrightarrow> dec_list dec (enc_list enc xs @ r) = Some (xs, r)"
  by (simp add: enc_list_def dec_many)

definition enc_mapping :: "FileMappings \<Rightarrow> nat list" where
  "enc_mapping fm = enc_str (mapping_filename fm) @ enc_list enc_int (mapping_chunk_ids fm)"

definition dec_mapping :: "nat list \<Rightarrow> (FileMappings \<times> nat list) option" where
  "dec_mapping bs =
     (case dec_str bs of None \<Rightarrow> None
      | Some (f, r) \<Rightarrow> map_option (\<lambda>(ids, r'). (\<lparr>mapping_filename = f, mapping_chunk_ids = ids\<rparr>, r')) (dec_list dec_int r))"

lemma dec_mapping [simp]: "dec_mapping (enc_mapping fm @ r) = Some (fm, r)"
  by (cases fm) (simp add: dec_mapping_def enc_mapping_def dec_list)

fun enc_payload :: "payload \<Rightarrow> nat list" where
  "enc_payload JoinP = [0]"
| "enc_payload (FileMappingsP fm) = 1 # enc_mapping fm"
| "enc_payload (HealthP fms) = 2 # enc_list enc_mapping fms"
| "enc_payload (MasterP m) = 3 # enc_str (msg_id m)"
| "enc_payload (StorageP MsgNotSet) = [4]"
| "enc_payload (StorageP MsgJoin) = [5]"
| "enc_payload (StorageP (MsgHealth fms)) = 6 # enc_list enc_mapping fms"

definition dec_payload :: "nat list \<Rightarrow> payload option" where
  "dec_payload bs =
     (case bs of
        [] \<Rightarrow> None
      | k # r \<Rightarrow>
          if k = 0 then Some JoinP
          else if k = 1 then map_option (\<lambda>(fm, _). FileMappingsP fm) (dec_mapping r)
          else if k = 2 then map_option (\<lambda>(fms, _). HealthP fms) (dec_list dec_mapping r)
          else if k = 3 then map_option (\<lambda>(i, _). MasterP \<lparr>msg_id = i\<rparr>) (dec_str r)
          else if k = 4 then Some (StorageP MsgNotSet)
          else if k = 5 then Some (StorageP MsgJoin)
          else map_option (\<lambda>(fms, _). StorageP (MsgHealth fms)) (dec_list dec_mapping r))"

lemma dec_enc_payload: "dec_payload (enc_payload p) = Some p"
  using dec_list[OF dec_mapping, of _ "[]"] dec_mapping[of _ "[]"] dec_str[of _ "[]"]
  by (cases p rule: enc_payload.cases) (simp_all add: dec_payload_def)

definition lib0 :: protobuf_c where
  "lib0 = \<lparr>message_size = (\<lambda>m. length (enc_payload (payload m))), message_bytes = (\<lambda>m. enc_payload (payload m)),
     message_parse = (\<lambda>d bs. case dec_payload bs of None \<Rightarrow> None
       | Some p \<Rightarrow> if fits d p then Some \<lparr>base_descriptor = d, payload = p\<rparr> else None)\<rparr>"

lemma lib0_ok [simp]: "library_ok lib0"
  by (auto simp: library_ok_def lib0_def dec_enc_payload split: option.splits if_splits)

end
