(* ===== verification/Example_Cluster.thy ===== *)
theory Example_Cluster
  imports Examples Cluster_Files Example_Codec
begin

text \<open>
  A concrete cluster: a master that two nodes have joined, one that holds nothing yet and one
  that holds a chunk, and a file to be stored on both.
\<close>

definition cluster0 :: cluster where
  "cluster0 = \<lparr>c_mhd = mhd0, c_depth = 2, c_pieces = (\<lambda>d. [d]), c_hash_order = rev, c_replicas = 2, c_master_ok = (\<lambda>_. True),
     c_pick = (\<lambda>i n. i mod n), c_create_ok = True, c_append_ok = (\<lambda>_. True), c_host = (\<lambda>n. ''0.0.0.'' @ n)\<rparr>"

definition table0 :: TcpStorage where
  "table0 = storage_insert ''u2'' ''10.0.0.2'' (storage_insert ''u1'' ''10.0.0.1'' (storage_new 2))"

definition world0 where
  "world0 = \<lparr>master = table0, nodes = [''10.0.0.1'' \<mapsto> node0, ''10.0.0.2'' \<mapsto> node1]\<rparr>"


lemma cluster0_ok [simp]: "cluster_ok cluster0"
  by (auto simp: cluster_ok_def cluster0_def intro: mhd0_serves)

lemma cluster0_fields [simp]: "c_replicas cluster0 = 2"
  by (simp add: cluster0_def)

lemma table0_run: "connections table0 =
    [\<lparr>connection_id = ''u1'', ip = ''10.0.0.1'', files_to_chunks = []\<rparr>,
     \<lparr>connection_id = ''u2'', ip = ''10.0.0.2'', files_to_chunks = []\<rparr>]" "index_to_write table0 = 0"
  by (simp_all add: table0_def storage_insert_def storage_new_def)

lemma table0_turn [simp]: "turn_ok table0"
  by (simp add: turn_ok_def table0_run int_max_def)

lemma world0_master [simp]: "master world0 = table0"
  by (simp add: world0_def)

text \<open>The same nodes, once the second has reported its chunk.\<close>

definition world1 where
  "world1 = world0\<lparr>master := update_state ''u2'' [to_mapping (''a'', [1])] table0\<rparr>"

lemma world1_nodes: "nodes world1 ''0.0.0.0'' = None" "nodes world1 ''10.0.0.2'' = Some node1"
  by (simp_all add: world1_def world0_def)

lemma world1_located: "get_file_locations ''a'' (master world1) = [''10.0.0.2'']"
  by (simp add: get_file_locations_def world1_def update_state_def table0_run connection_update_def to_mapping_def)

lemma world1_connections: "connections (master world1) =
    [\<lparr>connection_id = ''u1'', ip = ''10.0.0.1'', files_to_chunks = []\<rparr>,
     \<lparr>connection_id = ''u2'', ip = ''10.0.0.2'', files_to_chunks = [to_mapping (''a'', [1])]\<rparr>]"
  by (simp add: world1_def update_state_def table0_run connection_update_def)

definition cats0 :: "string \<Rightarrow> catalogue" where
  "cats0 a = (if a = ''10.0.0.2'' then [(''a'', [1])] else [])"

definition stores0 :: "string \<Rightarrow> store" where
  "stores0 a = (if a = ''10.0.0.2'' then store1 else Map.empty)"

lemma world0_rel: "world_rel world0 {''10.0.0.1'', ''10.0.0.2''} cats0 stores0 (\<lambda>_. {})"
  by (simp add: world_rel_def world0_def cats0_def stores0_def)

lemma total_chunks_one [simp]: "total_chunks [b] = 1"
  by (simp add: total_chunks_def chunk_size_def)

lemma world0_room: "a \<in> {''10.0.0.1'', ''10.0.0.2''} \<Longrightarrow>
    ''b'' \<notin> cat_names (cats0 a) \<and> room ''b'' 1 (cats0 a)"
  by (auto simp: cats0_def room_def int_max_def)

text \<open>The insertion of a file of one byte, and the catalogues it leaves.\<close>

definition cats1 :: "string \<Rightarrow> catalogue" where
  "cats1 a = (if a = ''10.0.0.2'' then [(''a'', [1]), (''b'', [0])] else [(''b'', [0])])"

lemma turns0: "return_server_to_write_chunk rev 2 table0
    = Inr ([''10.0.0.1'', ''10.0.0.2''], table0\<lparr>index_to_write := 0\<rparr>)"
  unfolding table0_def by code_simp

lemma upload0:
  assumes w: "world_rel w {''10.0.0.1'', ''10.0.0.2''} cat st (\<lambda>_. {})" and a: "a \<in> {''10.0.0.1'', ''10.0.0.2''}"
    and cat: "cat a = cats0 a" "st a = stores0 a"
  shows "\<exists>w' st'. upload_until cluster0 ''b'' 0 [5] a 1 w = Done w' \<and> master w' = master w \<and>
    world_rel w' {''10.0.0.1'', ''10.0.0.2''} (cat(a := cats1 a)) (st(a := st')) (\<lambda>_. {})"
proof -
  have "taking ''b'' [5] (Suc 0) (cat a) (st a)"
    using world0_room[OF a] cat(1) cat(2) unfolding taking_def part_of_def serial_def
    by (auto simp: stores0_def store1_def split: if_splits)
  moreover have "chunk_at [5] 0 = [5]" by (simp add: chunk_at_def chunk_size_def)
  moreover have "fst (spec_upload ''b'' 0 [5] (cat a, st a)) = cats1 a"
    using a by (auto simp: cat spec_upload_def cats0_def cats1_def stores0_def store1_def cat_insert_def)
  ultimately show ?thesis
    using upload_one[OF cluster0_ok w a simple_ab(2), of "[5]" 0 0 1] by (fastforce simp: in_int_def int_min_def int_max_def)
qed

lemma inserted0:
  obtains w' st' where "insertFile cluster0 1 ''b'' [5] world0 = Done w'" "master w' = table0\<lparr>index_to_write := 0\<rparr>"
    "world_rel w' {''10.0.0.1'', ''10.0.0.2''} cats1 st' (\<lambda>_. {})"
proof -
  let ?A = "{''10.0.0.1'', ''10.0.0.2''}"
  let ?w = "world0\<lparr>master := table0\<lparr>index_to_write := 0\<rparr>\<rparr>"
  have w: "world_rel ?w ?A cats0 stores0 (\<lambda>_. {})" using world0_rel by (simp add: world_rel_def)
  obtain w1 st1 where one: "upload_until cluster0 ''b'' 0 [5] ''10.0.0.1'' 1 ?w = Done w1" "master w1 = master ?w"
      "world_rel w1 ?A (cats0(''10.0.0.1'' := cats1 ''10.0.0.1'')) (stores0(''10.0.0.1'' := st1)) (\<lambda>_. {})"
    using upload0[OF w, of "''10.0.0.1''"] by auto
  obtain w2 st2 where two: "upload_until cluster0 ''b'' 0 [5] ''10.0.0.2'' 1 w1 = Done w2" "master w2 = master w1"
      "world_rel w2 ?A (cats0(''10.0.0.1'' := cats1 ''10.0.0.1'', ''10.0.0.2'' := cats1 ''10.0.0.2'')) st2 (\<lambda>_. {})"
    using upload0[OF one(3), of "''10.0.0.2''"] by auto
  have "world_rel w2 ?A cats1 st2 (\<lambda>_. {})" using two(3) by (simp add: world_rel_def)
  moreover have "getChunkServerToAddChunkTo cluster0 0 world0 = (Some [''10.0.0.1'', ''10.0.0.2''], ?w)"
    using write_request[of cluster0 0 world0] turns0 by (simp add: cluster0_def)
  then have "insertFile cluster0 1 ''b'' [5] world0 = Done w2"
    using one(1) two(1) by (simp add: insertFile_def chunk_at_def chunk_size_def)
  moreover have "master w2 = table0\<lparr>index_to_write := 0\<rparr>" using one(2) two(2) by simp
  ultimately show thesis by (rule that[rotated 2])
qed

text \<open>The messages of the concrete library.\<close>

lemma check0: "length (health_check (codec_encode lib0) ''u1'') < 1024"
  by (simp add: health_check_def codec_encode_def lib0_def enc_str_def)

lemma sizes0: "codec_size lib0 MsgJoin = 1" "codec_size lib0 (health_of [(''a'', [1])]) = 7"
  by (simp_all add: codec_size_def lib0_def storage_message_def health_of_def to_mapping_def enc_list_def
      enc_mapping_def enc_str_def enc_int_def)

text \<open>A heap that holds one message.\<close>

definition message_node :: heap where
  "message_node = \<lparr>mem = [1 \<mapsto> MsgB (Some (storage_message (health_of [(''a'', [1])])))], brk = 2, oom = (\<lambda>_. False)\<rparr>"

lemma message_node_run:
  "1 \<noteq> NULL" "mem message_node 1 = Some (MsgB (Some (storage_message (health_of [(''a'', [1])]))))"
  "base_descriptor (storage_message (health_of [(''a'', [1])])) = StorageDescriptor"
  "fits StorageDescriptor (payload (storage_message (health_of [(''a'', [1])])))" "heap_ok message_node" "no_oom message_node"
  by (simp_all add: message_node_def storage_message_def health_of_def to_mapping_def heap_ok_def no_oom_def)

lemma message_bytes0: "message_bytes lib0 (storage_message (health_of [(''a'', [1])])) = [6, 1, 1, 97, 1, 0, 1]"
  "message_size lib0 (storage_message (health_of [(''a'', [1])])) = 7"
  by (simp_all add: lib0_def storage_message_def health_of_def to_mapping_def enc_list_def
      enc_mapping_def enc_str_def enc_int_def)

text \<open>The tasks of the master when both nodes have joined, and when both have reported their catalogues.\<close>

abbreviation decode0 where "decode0 \<equiv> codec_decode lib0"
abbreviation encode0 where "encode0 \<equiv> codec_encode lib0"
abbreviation report0 where "report0 a \<equiv> codec_pack lib0 (health_of (cats1 a))"
abbreviation join0 where "join0 \<equiv> codec_pack lib0 MsgJoin"

definition joined_task :: "string \<Rightarrow> conn_task" where
  "joined_task addr = (accept_task addr)\<lparr>frames_read := [join0]\<rparr>"

definition joined_master :: master_state where
  "joined_master = \<lparr>tcp_storage = table0,
     tasks = [''u1'' \<mapsto> joined_task ''10.0.0.1'', ''u2'' \<mapsto> joined_task ''10.0.0.2'']\<rparr>"

lemma codec0: "decode0 join0 = Some MsgJoin" "length join0 < 2 ^ 32"
    "decode0 (report0 a) = Some (health_of (cats1 a))" "length (report0 a) < 2 ^ 32"
proof -
  have len: "length (codec_pack lib0 msg) = codec_size lib0 msg" for msg
    using codec_packs[OF lib0_ok] by (simp add: packs_to_size_def)
  show "decode0 join0 = Some MsgJoin" using codec_decode_pack[OF lib0_ok] by simp
  show "length join0 < 2 ^ 32" unfolding len by (simp add: sizes0)
  show "length (report0 a) < 2 ^ 32" unfolding len
    by (simp add: cats1_def codec_size_def lib0_def storage_message_def health_of_def to_mapping_def enc_list_def
      enc_mapping_def enc_str_def enc_int_def)
  show "decode0 (report0 a) = Some (health_of (cats1 a))"
    by (rule codec_decode_pack[OF lib0_ok]) (simp add: health_of_def to_mapping_def cats1_def in_int_def int_min_def int_max_def)
qed

lemma join_step:
  assumes "tasks M cid = None"
  shows "master_steps decode0 encode0 M
    \<lparr>tcp_storage = storage_insert cid addr (tcp_storage M), tasks = (tasks M)(cid \<mapsto> joined_task addr)\<rparr>"
proof -
  let ?M = "set_task cid (accept_task addr) M"
  have "master_step decode0 encode0 M ?M" by (rule master_step.accept[OF assms])
  moreover have "master_steps decode0 encode0 ?M (read_one_frame decode0 cid (accept_task addr) join0 [] ?M)"
    by (rule frame_arrives[OF _ _ _ codec0(2)]) (simp_all add: set_task_def accept_task_def)
  moreover have "read_one_frame decode0 cid (accept_task addr) join0 [] ?M
      = \<lparr>tcp_storage = storage_insert cid addr (tcp_storage M), tasks = (tasks M)(cid \<mapsto> joined_task addr)\<rparr>"
    by (simp add: read_one_frame_def set_task_def accept_task_def joined_task_def handle_message_def codec0)
  ultimately show ?thesis by (simp add: converse_rtranclp_into_rtranclp)
qed

lemma joined_reachable: "master_steps decode0 encode0 (master_init 2) joined_master"
proof -
  let ?M = "\<lparr>tcp_storage = storage_insert ''u1'' ''10.0.0.1'' (tcp_storage (master_init 2)),
    tasks = (tasks (master_init 2))(''u1'' \<mapsto> joined_task ''10.0.0.1'')\<rparr>"
  have "master_steps decode0 encode0 (master_init 2) ?M" by (rule join_step) (simp add: master_init_def)
  moreover have "master_steps decode0 encode0 ?M joined_master"
    using join_step[of ?M "''u2''" "''10.0.0.2''"] by (simp add: joined_master_def table0_def master_init_def fun_upd_twist)
  ultimately show ?thesis by (rule rtranclp_trans)
qed

lemma reports0:
  assumes w: "world_rel w {''10.0.0.1'', ''10.0.0.2''} cats1 st F"
  shows "\<exists>M. master_steps decode0 encode0 (joined_master\<lparr>tcp_storage := t\<rparr>) M \<and>
    all_reported decode0 (codec_pack lib0) w {''10.0.0.1'', ''10.0.0.2''} M"
proof -
  let ?M0 = "joined_master\<lparr>tcp_storage := t\<rparr>"
  let ?M1 = "read_one_frame decode0 ''u1'' (joined_task ''10.0.0.1'') (report0 ''10.0.0.1'') [] ?M0"
  let ?M2 = "read_one_frame decode0 ''u2'' (joined_task ''10.0.0.2'') (report0 ''10.0.0.2'') [] ?M1"
  have "master_steps decode0 encode0 ?M0 ?M1"
    by (rule frame_arrives[OF _ _ _ codec0(4)]) (simp_all add: joined_master_def joined_task_def accept_task_def)
  moreover have "master_steps decode0 encode0 ?M1 ?M2"
    by (rule frame_arrives[OF _ _ _ codec0(4)])
      (simp_all add: joined_master_def joined_task_def accept_task_def read_one_frame_def set_task_def)
  ultimately have steps: "master_steps decode0 encode0 ?M0 ?M2" by (rule rtranclp_trans)
  have last: "last_report decode0 (codec_pack lib0) cat [join0, codec_pack lib0 (health_of cat)]" for cat
    unfolding last_report_def by (rule exI[of _ "[]"]) simp
  have node: "\<exists>s. nodes w a = Some s \<and> catalogue_of s = cats1 a" if "a \<in> {''10.0.0.1'', ''10.0.0.2''}" for a
    using w that catalogue_of_node unfolding world_rel_def by metis
  have task: "reading k \<and> (\<exists>a \<in> {''10.0.0.1'', ''10.0.0.2''}. task_addr k = a \<and> frames_read k = [join0, report0 a])"
    if "tasks ?M2 cid = Some k" for cid k
    using that by (auto simp: read_one_frame_def set_task_def joined_master_def joined_task_def accept_task_def
        split: if_splits)
  have "\<exists>cid k. tasks ?M2 cid = Some k \<and> reading k \<and> task_addr k = a" if "a \<in> {''10.0.0.1'', ''10.0.0.2''}" for a
    using that by (intro exI[of _ "if a = ''10.0.0.1'' then ''u1'' else ''u2''"])
      (auto simp: read_one_frame_def set_task_def joined_master_def joined_task_def accept_task_def)
  moreover have "task_addr k \<in> {''10.0.0.1'', ''10.0.0.2''} \<and> (\<exists>s. nodes w (task_addr k) = Some s \<and>
      last_report decode0 (codec_pack lib0) (catalogue_of s) (frames_read k))" if "tasks ?M2 cid = Some k" for cid k
    using task[OF that] node last by metis
  ultimately have "all_reported decode0 (codec_pack lib0) w {''10.0.0.1'', ''10.0.0.2''} ?M2"
    unfolding all_reported_def by blast
  with steps show ?thesis by blast
qed

lemma joined_table: "tcp_storage joined_master = table0"
  by (simp add: joined_master_def)

text \<open>A state of the master in which a node has joined and reported.\<close>

lemma reported_state0:
  obtains M where "master_steps (codec_decode lib0) (codec_encode lib0) (master_init 1) M"
    "''10.0.0.1'' \<in> set (get_location ''a'' 1 (tcp_storage M))"
proof -
  let ?cat = "[(''a'', [1])]" and ?pk = "codec_pack lib0"
  have len: "length (?pk msg) = codec_size lib0 msg" for msg
    using codec_packs[OF lib0_ok] by (simp add: packs_to_size_def)
  have dec: "decodes (codec_decode lib0) ?pk MsgJoin" "decodes (codec_decode lib0) ?pk (health_of ?cat)"
    using codec_decode_pack[OF lib0_ok] by (simp_all add: decodes_def len sizes0) (simp_all add: health_of_def to_mapping_def)
  let ?bytes = "concat (map frame [?pk MsgJoin, ?pk (health_of ?cat)])"
  have frames: "fst (read_frames ?bytes) = [?pk MsgJoin, ?pk (health_of ?cat)]"
    using read_frames_stream[of "[?pk MsgJoin, ?pk (health_of ?cat)]" "[]"] dec by (auto simp: decodes_def read_frame_def)
  obtain M k where M: "master_steps (codec_decode lib0) (codec_encode lib0) (master_init 1) M" "tasks M ''u1'' = Some k"
      "reading k" "task_addr k = ''10.0.0.1''" "frames_read k = fst (read_frames ?bytes)" "only_from M ''10.0.0.1'' ''u1''"
    using bytes_can_be_read[of "codec_decode lib0" "codec_encode lib0" 1 "''u1''" "''10.0.0.1''" ?bytes] by blast
  have "fold (message_entries (codec_decode lib0) ''u1'' (task_addr k)) (frames_read k) []
      = [\<lparr>connection_id = ''u1'', ip = task_addr k, files_to_chunks = map to_mapping ?cat\<rparr>]"
    using joined_entries[OF dec(1), of "[?cat]" "''u1''" "task_addr k"] dec(2) unfolding M(5) frames by simp
  then have "task_addr k \<in> set (get_location ''a'' 1 (tcp_storage M))"
    using located_by_frames[OF M(1-3), of "''a''" 1] M(4,6) by (simp add: reports_def to_mapping_def)
  then show thesis using M(1,4) that by simp
qed

end
