(* ===== verification/Http_Daemon.thy ===== *)
theory Http_Daemon
  imports Node_Store Failures
begin

text \<open>
  The HTTP server's daemon: one thread of libmicrohttpd makes the calls of all open connections,
  one at a time but in any order. What a call does is httpServer/httpMain.c; which call comes
  next, and when a client goes away, is open.
\<close>

section \<open>Connections and their calls\<close>

text \<open>
  An open connection: its request, its \<open>con_cls\<close>, the pieces of the body handed over so far,
  and the answer once the last call was made.
\<close>

record http_conn =
  h_headers :: "string \<Rightarrow> string option"
  h_url :: string
  h_method :: string
  h_cls :: ptr
  h_body :: "byte list list"
  h_answer :: "response option option"

text \<open>What the last call of a request amounts to; the bytes sent are those a \<open>GET\<close> is answered with.\<close>

datatype event =
    Stored string int "byte list"
  | NoBody int
  | Deleted string
  | Fetched string int "byte list option"

definition events_of :: "http_conn \<Rightarrow> fsys \<Rightarrow> response option \<Rightarrow> event list" where
  "events_of k t resp =
     (case (h_headers k ''X-Filename'', h_headers k ''X-Chunk-ID'') of
        (Some f, Some str) \<Rightarrow>
          if h_method k = ''POST'' \<and> h_url k = ''/new-chunk'' then
            [if concat (h_body k) = [] then NoBody (atoi_value str) else Stored f (atoi_value str) (concat (h_body k))]
          else if h_method k = ''GET'' \<and> h_url k = ''/chunk'' then [Fetched f (atoi_value str) (body_bytes t resp)]
          else if h_method k = ''DELETE'' \<and> h_url k = ''/remove-file'' then [Deleted f]
          else []
      | (Some f, None) \<Rightarrow> if h_method k = ''DELETE'' \<and> h_url k = ''/remove-file'' then [Deleted f] else []
      | _ \<Rightarrow> [])"

text \<open>The node with its open connections and the events so far, or the error the program ended with.\<close>

datatype 'n daemon = Up 'n "nat \<Rightarrow> http_conn option" "event list" | Down c_error "event list"

definition conn_mhd :: "mhd \<Rightarrow> http_conn \<Rightarrow> mhd" where
  "conn_mhd m k = m\<lparr>connection_value := h_headers k\<rparr>"

definition conn_call :: "mhd \<Rightarrow> nat \<Rightarrow> http_conn \<Rightarrow> byte list \<Rightarrow> ('h, handled) nm" where
  "conn_call m depth k upload_data =
     answer_to_connection (conn_mhd m k) depth (h_url k) (h_method k) upload_data (h_cls k)"

text \<open>A call before the last one of a request, and the notification at its end.\<close>

inductive call_step :: "mhd \<Rightarrow> nat \<Rightarrow> 'h storage_node_scheme daemon \<Rightarrow> 'h storage_node_scheme daemon \<Rightarrow> bool"
  for m depth where
  opened: "conns n = None \<Longrightarrow> h_cls k = NULL \<Longrightarrow> h_body k = [] \<Longrightarrow> h_answer k = None \<Longrightarrow>
    conn_call m depth k [] s = Inr (h, s') \<Longrightarrow> mhd_yes h \<Longrightarrow>
    call_step m depth (Up s conns es) (Up s' (conns(n \<mapsto> k\<lparr>h_cls := con_cls h\<rparr>)) es)"
| not_opened: "h_cls k = NULL \<Longrightarrow> conn_call m depth k [] s = Inr (h, s') \<Longrightarrow> \<not> mhd_yes h \<Longrightarrow>
    request_completed (con_cls h) s' = Inr (p, s'') \<Longrightarrow>
    call_step m depth (Up s conns es) (Up s'' conns es)"
| piece: "conns n = Some k \<Longrightarrow> h_answer k = None \<Longrightarrow> h_method k = ''POST'' \<Longrightarrow> bytes \<noteq> [] \<Longrightarrow>
    conn_call m depth k bytes s = Inr (h, s') \<Longrightarrow> mhd_yes h \<Longrightarrow>
    call_step m depth (Up s conns es) (Up s' (conns(n \<mapsto> k\<lparr>h_cls := con_cls h, h_body := h_body k @ [bytes]\<rparr>)) es)"
| piece_refused: "conns n = Some k \<Longrightarrow> h_answer k = None \<Longrightarrow> h_method k = ''POST'' \<Longrightarrow> bytes \<noteq> [] \<Longrightarrow>
    conn_call m depth k bytes s = Inr (h, s') \<Longrightarrow> \<not> mhd_yes h \<Longrightarrow>
    request_completed (con_cls h) s' = Inr (p, s'') \<Longrightarrow>
    call_step m depth (Up s conns es) (Up s'' (conns(n := None)) es)"
| closed: "conns n = Some k \<Longrightarrow> request_completed (h_cls k) s = Inr (p, s') \<Longrightarrow>
    call_step m depth (Up s conns es) (Up s' (conns(n := None)) es)"
| open_crash: "h_cls k = NULL \<Longrightarrow> conn_call m depth k [] s = Inl e \<Longrightarrow> call_step m depth (Up s conns es) (Down e es)"
| piece_crash: "conns n = Some k \<Longrightarrow> h_answer k = None \<Longrightarrow> h_method k = ''POST'' \<Longrightarrow> bytes \<noteq> [] \<Longrightarrow>
    conn_call m depth k bytes s = Inl e \<Longrightarrow> call_step m depth (Up s conns es) (Down e es)"
| close_crash: "conns n = Some k \<Longrightarrow> request_completed (h_cls k) s = Inl e \<Longrightarrow>
    call_step m depth (Up s conns es) (Down e es)"

text \<open>The last call of a request, with what it amounts to.\<close>

inductive answer_step :: "mhd \<Rightarrow> nat \<Rightarrow> 'h storage_node_scheme daemon \<Rightarrow> 'h storage_node_scheme daemon \<Rightarrow> bool"
  for m depth where
  answered: "conns n = Some k \<Longrightarrow> h_answer k = None \<Longrightarrow> conn_call m depth k [] s = Inr (h, s') \<Longrightarrow>
    answer_step m depth (Up s conns es)
      (Up s' (conns(n \<mapsto> k\<lparr>h_cls := con_cls h, h_answer := Some (queued h)\<rparr>)) (es @ events_of k (fs s') (queued h)))"
| answer_crash: "conns n = Some k \<Longrightarrow> h_answer k = None \<Longrightarrow> conn_call m depth k [] s = Inl e \<Longrightarrow>
    answer_step m depth (Up s conns es) (Down e (es @ events_of k (fs s) None))"

inductive daemon_step :: "mhd \<Rightarrow> nat \<Rightarrow> 'h storage_node_scheme daemon \<Rightarrow> 'h storage_node_scheme daemon \<Rightarrow> bool"
  for m depth where
  call: "call_step m depth D D' \<Longrightarrow> daemon_step m depth D D'"
| answer: "answer_step m depth D D' \<Longrightarrow> daemon_step m depth D D'"

abbreviation daemon_steps where
  "daemon_steps m depth \<equiv> (daemon_step m depth)\<^sup>*\<^sup>*"

fun events :: "'n daemon \<Rightarrow> event list" where
  "events (Up s conns es) = es"
| "events (Down e es) = es"

section \<open>What an event does to the store\<close>

fun event_spec :: "event \<Rightarrow> catalogue \<times> store \<Rightarrow> catalogue \<times> store" where
  "event_spec (Stored f c bs) a = spec_upload f c bs a"
| "event_spec (Deleted f) a = spec_delete f a"
| "event_spec _ a = a"

fun event_pre :: "event \<Rightarrow> catalogue \<times> store \<Rightarrow> bool" where
  "event_pre (Stored f c bs) (cat, st) \<longleftrightarrow> cat_bounded cat \<and> simple_name f \<and> in_int c \<and> serial f cat"
| "event_pre (NoBody c) a \<longleftrightarrow> in_int c"
| "event_pre (Deleted f) a \<longleftrightarrow> simple_name f"
| "event_pre (Fetched f c bs) a \<longleftrightarrow> in_int c"

text \<open>What was sent is what the store has.\<close>

fun event_ok :: "event \<Rightarrow> catalogue \<times> store \<Rightarrow> bool" where
  "event_ok (Fetched f c bs) (cat, st) \<longleftrightarrow> bs = st (f, c)"
| "event_ok _ a \<longleftrightarrow> True"

lemma admissible_append:
  "admissible pre spec (xs @ ys) a \<longleftrightarrow> admissible pre spec xs a \<and> admissible pre spec ys (fold spec xs a)"
  by (induction xs arbitrary: a) auto

lemma events_pre_any:
  "admissible event_pre event_spec (events_of k t r) a = admissible event_pre event_spec (events_of k t' r') a"
  by (cases a; cases "h_headers k ''X-Filename''"; cases "h_headers k ''X-Chunk-ID''") (simp_all add: events_of_def)

section \<open>The last call of a request\<close>

lemma post_last:
  assumes srv: "serving s rs cat con d bs F" and bs: "bs \<noteq> []" and free: "\<not> locked s" and mem: "no_oom s"
    and disk: "disk_rel (fs s) cat st" and bound: "cat_bounded cat" and name: "simple_name f" and ser: "serial f cat"
    and m: "chunk_headers m f c"
  obtains rs' s' cat' st' h where "spec_upload f c bs (cat, st) = (cat', st')"
    "answer_to_connection m depth ''/new-chunk'' ''POST'' [] con s = Inr (h, s')" "con_cls h = con"
    "serving s' rs' cat' con d bs F" "hframe (conn_blocks con d \<union> F) (s\<lparr>fs := fs s'\<rparr>) s'" "disk_rel (fs s') cat' st'"
proof -
  note sD = servingD[OF srv]
  have c: "in_int c" using m by (simp add: chunk_headers_def)
  have d: "d \<noteq> NULL" "mem s d = Some (ByteB (map Some bs))" using bs sD(5,6) by blast+
  have r: "read_conn con s = Inr (\<lparr>conn_data = d, conn_size = length bs\<rparr>, s)" using sD(2,4) by (rule read_conn_ok)
  obtain rs' t cat' st' where up: "spec_upload f c bs (cat, st) = (cat', st')"
    and save: "saveChunkToFile (Some f) d (length bs) c s = Inr (True, t)"
    and rel: "storage_rel t rs' cat' (conn_blocks con d \<union> F)"
    and fr: "hframe (conn_blocks con d \<union> F) (s\<lparr>fs := fs t\<rparr>) t" and disk': "disk_rel (fs t) cat' st'"
  proof (cases "st (f, c)")
    case None
    have has: "(f \<in> cat_names cat) = directoryHasFiles (dir_path f) (fs s)" using disk_has_files[OF disk name] by simp
    note new = disk_chunk_free[OF disk name c None, unfolded chunk_free_def]
    obtain rs' t where save: "saveChunkToFile (Some f) d (length bs) c s = Inr (True, t)"
      and rel: "storage_rel t rs' (cat_insert f c (f \<in> cat_names cat) cat) (conn_blocks con d \<union> F)"
      and fr: "hframe (conn_blocks con d \<union> F) (s\<lparr>fs := fs t\<rparr>) t" and env: "cwd (fs t) = cwd (fs s)" "fs_quiet (fs t)"
      and look: "\<And>k. fs_lookup (fs t) k = saved_lookup (fs s) f c bs k" and tree: "tree_ok (fs s) \<Longrightarrow> tree_ok (fs t)"
      by (rule saveChunkToFile_new[OF sD(1) free mem bound has _ _ _ _ _ _ d bs])
        (use new serial_last[OF ser] in auto)
    have "disk_rel (fs t) (cat_insert f c (f \<in> cat_names cat) cat) (st((f, c) \<mapsto> bs))"
      by (rule disk_rel_saved[OF disk name c ser None env tree[OF disk_relD(2)[OF disk]] look])
    moreover have "spec_upload f c bs (cat, st) = (cat_insert f c (f \<in> cat_names cat) cat, st((f, c) \<mapsto> bs))"
      using None by (simp add: spec_upload_def)
    ultimately show thesis using save rel fr by (intro that)
  next
    case (Some old)
    then have "cat_has f c cat" using disk_relD(8)[OF disk, of f c] by simp
    then have "at_dir (fs s) (dir_words f)" by (rule disk_at_dir(1)[OF disk cat_has_name])
    then have "\<forall>n < length (chunk_words f c). is_dir (fs s) (cwd (fs s) @ take n (chunk_words f c))"
      by (simp add: at_dir_def chunk_words_def)
    moreover have "fs_lookup (fs s) (cwd (fs s) @ chunk_words f c) \<noteq> None"
      using disk_chunk[OF disk name, of c] Some by (simp add: chunk_loc_def)
    ultimately have "file_exists (chunk_path f c) (fs s)"
      using proper_chunk_words[OF simple_words(3)[OF name], of c] chunk_path_join[OF simple_words(4)[OF name c]]
      by (simp add: file_exists_join[OF disk_relD(1)[OF disk]])
    then have "saveChunkToFile (Some f) d (length bs) c s = Inr (True, s)"
      using d(1) bs by (intro saveChunkToFile_exists) simp_all
    moreover have "spec_upload f c bs (cat, st) = (cat, st)" using Some by (simp add: spec_upload_def)
    ultimately show thesis using sD(1) disk by (intro that[OF _ _ _ hframe_fs_same])
  qed
  have len: "length bs > 0" using bs by simp
  have oom: "heap_ok t" "\<not> oom t (brk t)" using rel mem fr by (simp_all add: storage_rel_def hframe_def no_oom_def)
  have "answer_to_connection m depth ''/new-chunk'' ''POST'' [] con s
    = Inr (\<lparr>mhd_yes = queue_response m http_ok, con_cls = con, upload_left = 0,
        queued = page_reply m http_ok (snprintf 200 (new_chunk_json c (length bs)))\<rparr>, t\<lparr>brk := Suc (brk t)\<rparr>)"
    unfolding answer_post_save[OF m sD(2) r d(1) len] by (rule saved_reply[OF save r oom])
  moreover have "serving (t\<lparr>brk := Suc (brk t)\<rparr>) rs' cat' con d bs F"
    using serving_frame[OF srv storage_rel_brk[OF rel]] fr by (simp add: hframe_def)
  moreover have "hframe (conn_blocks con d \<union> F) (s\<lparr>fs := fs (t\<lparr>brk := Suc (brk t)\<rparr>)\<rparr>) (t\<lparr>brk := Suc (brk t)\<rparr>)"
    using fr by (simp add: hframe_def)
  ultimately show thesis using up disk' by (intro that) (assumption | simp)+
qed

lemma delete_last:
  assumes srv: "serving s rs cat con d bs F" and free: "\<not> locked s"
    and disk: "disk_rel (fs s) cat st" and name: "simple_name f" and depth: "2 \<le> depth"
    and m: "connection_value m ''X-Filename'' = Some f"
  obtains rs' s' cat' st' h where "spec_delete f (cat, st) = (cat', st')"
    "answer_to_connection m depth ''/remove-file'' ''DELETE'' [] con s = Inr (h, s')" "con_cls h = con"
    "serving s' rs' cat' con d bs F" "hframe (conn_blocks con d \<union> F) (s\<lparr>fs := fs s'\<rparr>) s'" "disk_rel (fs s') cat' st'"
proof -
  note sD = servingD[OF srv]
  show thesis
  proof (cases "f \<in> cat_names cat")
    case True
    have len: "length f \<le> 506" using name by (simp add: simple_name_def)
    have gone: "remove_directory depth (spare_fds (fs s)) (snprintf 512 (''data/'' @ f)) (fs s) = Inr (0, prune (cwd (fs s) @ dir_words f) (fs s))"
      using remove_directory_run[OF disk_relD(2)[OF disk] disk_relD(1)[OF disk] disk_at_dir(1)[OF disk True]
          disk_room(1)[OF disk name] disk_room(2)[OF disk name depth]] dir_path_words[OF len] by simp
    obtain rs' s' where del: "delete_file depth f s = Inr (True, s')"
      and rel: "storage_rel s' rs' (cat_remove f cat) (conn_blocks con d \<union> F)"
      and fs: "fs s' = prune (cwd (fs s) @ dir_words f) (fs s)"
      and fr: "hframe (conn_blocks con d \<union> F) (s\<lparr>fs := fs s'\<rparr>) s'"
      by (rule delete_file_run[OF sD(1) free gone])
    have "answer_to_connection m depth ''/remove-file'' ''DELETE'' [] con s
      = Inr (\<lparr>mhd_yes = queue_response m http_ok, con_cls = con, upload_left = 0,
            queued = page_reply m http_ok ''{\"message\":\"successfully deleted\"}''\<rparr>, s')"
      using sD(2) m del by (simp add: answer_to_connection_def answer_delete_def cbind_def send_literal)
    moreover have "serving s' rs' (cat_remove f cat) con d bs F"
      using serving_frame[OF srv rel] fr by (simp add: hframe_def)
    moreover have "spec_delete f (cat, st) = (cat_remove f cat, \<lambda>k. if fst k = f then None else st k)"
      by (simp add: spec_delete_def)
    ultimately show thesis using fr disk_rel_deleted[OF disk name] unfolding fs[symmetric]
      by (intro that) (assumption | simp)+
  next
    case False
    obtain n where n: "depth = Suc n" using depth by (cases depth) auto
    have "delete_file depth f s = Inr (False, s)"
      unfolding n using disk_no_dir[OF disk name False] by (intro delete_file_missing) simp
    then have "answer_to_connection m depth ''/remove-file'' ''DELETE'' [] con s
      = Inr (\<lparr>mhd_yes = queue_response m http_internal_error, con_cls = con, upload_left = 0,
            queued = page_reply m http_internal_error ''{\"error\":\"404 Not Found\"}''\<rparr>, s)"
      using sD(2) m by (simp add: answer_to_connection_def answer_delete_def cbind_def send_literal)
    moreover have "st k = None" if "fst k = f" for k
      using that False disk_relD(8)[OF disk, of f "snd k"] cat_has_name[of f "snd k" cat] by (cases k) auto
    then have "(\<lambda>k. if fst k = f then None else st k) = st" by auto
    then have "spec_delete f (cat, st) = (cat, st)" using False by (simp add: spec_delete_def cat_remove_absent)
    ultimately show thesis using srv disk hframe_fs_same by (intro that) (assumption | simp)+
  qed
qed

lemma get_last:
  assumes srv: "serving s rs cat con d bs F" and free: "\<not> locked s"
    and disk: "disk_rel (fs s) cat st" and m: "chunk_headers m f c" "mhd_serves m"
  obtains h where "answer_to_connection m depth ''/chunk'' ''GET'' [] con s = Inr (h, s)" "con_cls h = con"
    "body_bytes (fs s) (queued h) = st (f, c)"
proof -
  note sD = servingD[OF srv]
  obtain yes where ans: "answer_to_connection m depth ''/chunk'' ''GET'' [] con s
    = Inr (\<lparr>mhd_yes = yes, con_cls = con, upload_left = 0, queued = get_result m f c cat (fs s)\<rparr>, s)"
    by (rule answer_get_run[OF sD(1) free m(1) sD(2)])
  have "body_bytes (fs s) (get_result m f c cat (fs s)) = st (f, c)"
  proof (cases "st (f, c)")
    case None
    then show ?thesis using disk_get_result(1)[OF disk, of f c m] by (simp add: page_reply_def body_bytes_def)
  next
    case (Some b)
    then have "cat_has f c cat" using disk_relD(8)[OF disk, of f c] by simp
    then have "simple_name f" by (rule disk_at_dir(2)[OF disk cat_has_name])
    then have "fs_lookup (fs s) (chunk_loc (fs s) f c) = Some (FReg b)" using disk_chunk[OF disk, of f c] Some by simp
    then show ?thesis using disk_get_result(2)[OF disk Some, of m] m(2) Some by (simp add: mhd_serves_def body_bytes_def)
  qed
  with ans show thesis by (intro that) (assumption | simp)+
qed

text \<open>Every other request is refused, and nothing changes.\<close>

lemma other_last:
  assumes srv: "serving s rs cat (h_cls k) d (concat (h_body k)) F"
    and none: "events_of k t r = [] \<or> (\<exists>c. events_of k t r = [NoBody c] \<and> in_int c)"
  obtains h where "conn_call m depth k [] s = Inr (h, s)" "con_cls h = h_cls k"
proof -
  note sD = servingD[OF srv]
  note read = read_conn_ok[OF sD(2,4)]
  have "\<exists>code text. conn_call m depth k [] s = send_reply (conn_mhd m k) (h_cls k) 0 (literal_reply text code) s"
  proof (cases "h_method k = ''POST''")
    case True
    then show ?thesis using none sD(2,5) read
      by (auto simp: conn_call_def conn_mhd_def events_of_def answer_to_connection_def answer_post_def cbind_def atoi_def
          split: if_splits option.splits)
  next
    case False
    then show ?thesis using none sD(2)
      by (auto simp: conn_call_def conn_mhd_def events_of_def answer_to_connection_def answer_get_def answer_delete_def
          cbind_def split: if_splits option.splits)
  qed
  then show thesis using that by (auto simp: send_literal)
qed

lemma last_call:
  assumes srv: "serving s rs cat (h_cls k) d (concat (h_body k)) F" and free: "\<not> locked s" and mem: "no_oom s"
    and disk: "disk_rel (fs s) cat st" and m: "mhd_serves m" "2 \<le> depth"
    and pre: "admissible event_pre event_spec (events_of k t r) (cat, st)"
  obtains rs' s' cat' st' h where "conn_call m depth k [] s = Inr (h, s')" "con_cls h = h_cls k"
    "serving s' rs' cat' (h_cls k) d (concat (h_body k)) F"
    "hframe (conn_blocks (h_cls k) d \<union> F) (s\<lparr>fs := fs s'\<rparr>) s'" "disk_rel (fs s') cat' st'"
    "fold event_spec (events_of k (fs s') (queued h)) (cat, st) = (cat', st')"
    "admissible event_ok event_spec (events_of k (fs s') (queued h)) (cat, st)"
proof -
  let ?m = "conn_mhd m k"
  have hd: "connection_value ?m = h_headers k" "mhd_serves ?m" using m(1) by (simp_all add: conn_mhd_def mhd_serves_def)
  consider (post) f str where "h_headers k ''X-Filename'' = Some f" "h_headers k ''X-Chunk-ID'' = Some str"
      "h_method k = ''POST''" "h_url k = ''/new-chunk''" "concat (h_body k) \<noteq> []"
      "\<And>t r. events_of k t r = [Stored f (atoi_value str) (concat (h_body k))]"
    | (get) f str where "h_headers k ''X-Filename'' = Some f" "h_headers k ''X-Chunk-ID'' = Some str"
      "h_method k = ''GET''" "h_url k = ''/chunk''" "\<And>t r. events_of k t r = [Fetched f (atoi_value str) (body_bytes t r)]"
    | (del) f where "h_headers k ''X-Filename'' = Some f" "h_method k = ''DELETE''" "h_url k = ''/remove-file''"
      "\<And>t r. events_of k t r = [Deleted f]"
    | (other) es where "es = [] \<or> (\<exists>c. es = [NoBody c])" "\<And>t r. events_of k t r = es"
  proof (cases "h_headers k ''X-Filename''")
    case None
    then show thesis by (intro other[of "[]"]) (simp_all add: events_of_def)
  next
    case (Some f)
    note f = Some
    show thesis
    proof (cases "h_headers k ''X-Chunk-ID''")
      case None
      then show thesis using f del[OF f] other[of "[]"]
        by (cases "h_method k = ''DELETE'' \<and> h_url k = ''/remove-file''") (auto simp: events_of_def)
    next
      case (Some str)
      note ev = events_of_def f Some option.case prod.case
      consider "h_method k = ''POST'' \<and> h_url k = ''/new-chunk''" | "h_method k = ''GET'' \<and> h_url k = ''/chunk''"
        | "h_method k = ''DELETE'' \<and> h_url k = ''/remove-file''"
        | "\<not> (h_method k = ''POST'' \<and> h_url k = ''/new-chunk'')" "\<not> (h_method k = ''GET'' \<and> h_url k = ''/chunk'')"
          "\<not> (h_method k = ''DELETE'' \<and> h_url k = ''/remove-file'')" by blast
      then show thesis
      proof cases
        case 1
        then show thesis using post[OF f Some] other[of "[NoBody (atoi_value str)]"]
          by (cases "concat (h_body k) = []") (simp_all add: ev)
      next
        case 2
        then show thesis by (intro get[OF f Some]) (simp_all add: ev)
      next
        case 3
        then show thesis by (intro del[OF f]) (simp_all add: ev)
      next
        case 4
        then show thesis by (intro other[of "[]"]) (simp_all add: ev)
      qed
    qed
  qed
  then show thesis
  proof cases
    case post
    then have "cat_bounded cat" "simple_name f" "serial f cat" "chunk_headers ?m f (atoi_value str)"
      using pre by (simp_all add: chunk_headers_def hd)
    then obtain rs' s' cat' st' h where run: "spec_upload f (atoi_value str) (concat (h_body k)) (cat, st) = (cat', st')"
      "answer_to_connection ?m depth ''/new-chunk'' ''POST'' [] (h_cls k) s = Inr (h, s')" "con_cls h = h_cls k"
      "serving s' rs' cat' (h_cls k) d (concat (h_body k)) F"
      "hframe (conn_blocks (h_cls k) d \<union> F) (s\<lparr>fs := fs s'\<rparr>) s'" "disk_rel (fs s') cat' st'"
      by (rule post_last[OF srv post(5) free mem disk])
    show thesis by (rule that[OF _ run(3-6)]) (simp_all add: conn_call_def post(3,4,6) run(1,2))
  next
    case get
    then have "chunk_headers ?m f (atoi_value str)" using pre by (simp add: chunk_headers_def hd)
    from get_last[OF srv free disk this hd(2), of depth] obtain h where
      h: "conn_call m depth k [] s = Inr (h, s)" "con_cls h = h_cls k" "body_bytes (fs s) (queued h) = st (f, atoi_value str)"
      using get(3,4) by (auto simp: conn_call_def)
    show thesis by (rule that[OF h(1,2) srv hframe_fs_same disk]) (simp_all add: get(5) h(3))
  next
    case del
    then have del': "simple_name f" "connection_value ?m ''X-Filename'' = Some f" using pre by (simp_all add: hd)
    obtain rs' s' cat' st' h where run: "spec_delete f (cat, st) = (cat', st')"
      "answer_to_connection ?m depth ''/remove-file'' ''DELETE'' [] (h_cls k) s = Inr (h, s')" "con_cls h = h_cls k"
      "serving s' rs' cat' (h_cls k) d (concat (h_body k)) F"
      "hframe (conn_blocks (h_cls k) d \<union> F) (s\<lparr>fs := fs s'\<rparr>) s'" "disk_rel (fs s') cat' st'"
      by (rule delete_last[OF srv free disk del'(1) m(2) del'(2)])
    show thesis by (rule that[OF _ run(3-6)]) (simp_all add: conn_call_def del(2-4) run(1,2))
  next
    case other
    then have "events_of k t r = [] \<or> (\<exists>c. events_of k t r = [NoBody c] \<and> in_int c)" using pre by auto
    from other_last[OF srv this, of m depth] obtain h where h: "conn_call m depth k [] s = Inr (h, s)" "con_cls h = h_cls k"
      by blast
    show thesis by (rule that[OF h srv hframe_fs_same disk]) (use other in auto)
  qed
qed

section \<open>Many connections\<close>

text \<open>The blocks of the other connections, and of whoever else; \<open>B\<close> is where each connection's body is.\<close>

definition others :: "(nat \<Rightarrow> http_conn option) \<Rightarrow> (nat \<Rightarrow> ptr) \<Rightarrow> nat \<Rightarrow> ptr set \<Rightarrow> ptr set" where
  "others conns B n F = F \<union> (\<Union>j \<in> dom conns - {n}. conn_blocks (h_cls (the (conns j))) (B j))"

definition all_blocks :: "(nat \<Rightarrow> http_conn option) \<Rightarrow> (nat \<Rightarrow> ptr) \<Rightarrow> ptr set \<Rightarrow> ptr set" where
  "all_blocks conns B F = F \<union> (\<Union>j \<in> dom conns. conn_blocks (h_cls (the (conns j))) (B j))"

definition conns_ok :: "(ptr \<Rightarrow> block option) \<Rightarrow> (nat \<Rightarrow> http_conn option) \<Rightarrow> (nat \<Rightarrow> ptr) \<Rightarrow> ptr set \<Rightarrow> bool" where
  "conns_ok m conns B F \<longleftrightarrow> (\<forall>n k. conns n = Some k \<longrightarrow>
     conn_ok m (h_cls k) (B n) (concat (h_body k)) \<and> conn_blocks (h_cls k) (B n) \<inter> others conns B n F = {})"

lemma all_blocks_split:
  "conns n = Some k \<Longrightarrow> all_blocks conns B F = conn_blocks (h_cls k) (B n) \<union> others conns B n F"
  "conns n = None \<Longrightarrow> all_blocks conns B F = others conns B n F"
proof -
  assume k: "conns n = Some k"
  then have "dom conns = insert n (dom conns - {n})" by auto
  then have "(\<Union>j \<in> dom conns. conn_blocks (h_cls (the (conns j))) (B j))
      = conn_blocks (h_cls k) (B n) \<union> (\<Union>j \<in> dom conns - {n}. conn_blocks (h_cls (the (conns j))) (B j))"
    using k by (metis (no_types, lifting) UN_insert option.sel)
  then show "all_blocks conns B F = conn_blocks (h_cls k) (B n) \<union> others conns B n F"
    by (auto simp: all_blocks_def others_def)
next
  assume "conns n = None"
  then have "dom conns - {n} = dom conns" by auto
  then show "all_blocks conns B F = others conns B n F" by (simp add: all_blocks_def others_def)
qed

lemma other_sub: "conns j = Some k \<Longrightarrow> j \<noteq> n \<Longrightarrow> conn_blocks (h_cls k) (B j) \<subseteq> others conns B n F"
  unfolding others_def by force

lemma others_set [simp]: "others (conns(n \<mapsto> k)) (B(n := d)) n F = others conns B n F"
  "others (conns(n := None)) B n F = others conns B n F"
  by (auto simp: others_def split: if_splits)

lemma others_sub:
  "others (conns(n \<mapsto> k)) (B(n := d)) j F \<subseteq> conn_blocks (h_cls k) d \<union> others conns B j F"
  "others (conns(n := None)) B j F \<subseteq> others conns B j F"
  by (auto simp: others_def split: if_splits)

lemma conn_ok_cong: "(\<And>p. p \<in> conn_blocks con d \<Longrightarrow> m' p = m p) \<Longrightarrow> conn_ok m' con d bs = conn_ok m con d bs"
  by (auto simp: conn_ok_def conn_blocks_def split: if_splits)

lemma open_serving:
  assumes "conns_ok (mem s) conns B F" "storage_rel s rs cat (all_blocks conns B F)" "conns n = Some k"
  shows "serving s rs cat (h_cls k) (B n) (concat (h_body k)) (others conns B n F)"
  using assms unfolding serving_def conns_ok_def all_blocks_split(1)[of conns, OF assms(3)] by blast

text \<open>A call for one connection leaves the others as they are.\<close>

lemma conns_set:
  assumes ok: "conns_ok m conns B F" and same: "\<And>p. p \<in> others conns B n F \<Longrightarrow> m' p = m p"
    and own: "conn_ok m' (h_cls k) d (concat (h_body k))" "conn_blocks (h_cls k) d \<inter> others conns B n F = {}"
  shows "conns_ok m' (conns(n \<mapsto> k)) (B(n := d)) F"
  unfolding conns_ok_def
proof (intro allI impI)
  fix j k'
  assume j: "(conns(n \<mapsto> k)) j = Some k'"
  show "conn_ok m' (h_cls k') ((B(n := d)) j) (concat (h_body k')) \<and>
      conn_blocks (h_cls k') ((B(n := d)) j) \<inter> others (conns(n \<mapsto> k)) (B(n := d)) j F = {}"
  proof (cases "j = n")
    case True
    then show ?thesis using j own by simp
  next
    case False
    then have k': "conns j = Some k'" using j by simp
    have sub: "conn_blocks (h_cls k') (B j) \<subseteq> others conns B n F" using k' False by (rule other_sub)
    have old: "conn_ok m (h_cls k') (B j) (concat (h_body k'))" "conn_blocks (h_cls k') (B j) \<inter> others conns B j F = {}"
      using ok k' by (simp_all add: conns_ok_def)
    have "conn_ok m' (h_cls k') (B j) (concat (h_body k'))"
      using conn_ok_cong[of "h_cls k'" "B j" m' m] same sub old(1) by blast
    moreover have "conn_blocks (h_cls k') (B j) \<inter> others (conns(n \<mapsto> k)) (B(n := d)) j F = {}"
      using others_sub(1)[of conns n k B d j F] old(2) own(2) sub by blast
    ultimately show ?thesis using False by simp
  qed
qed

lemma conns_drop:
  assumes ok: "conns_ok m conns B F" and same: "\<And>p. p \<in> others conns B n F \<Longrightarrow> m' p = m p"
  shows "conns_ok m' (conns(n := None)) B F"
  unfolding conns_ok_def
proof (intro allI impI)
  fix j k'
  assume j: "(conns(n := None)) j = Some k'"
  then have k': "conns j = Some k'" "j \<noteq> n" by (auto split: if_splits)
  have sub: "conn_blocks (h_cls k') (B j) \<subseteq> others conns B n F" using k' by (rule other_sub)
  have old: "conn_ok m (h_cls k') (B j) (concat (h_body k'))" "conn_blocks (h_cls k') (B j) \<inter> others conns B j F = {}"
    using ok k' by (simp_all add: conns_ok_def)
  have "conn_ok m' (h_cls k') (B j) (concat (h_body k'))"
    using conn_ok_cong[of "h_cls k'" "B j" m' m] same sub old(1) by blast
  then show "conn_ok m' (h_cls k') (B j) (concat (h_body k')) \<and>
      conn_blocks (h_cls k') (B j) \<inter> others (conns(n := None)) B j F = {}"
    using others_sub(2)[of conns n B j F] old(2) by blast
qed

text \<open>
  The node holds what the events so far leave of the store, every open connection has its own
  record and body, and what was sent was what the store had.
\<close>

fun daemon_ok :: "ptr set \<Rightarrow> catalogue \<times> store \<Rightarrow> 'h storage_node_scheme daemon \<Rightarrow> bool" where
  "daemon_ok F a (Up s conns es) \<longleftrightarrow>
     (\<exists>B. node_rel s (fst (fold event_spec es a)) (snd (fold event_spec es a)) (all_blocks conns B F) \<and>
       conns_ok (mem s) conns B F) \<and> admissible event_ok event_spec es a"
| "daemon_ok F a (Down e es) \<longleftrightarrow> False"

lemma set_conn:
  assumes ok: "conns_ok (mem s) conns B F" and srv: "serving s' rs cat (h_cls k) d (concat (h_body k)) (others conns B n F)"
    and fr: "hframe (others conns B n F) (s\<lparr>fs := fs s'\<rparr>) s'"
  shows "conns_ok (mem s') (conns(n \<mapsto> k)) (B(n := d)) F"
    "storage_rel s' rs cat (all_blocks (conns(n \<mapsto> k)) (B(n := d)) F)"
proof -
  show "conns_ok (mem s') (conns(n \<mapsto> k)) (B(n := d)) F"
    using srv fr by (intro conns_set[OF ok]) (simp_all add: serving_def hframe_def)
  have "all_blocks (conns(n \<mapsto> k)) (B(n := d)) F = conn_blocks (h_cls k) d \<union> others conns B n F"
    by (subst all_blocks_split(1)[of _ n k]) simp_all
  then show "storage_rel s' rs cat (all_blocks (conns(n \<mapsto> k)) (B(n := d)) F)" using servingD(1)[OF srv] by simp
qed

lemma drop_conn:
  assumes ok: "conns_ok (mem s) conns B F" and rel: "storage_rel s' rs cat (others conns B n F)"
    and fr: "hframe (others conns B n F) s s'"
  shows "conns_ok (mem s') (conns(n := None)) B F" "storage_rel s' rs cat (all_blocks (conns(n := None)) B F)"
proof -
  show "conns_ok (mem s') (conns(n := None)) B F"
    using fr by (intro conns_drop[OF ok]) (simp_all add: hframe_def)
  have "all_blocks (conns(n := None)) B F = others conns B n F"
    by (subst all_blocks_split(2)[of _ n]) simp_all
  then show "storage_rel s' rs cat (all_blocks (conns(n := None)) B F)" using rel by simp
qed

lemma others_frame: "hframe (others conns B n F) s s' \<Longrightarrow> hframe F s s'"
  by (rule hframe_sub) (auto simp: others_def)

text \<open>The calls for the connections of a daemon that is well.\<close>

lemma open_call:
  assumes rel: "storage_rel s rs cat A" "no_oom s" and k: "h_cls k = NULL"
  obtains con s' where
    "conn_call m depth k [] s = Inr (\<lparr>mhd_yes = True, con_cls = con, upload_left = 0, queued = None\<rparr>, s')"
    "serving s' rs cat con NULL [] A" "hframe A s s'" "fs s' = fs s"
proof -
  have oom: "\<not> oom s (brk s)" using rel(2) by (simp add: no_oom_def)
  obtain con s' where run: "new_connection [] s
      = Inr (\<lparr>mhd_yes = True, con_cls = con, upload_left = length ([] :: byte list), queued = None\<rparr>, s')"
    "serving s' rs cat con NULL [] A" "hframe A s s'" by (rule new_connection_run[OF rel(1) oom])
  then have "conn_call m depth k [] s = Inr (\<lparr>mhd_yes = True, con_cls = con, upload_left = 0, queued = None\<rparr>, s')"
    using k by (simp add: conn_call_def answer_to_connection_def)
  then show thesis using run(2,3) fs_frame[OF run(3)] by (rule that)
qed

lemma piece_call:
  assumes srv: "serving s rs cat (h_cls k) d (concat (h_body k)) A" and mem: "no_oom s"
    and k: "h_method k = ''POST''" and bytes: "bytes \<noteq> []"
  obtains d' s' where
    "conn_call m depth k bytes s = Inr (\<lparr>mhd_yes = True, con_cls = h_cls k, upload_left = 0, queued = None\<rparr>, s')"
    "serving s' rs cat (h_cls k) d' (concat (h_body k @ [bytes])) A" "hframe A s s'" "fs s' = fs s"
proof -
  have oom: "\<not> oom s (brk s)" using mem by (simp add: no_oom_def)
  obtain d' s' where run: "append_upload (h_cls k) bytes s
      = Inr (\<lparr>mhd_yes = True, con_cls = h_cls k, upload_left = 0, queued = None\<rparr>, s')"
    "serving s' rs cat (h_cls k) d' (concat (h_body k) @ bytes) A" "hframe A s s'"
    by (rule append_upload_run[OF srv bytes oom])
  then have "conn_call m depth k bytes s
      = Inr (\<lparr>mhd_yes = True, con_cls = h_cls k, upload_left = 0, queued = None\<rparr>, s')"
    using k bytes servingD(2)[OF srv] by (simp add: conn_call_def answer_to_connection_def)
  moreover have "serving s' rs cat (h_cls k) d' (concat (h_body k @ [bytes])) A" using run(2) by simp
  ultimately show thesis using run(3) fs_frame[OF run(3)] by (rule that)
qed

text \<open>
  A call before the last leaves the catalogue as it is, and the blocks of whoever else.
\<close>

lemma call_keeps:
  assumes step: "call_step m depth (Up s conns es) D'" and sr: "storage_rel s rs cat (all_blocks conns B F)"
    and cok: "conns_ok (mem s) conns B F" and mem: "no_oom s"
  obtains s' conns' B' where "D' = Up s' conns' es" "storage_rel s' rs cat (all_blocks conns' B' F)"
    "conns_ok (mem s') conns' B' F" "hframe F s s'" "fs s' = fs s"
proof -
  note srv = open_serving[OF cok sr]
  have same: "hframe A (s\<lparr>fs := fs s'\<rparr>) s'" if "hframe A s s'" "fs s' = fs s" for A s' using that by simp
  from step show thesis
  proof cases
    case (opened n k h s')
    from open_call[OF sr mem opened(3), of m depth] opened(6)
    obtain con where h: "con_cls h = con" "serving s' rs cat con NULL [] (all_blocks conns B F)"
      "hframe (all_blocks conns B F) s s'" "fs s' = fs s" by (metis Inr_inject handled.select_convs(2) prod.inject)
    note h' = h(2,3)[unfolded all_blocks_split(2)[of conns, OF opened(2)]]
    have srv': "serving s' rs cat (h_cls (k\<lparr>h_cls := con\<rparr>)) NULL (concat (h_body (k\<lparr>h_cls := con\<rparr>))) (others conns B n F)"
      using h'(1) opened(4) by simp
    note set = set_conn[OF cok srv' same[OF h'(2) h(4)]]
    show thesis unfolding h(1)[symmetric]
      by (rule that[OF _ set(2) set(1) others_frame[OF h'(2)] h(4)]) (simp add: opened(1) h(1))
  next
    case (not_opened k h s' p s'')
    then show thesis using open_call[OF sr mem not_opened(2), of m depth] by fastforce
  next
    case (piece n k bytes h s')
    let ?k = "k\<lparr>h_cls := con_cls h, h_body := h_body k @ [bytes]\<rparr>"
    from piece_call[OF srv[OF piece(2)] mem piece(4,5), of m depth] piece(6)
    obtain d' where h: "con_cls h = h_cls k" "serving s' rs cat (h_cls k) d' (concat (h_body k @ [bytes])) (others conns B n F)"
      "hframe (others conns B n F) s s'" "fs s' = fs s" by (metis Inr_inject handled.select_convs(2) prod.inject)
    have srv': "serving s' rs cat (h_cls ?k) d' (concat (h_body ?k)) (others conns B n F)" using h by simp
    note set = set_conn[OF cok srv' same[OF h(3,4)]]
    show thesis by (rule that[OF _ set(2) set(1) others_frame[OF h(3)] h(4)]) (simp add: piece(1))
  next
    case (piece_refused n k bytes h s' p s'')
    then show thesis using piece_call[OF srv[OF piece_refused(2)] mem piece_refused(4,5), of m depth] by fastforce
  next
    case (closed n k p s')
    from request_completed_run[OF srv[OF closed(2)]] closed(3)
    have h: "storage_rel s' rs cat (others conns B n F)" "hframe (others conns B n F) s s'" by fastforce+
    note drop = drop_conn[OF cok h]
    show thesis by (rule that[OF closed(1) drop(2) drop(1) others_frame[OF h(2)] fs_frame[OF h(2)]])
  next
    case (open_crash k e)
    then show thesis using open_call[OF sr mem open_crash(2), of m depth] by fastforce
  next
    case (piece_crash n k bytes e)
    then show thesis using piece_call[OF srv[OF piece_crash(2)] mem piece_crash(4,5), of m depth] by fastforce
  next
    case (close_crash n k e)
    then show thesis using request_completed_run[OF srv[OF close_crash(2)]] by fastforce
  qed
qed

text \<open>The last call does what its event says.\<close>

lemma answer_keeps:
  assumes step: "answer_step m depth (Up s conns es) D'" and sr: "storage_rel s rs cat (all_blocks conns B F)"
    and cok: "conns_ok (mem s) conns B F" and free: "\<not> locked s" and mem: "no_oom s" and disk: "disk_rel (fs s) cat st"
    and m: "mhd_serves m" "2 \<le> depth"
    and pre: "\<And>evs. events D' = es @ evs \<Longrightarrow> admissible event_pre event_spec evs (cat, st)"
  obtains s' conns' evs rs' cat' st' where "D' = Up s' conns' (es @ evs)"
    "storage_rel s' rs' cat' (all_blocks conns' B F)" "conns_ok (mem s') conns' B F"
    "hframe F (s\<lparr>fs := fs s'\<rparr>) s'" "disk_rel (fs s') cat' st'"
    "fold event_spec evs (cat, st) = (cat', st')" "admissible event_ok event_spec evs (cat, st)"
proof -
  note srv = open_serving[OF cok sr]
  from step show thesis
  proof cases
    case (answered n k h s')
    let ?k = "k\<lparr>h_cls := con_cls h, h_answer := Some (queued h)\<rparr>"
    have "admissible event_pre event_spec (events_of k (fs s') (queued h)) (cat, st)"
      by (rule pre) (simp add: answered(1))
    from last_call[OF srv[OF answered(2)] free mem disk m this] answered(4)
    obtain rs' cat' st' where h: "con_cls h = h_cls k"
      "serving s' rs' cat' (h_cls k) (B n) (concat (h_body k)) (others conns B n F)"
      "hframe (conn_blocks (h_cls k) (B n) \<union> others conns B n F) (s\<lparr>fs := fs s'\<rparr>) s'" "disk_rel (fs s') cat' st'"
      "fold event_spec (events_of k (fs s') (queued h)) (cat, st) = (cat', st')"
      "admissible event_ok event_spec (events_of k (fs s') (queued h)) (cat, st)"
      by (metis Inr_inject prod.inject)
    have fr: "hframe (others conns B n F) (s\<lparr>fs := fs s'\<rparr>) s'" using h(3) by (rule hframe_sub) simp
    have srv': "serving s' rs' cat' (h_cls ?k) (B n) (concat (h_body ?k)) (others conns B n F)" using h by simp
    note set = set_conn[OF cok srv' fr, unfolded fun_upd_triv]
    show thesis by (rule that[OF answered(1) set(2) set(1) others_frame[OF fr] h(4-6)])
  next
    case (answer_crash n k e)
    have "admissible event_pre event_spec (events_of k (fs s) None) (cat, st)"
      by (rule pre) (simp add: answer_crash(1))
    from last_call[OF srv[OF answer_crash(2)] free mem disk m this] answer_crash(4) show thesis by fastforce
  qed
qed

lemma hframe_env:
  "hframe F (s\<lparr>fs := t\<rparr>) s' \<Longrightarrow> locked s' = locked s" "hframe F (s\<lparr>fs := t\<rparr>) s' \<Longrightarrow> no_oom s' = no_oom s"
  by (simp_all add: hframe_def no_oom_def)

lemma daemon_ok_step:
  assumes step: "daemon_step m depth D D'" and ok: "daemon_ok F a D" and m: "mhd_serves m" "2 \<le> depth"
    and pre: "admissible event_pre event_spec (events D') a"
  shows "daemon_ok F a D'"
proof -
  obtain s conns es where D: "D = Up s conns es" using ok by (cases D) auto
  obtain cat st where a: "fold event_spec es a = (cat, st)" by force
  obtain B where rel: "node_rel s cat st (all_blocks conns B F)" and cok: "conns_ok (mem s) conns B F"
    and eok: "admissible event_ok event_spec es a" using ok by (auto simp: D a)
  obtain rs where sr: "storage_rel s rs cat (all_blocks conns B F)" and free: "\<not> locked s" and mem: "no_oom s"
    and disk: "disk_rel (fs s) cat st" using rel by (auto simp: node_rel_def)
  from step show ?thesis
  proof cases
    case call
    obtain s' conns' B' where s': "D' = Up s' conns' es" "storage_rel s' rs cat (all_blocks conns' B' F)"
      "conns_ok (mem s') conns' B' F" "hframe F s s'" "fs s' = fs s"
      by (rule call_keeps[OF call[unfolded D] sr cok mem])
    have "node_rel s' cat st (all_blocks conns' B' F)"
      using s'(2,4,5) free mem disk by (auto simp: node_rel_def hframe_def no_oom_def)
    then show ?thesis using s'(1,3) a eok by auto
  next
    case answer
    have pre': "admissible event_pre event_spec evs (cat, st)" if "events D' = es @ evs" for evs
      using pre a unfolding that by (simp add: admissible_append)
    obtain s' conns' evs rs' cat' st' where s': "D' = Up s' conns' (es @ evs)"
      "storage_rel s' rs' cat' (all_blocks conns' B F)" "conns_ok (mem s') conns' B F"
      "hframe F (s\<lparr>fs := fs s'\<rparr>) s'" "disk_rel (fs s') cat' st'"
      "fold event_spec evs (cat, st) = (cat', st')" "admissible event_ok event_spec evs (cat, st)"
      by (rule answer_keeps[OF answer[unfolded D] sr cok free mem disk m pre'])
    have "node_rel s' cat' st' (all_blocks conns' B F)"
      using s'(2,5) hframe_env[OF s'(4)] free mem by (auto simp: node_rel_def)
    then show ?thesis using s' a eok by (auto simp: admissible_append)
  qed
qed

lemma events_grow: "daemon_step m depth D D' \<Longrightarrow> \<exists>es. events D' = events D @ es"
  by (auto elim!: daemon_step.cases call_step.cases answer_step.cases)

lemma daemon_ok_reachable:
  assumes "daemon_steps m depth D D'" "daemon_ok F a D" "mhd_serves m" "2 \<le> depth"
    and "admissible event_pre event_spec (events D') a"
  shows "daemon_ok F a D'"
  using assms(1,5)
proof (induction rule: rtranclp_induct)
  case (step y z)
  have "admissible event_pre event_spec (events y) a"
    using events_grow[OF step.hyps(2)] step.prems by (auto simp: admissible_append)
  then show ?case using daemon_ok_step[OF step.hyps(2) _ assms(3,4) step.prems] step.IH by blast
qed (rule assms(2))

section \<open>The calls return\<close>

text \<open>What a daemon that is well can do next: none of its calls fails.\<close>

lemma can_open:
  assumes ok: "daemon_ok F a (Up s conns es)" and n: "conns n = None"
    and k: "h_cls k = NULL" "h_body k = []" "h_answer k = None"
  shows "\<exists>s' con. call_step m depth (Up s conns es) (Up s' (conns(n \<mapsto> k\<lparr>h_cls := con\<rparr>)) es)"
proof -
  obtain B rs where "storage_rel s rs (fst (fold event_spec es a)) (all_blocks conns B F)" "no_oom s"
    using ok by (auto simp: node_rel_def)
  then obtain con s' where
    "conn_call m depth k [] s = Inr (\<lparr>mhd_yes = True, con_cls = con, upload_left = 0, queued = None\<rparr>, s')"
    using k(1) by (rule open_call)
  from call_step.opened[where conns = conns and n = n, OF n k this] show ?thesis by auto
qed

lemma ok_serving:
  assumes "daemon_ok F a (Up s conns es)" "conns n = Some k" "fold event_spec es a = (cat, st)"
  obtains rs d A where "serving s rs cat (h_cls k) d (concat (h_body k)) A" "\<not> locked s" "no_oom s" "disk_rel (fs s) cat st"
proof -
  obtain B where rel: "node_rel s cat st (all_blocks conns B F)" and cok: "conns_ok (mem s) conns B F"
    using assms(1,3) by auto
  then obtain rs where "storage_rel s rs cat (all_blocks conns B F)" by (auto simp: node_rel_def)
  from open_serving[OF cok this assms(2)] rel that show thesis by (auto simp: node_rel_def)
qed

lemma can_receive:
  assumes ok: "daemon_ok F a (Up s conns es)" and n: "conns n = Some k" "h_answer k = None"
    and k: "h_method k = ''POST''" "bytes \<noteq> []"
  shows "\<exists>s'. call_step m depth (Up s conns es) (Up s' (conns(n \<mapsto> k\<lparr>h_body := h_body k @ [bytes]\<rparr>)) es)"
proof -
  obtain cat st where a: "fold event_spec es a = (cat, st)" by force
  obtain rs d A where srv: "serving s rs cat (h_cls k) d (concat (h_body k)) A" and mem: "no_oom s"
    by (rule ok_serving[OF ok n(1) a])
  obtain s' where
    run: "conn_call m depth k bytes s = Inr (\<lparr>mhd_yes = True, con_cls = h_cls k, upload_left = 0, queued = None\<rparr>, s')"
    by (rule piece_call[OF srv mem k])
  have "k\<lparr>h_cls := h_cls k, h_body := h_body k @ [bytes]\<rparr> = k\<lparr>h_body := h_body k @ [bytes]\<rparr>" by simp
  with call_step.piece[where conns = conns and n = n, OF n k run] show ?thesis by auto
qed

lemma can_answer:
  assumes ok: "daemon_ok F a (Up s conns es)" and n: "conns n = Some k" "h_answer k = None"
    and m: "mhd_serves m" "2 \<le> depth"
    and pre: "admissible event_pre event_spec (events_of k t r) (fold event_spec es a)"
  shows "\<exists>s' resp. answer_step m depth (Up s conns es)
    (Up s' (conns(n \<mapsto> k\<lparr>h_answer := Some resp\<rparr>)) (es @ events_of k (fs s') resp))"
proof -
  obtain cat st where a: "fold event_spec es a = (cat, st)" by force
  obtain rs d A where srv: "serving s rs cat (h_cls k) d (concat (h_body k)) A"
    and pre': "\<not> locked s" "no_oom s" "disk_rel (fs s) cat st" by (rule ok_serving[OF ok n(1) a])
  obtain h s' where run: "conn_call m depth k [] s = Inr (h, s')" "con_cls h = h_cls k"
    by (rule last_call[OF srv pre' m pre[unfolded a]])
  have "k\<lparr>h_cls := con_cls h, h_answer := Some (queued h)\<rparr> = k\<lparr>h_answer := Some (queued h)\<rparr>" using run(2) by simp
  with answer_step.answered[where conns = conns and n = n, OF n run(1)] show ?thesis by auto
qed

text \<open>The connections and events that a run from a node without connections can come to.\<close>

definition comes_to ::
  "mhd \<Rightarrow> nat \<Rightarrow> 'h storage_node_scheme \<Rightarrow> ptr set \<Rightarrow> catalogue \<times> store \<Rightarrow> (nat \<Rightarrow> http_conn option) \<Rightarrow> event list \<Rightarrow> bool" where
  "comes_to m depth s0 F a conns es \<longleftrightarrow> mhd_serves m \<and> 2 \<le> depth \<and> admissible event_pre event_spec es a \<and>
     (\<exists>s. daemon_steps m depth (Up s0 Map.empty []) (Up s conns es) \<and> daemon_ok F a (Up s conns es))"

lemma comes_to_start:
  assumes "node_rel s0 (fst a) (snd a) F" "mhd_serves m" "2 \<le> depth"
  shows "comes_to m depth s0 F a Map.empty []"
  using assms by (auto simp: comes_to_def all_blocks_def conns_ok_def)

lemma comes_to_step:
  assumes "daemon_step m depth (Up s conns es) (Up s' conns' es')" "daemon_ok F a (Up s conns es)"
    and "daemon_steps m depth (Up s0 Map.empty []) (Up s conns es)" "mhd_serves m" "2 \<le> depth"
    and "admissible event_pre event_spec es' a"
  shows "comes_to m depth s0 F a conns' es'"
  unfolding comes_to_def
  using assms daemon_ok_step[OF assms(1,2,4,5)] rtranclp.rtrancl_into_rtrancl[OF assms(3,1)] by auto

lemma comes_to_open:
  assumes run: "comes_to m depth s0 F a conns es" and n: "conns n = None"
    and k: "h_cls k = NULL" "h_body k = []" "h_answer k = None"
  shows "\<exists>con. comes_to m depth s0 F a (conns(n \<mapsto> k\<lparr>h_cls := con\<rparr>)) es"
proof -
  obtain s where s: "daemon_steps m depth (Up s0 Map.empty []) (Up s conns es)" "daemon_ok F a (Up s conns es)"
    and env: "mhd_serves m" "2 \<le> depth" "admissible event_pre event_spec es a" using run by (auto simp: comes_to_def)
  obtain s' con where "call_step m depth (Up s conns es) (Up s' (conns(n \<mapsto> k\<lparr>h_cls := con\<rparr>)) es)"
    using can_open[where conns = conns and n = n, OF s(2) n k] by blast
  from comes_to_step[OF daemon_step.call[OF this] s(2,1) env] show ?thesis ..
qed

lemma comes_to_receive:
  assumes run: "comes_to m depth s0 F a conns es" and n: "conns n = Some k" "h_answer k = None"
    and k: "h_method k = ''POST''" "bytes \<noteq> []"
  shows "comes_to m depth s0 F a (conns(n \<mapsto> k\<lparr>h_body := h_body k @ [bytes]\<rparr>)) es"
proof -
  obtain s where s: "daemon_steps m depth (Up s0 Map.empty []) (Up s conns es)" "daemon_ok F a (Up s conns es)"
    and env: "mhd_serves m" "2 \<le> depth" "admissible event_pre event_spec es a" using run by (auto simp: comes_to_def)
  obtain s' where "call_step m depth (Up s conns es) (Up s' (conns(n \<mapsto> k\<lparr>h_body := h_body k @ [bytes]\<rparr>)) es)"
    using can_receive[where conns = conns and n = n, OF s(2) n k] by blast
  from comes_to_step[OF daemon_step.call[OF this] s(2,1) env] show ?thesis .
qed

lemma comes_to_answer:
  assumes run: "comes_to m depth s0 F a conns es" and n: "conns n = Some k" "h_answer k = None"
    and ev: "\<And>t r. events_of k t r = xs" and pre: "admissible event_pre event_spec (es @ xs) a"
  shows "\<exists>resp. comes_to m depth s0 F a (conns(n \<mapsto> k\<lparr>h_answer := Some resp\<rparr>)) (es @ xs)"
proof -
  obtain s where s: "daemon_steps m depth (Up s0 Map.empty []) (Up s conns es)" "daemon_ok F a (Up s conns es)"
    and env: "mhd_serves m" "2 \<le> depth" using run by (auto simp: comes_to_def)
  have "admissible event_pre event_spec (events_of k (fs s) None) (fold event_spec es a)"
    using pre unfolding ev by (simp add: admissible_append)
  from can_answer[where conns = conns and n = n, OF s(2) n env this] obtain s' resp where
    "answer_step m depth (Up s conns es) (Up s' (conns(n \<mapsto> k\<lparr>h_answer := Some resp\<rparr>)) (es @ xs))"
    unfolding ev by blast
  from comes_to_step[OF daemon_step.answer[OF this] s(2,1) env pre] show ?thesis ..
qed

end
