(* ===== verification/Example_Daemon.thy ===== *)
theory Example_Daemon
  imports Examples Http_Daemon
begin

text \<open>Two uploads whose bodies arrive in turn.\<close>

definition upload_of :: "string \<Rightarrow> int \<Rightarrow> http_conn" where
  "upload_of f c = \<lparr>h_headers = [''X-Filename'' \<mapsto> f, ''X-Chunk-ID'' \<mapsto> show_int c], h_url = ''/new-chunk'',
     h_method = ''POST'', h_cls = NULL, h_body = [], h_answer = None\<rparr>"

lemma upload_of_events: "in_int c \<Longrightarrow> concat (h_body k) \<noteq> [] \<Longrightarrow> h_headers k = h_headers (upload_of f c) \<Longrightarrow>
    h_url k = ''/new-chunk'' \<Longrightarrow> h_method k = ''POST'' \<Longrightarrow> events_of k t r = [Stored f c (concat (h_body k))]"
  by (simp add: events_of_def upload_of_def)

lemma upload_of [simp]: "h_cls (upload_of f c) = NULL" "h_body (upload_of f c) = []" "h_answer (upload_of f c) = None"
    "h_method (upload_of f c) = ''POST''" "h_url (upload_of f c) = ''/new-chunk''"
  by (simp_all add: upload_of_def)

lemma interleaved_run:
  "\<exists>conns. comes_to mhd0 2 node0 {} ([], Map.empty) conns [Stored ''b'' 1 [6], Stored ''b'' 0 [5, 7]]"
proof -
  let ?to = "comes_to mhd0 2 node0 {} ([], Map.empty)"
  let ?k0 = "upload_of ''b'' 0" and ?k1 = "upload_of ''b'' 1"
  have ints: "in_int 0" "in_int 1" by (simp_all add: in_int_def int_min_def int_max_def)
  have 0: "?to Map.empty []" by (rule comes_to_start) (simp_all add: mhd0_serves)
  obtain p where 1: "?to [0 \<mapsto> ?k0\<lparr>h_cls := p\<rparr>] []"
    using comes_to_open[OF 0, where n = 0 and k = ?k0] by auto
  obtain q where 2: "?to [0 \<mapsto> ?k0\<lparr>h_cls := p\<rparr>, 1 \<mapsto> ?k1\<lparr>h_cls := q\<rparr>] []"
    using comes_to_open[OF 1, where n = 1 and k = ?k1] by auto
  have 3: "?to [0 \<mapsto> ?k0\<lparr>h_cls := p, h_body := [[5]]\<rparr>, 1 \<mapsto> ?k1\<lparr>h_cls := q\<rparr>] []"
    using comes_to_receive[OF 2, where n = 0 and k = "?k0\<lparr>h_cls := p\<rparr>" and bytes = "[5]"] by (simp add: fun_upd_twist)
  let ?c1 = "?k1\<lparr>h_cls := q, h_body := [[6]]\<rparr>" and ?c0 = "?k0\<lparr>h_cls := p, h_body := [[5], [7]]\<rparr>"
  have 4: "?to [0 \<mapsto> ?k0\<lparr>h_cls := p, h_body := [[5]]\<rparr>, 1 \<mapsto> ?c1] []"
    using comes_to_receive[OF 3, where n = 1 and k = "?k1\<lparr>h_cls := q\<rparr>" and bytes = "[6]"] by simp
  have 5: "?to [0 \<mapsto> ?c0, 1 \<mapsto> ?c1] []"
    using comes_to_receive[OF 4, where n = 0 and k = "?k0\<lparr>h_cls := p, h_body := [[5]]\<rparr>" and bytes = "[7]"]
    by (simp add: fun_upd_twist)
  have e1: "events_of ?c1 t r = [Stored ''b'' 1 [6]]" for t r using upload_of_events[OF ints(2), of ?c1 "''b''"] by simp
  have e0: "events_of ?c0 t r = [Stored ''b'' 0 [5, 7]]" for t r using upload_of_events[OF ints(1), of ?c0 "''b''"] by simp
  obtain x where 6: "?to [0 \<mapsto> ?c0, 1 \<mapsto> ?c1\<lparr>h_answer := Some x\<rparr>] [Stored ''b'' 1 [6]]"
    using comes_to_answer[OF 5 _ _ e1, where n = 1] ints by (auto simp: cat_bounded_def int_max_def serial_def)
  have pre: "admissible event_pre event_spec ([Stored ''b'' 1 [6]] @ [Stored ''b'' 0 [5, 7]]) ([], Map.empty)"
    using ints by (simp add: cat_bounded_def int_max_def serial_def spec_upload_def cat_insert_def)
  show ?thesis using comes_to_answer[OF 6 _ _ e0 pre, where n = 0] by auto
qed

end
