(* ===== verification/Node_Program.thy ===== *)
theory Node_Program
  imports Node_Threads Http_Daemon Http_Frames
begin

text \<open>
  The node as a program: the thread of the link and the HTTP server's, with all its open
  connections, on one heap, one disk and one stop flag. A step is a step of either.
\<close>

section \<open>The program\<close>

datatype http_pc = Starting | Serving | HttpDone

datatype 'n program =
    Run tcp_pc http_pc 'n "nat \<Rightarrow> http_conn option" "event list"
  | Exited "event list"
  | Crashed c_error "event list"

fun program_events :: "'n program \<Rightarrow> event list" where
  "program_events (Run t h s conns es) = es"
| "program_events (Exited es) = es"
| "program_events (Crashed e es) = es"

definition recv_fits :: "recv_answer \<Rightarrow> bool" where
  "recv_fits a \<longleftrightarrow> (case a of RecvFailed \<Rightarrow> True | Received buffer \<Rightarrow> length buffer < 1024)"

text \<open>
  Without \<open>held\<close> it is the program as it is; with \<open>held\<close>, its runs in which no request takes
  effect while a report is being made, as would be all if the mutex were held for a whole report. A send that
  waits is no step; one whose length is not taken ends the program. The server's end closes
  the connections that are still open.
\<close>

inductive program_step ::
  "(byte list \<Rightarrow> MessageFromMasterToStorage option) \<Rightarrow> packed_size \<Rightarrow> packer \<Rightarrow> mhd \<Rightarrow> nat \<Rightarrow> bool
    \<Rightarrow> 'h tcp_node_scheme program \<Rightarrow> 'h tcp_node_scheme program \<Rightarrow> bool"
  for unpack ps pk m depth held where
  tcp: "recv_fits a \<Longrightarrow> tcp_next unpack ps pk a t s = Inr (t', s') \<Longrightarrow>
    program_step unpack ps pk m depth held (Run t h s conns es) (Run t' h s' conns es)"
| tcp_exit: "recv_fits a \<Longrightarrow> tcp_next unpack ps pk a t s = Inl ExitFailure \<Longrightarrow>
    program_step unpack ps pk m depth held (Run t h s conns es) (Exited es)"
| tcp_crash: "recv_fits a \<Longrightarrow> tcp_next unpack ps pk a t s = Inl e \<Longrightarrow> e \<noteq> ExitFailure \<Longrightarrow> e \<noteq> Blocked \<Longrightarrow>
    program_step unpack ps pk m depth held (Run t h s conns es) (Crashed e es)"
| http_begin: "program_step unpack ps pk m depth held (Run t Starting s conns es) (Run t Serving s conns es)"
| http_no_daemon: "program_step unpack ps pk m depth held
    (Run t Starting s conns es) (Run t HttpDone (s\<lparr>shouldWork := False\<rparr>) conns es)"
| http_call: "call_step m depth (Up s conns es) (Up s' conns' es') \<Longrightarrow>
    program_step unpack ps pk m depth held (Run t Serving s conns es) (Run t Serving s' conns' es')"
| http_answer: "held \<longrightarrow> \<not> mid_report t \<Longrightarrow> answer_step m depth (Up s conns es) (Up s' conns' es') \<Longrightarrow>
    program_step unpack ps pk m depth held (Run t Serving s conns es) (Run t Serving s' conns' es')"
| http_call_crash: "call_step m depth (Up s conns es) (Down e es') \<Longrightarrow>
    program_step unpack ps pk m depth held (Run t Serving s conns es) (Crashed e es')"
| http_answer_crash: "held \<longrightarrow> \<not> mid_report t \<Longrightarrow> answer_step m depth (Up s conns es) (Down e es') \<Longrightarrow>
    program_step unpack ps pk m depth held (Run t Serving s conns es) (Crashed e es')"
| http_end: "\<not> shouldWork s \<Longrightarrow> program_step unpack ps pk m depth held
    (Run t Serving s Map.empty es) (Run t HttpDone (s\<lparr>shouldWork := False\<rparr>) Map.empty es)"

abbreviation program_steps ::
  "(byte list \<Rightarrow> MessageFromMasterToStorage option) \<Rightarrow> packed_size \<Rightarrow> packer \<Rightarrow> mhd \<Rightarrow> nat \<Rightarrow> bool
    \<Rightarrow> 'h tcp_node_scheme program \<Rightarrow> 'h tcp_node_scheme program \<Rightarrow> bool" where
  "program_steps unpack ps pk m depth held \<equiv> (program_step unpack ps pk m depth held)\<^sup>*\<^sup>*"

lemma program_events_grow:
  "program_step unpack ps pk m depth held x y \<Longrightarrow> \<exists>es. program_events y = program_events x @ es"
  by (auto elim!: program_step.cases call_step.cases answer_step.cases)

text \<open>The runs with \<open>held\<close> are the runs of the program in which no request takes effect during a report.\<close>

lemma held_is_run:
  assumes "program_steps unpack ps pk m depth True x y"
  shows "program_steps unpack ps pk m depth False x y"
  using assms
proof (induction rule: rtranclp_induct)
  case (step y z)
  from step.hyps(2) have "program_step unpack ps pk m depth False y z"
    by cases (auto intro: program_step.intros)
  with step.IH show ?case by (rule rtranclp.rtrancl_into_rtrancl)
qed simp

section \<open>The stop flag\<close>

text \<open>A thread that has ended has told the other one to end, and the flag is never raised again.\<close>

fun stop_told :: "'h tcp_node_scheme program \<Rightarrow> bool" where
  "stop_told (Run t h s conns es) \<longleftrightarrow> (t = TcpDone \<or> h = HttpDone \<longrightarrow> \<not> shouldWork s)"
| "stop_told _ \<longleftrightarrow> True"

lemma net_flag: "net s' = net s \<Longrightarrow> shouldWork s' = shouldWork s"
  "net s' = net s \<Longrightarrow> wire s' = wire s" "net s' = net s \<Longrightarrow> send_answers s' = send_answers s"
  by (cases s; cases s'; simp)+

lemma keeps_call [keeps_rules]: "keeps net (conn_call m depth k bytes)"
  unfolding conn_call_def by (rule keeps_answer)

lemma call_net: "call_step m depth (Up s conns es) (Up s' conns' es') \<Longrightarrow> net s' = net s"
  by (auto elim!: call_step.cases dest!: keepsD[OF keeps_call] keepsD[OF keeps_completed])

lemma answer_net: "answer_step m depth (Up s conns es) (Up s' conns' es') \<Longrightarrow> net s' = net s"
  by (auto elim!: answer_step.cases dest!: keepsD[OF keeps_call])

lemma stop_told_step: "program_step unpack ps pk m depth held x y \<Longrightarrow> stop_told x \<Longrightarrow> stop_told y"
proof (induction rule: program_step.induct)
  case (tcp a t s t' s' h conns es)
  then show ?case using tcp_next_flag[OF tcp(2)] by (cases t) auto
next
  case (http_call s conns es s' conns' es' t)
  then show ?case using net_flag(1)[OF call_net[OF http_call(1)]] by simp
next
  case (http_answer t s conns es s' conns' es')
  then show ?case using net_flag(1)[OF answer_net[OF http_answer(2)]] by simp
qed simp_all

lemma stop_told_steps:
  "program_steps unpack ps pk m depth held x y \<Longrightarrow> stop_told x \<Longrightarrow> stop_told y"
  by (induction rule: rtranclp_induct) (use stop_told_step in blast)+

section \<open>What a run knows\<close>

lemma all_blocks_add [simp]: "all_blocks conns B (N \<union> X) = N \<union> all_blocks conns B X"
  "all_blocks Map.empty B X = X"
  by (auto simp: all_blocks_def)

lemma others_add: "others conns B n (N \<union> X) = N \<union> others conns B n X"
  by (auto simp: others_def)

lemma blocks_in_all: "conns n = Some k \<Longrightarrow> conn_blocks (h_cls k) (B n) \<subseteq> all_blocks conns B X" "X \<subseteq> all_blocks conns B X"
  unfolding all_blocks_def by force+

lemma conns_ok_add:
  assumes "N \<inter> all_blocks conns B X = {}"
  shows "conns_ok m conns B (N \<union> X) = conns_ok m conns B X"
proof -
  have "conn_blocks (h_cls k) (B n) \<inter> N = {}" if "conns n = Some k" for n k
    using assms blocks_in_all(1)[of conns n k B X, OF that] by blast
  then show ?thesis unfolding conns_ok_def others_add by blast
qed

lemma conns_ok_sub:
  assumes ok: "conns_ok m conns B (N \<union> X)" and dis: "N \<inter> X = {}"
  shows "N \<inter> all_blocks conns B X = {}" "conns_ok m conns B X"
proof -
  have "conn_blocks (h_cls k) (B n) \<inter> N = {}" if "conns n = Some k" for n k
    using ok that unfolding conns_ok_def others_add by blast
  then show "N \<inter> all_blocks conns B X = {}" using dis unfolding all_blocks_def by fastforce
  then show "conns_ok m conns B X" using ok by (simp add: conns_ok_add)
qed

lemma conns_ok_cong:
  assumes "\<And>p. p \<in> all_blocks conns B X \<Longrightarrow> m' p = m p" "conns_ok m conns B X"
  shows "conns_ok m' conns B X"
  unfolding conns_ok_def
proof (intro allI impI conjI)
  fix n k
  assume k: "conns n = Some k"
  then have ok: "conn_ok m (h_cls k) (B n) (concat (h_body k))" "conn_blocks (h_cls k) (B n) \<inter> others conns B n X = {}"
    using assms(2) by (simp_all add: conns_ok_def)
  show "conn_ok m' (h_cls k) (B n) (concat (h_body k))"
    using conn_ok_cong[of "h_cls k" "B n" m' m] assms(1) blocks_in_all(1)[of conns n k B X, OF k] ok(1) by blast
  show "conn_blocks (h_cls k) (B n) \<inter> others conns B n X = {}" by (rule ok(2))
qed

text \<open>
  \<open>F\<close> are blocks of others, as in \<open>m\<close>; \<open>L\<close> are messages of the master that nobody
  owns any more; \<open>R\<close> are the blocks of the report that is being made. Catalogue and disk are
  what the events so far leave.
\<close>

definition run_ok ::
  "packer \<Rightarrow> ptr set \<Rightarrow> (ptr \<Rightarrow> block option) \<Rightarrow> catalogue \<times> store \<Rightarrow> tcp_pc \<Rightarrow> http_pc \<Rightarrow> 'h tcp_node_scheme
    \<Rightarrow> (nat \<Rightarrow> http_conn option) \<Rightarrow> event list \<Rightarrow> byte list \<Rightarrow> bool" where
  "run_ok pk F m a t h s conns es bs \<longleftrightarrow>
     (\<exists>B L R rs cat st. fold event_spec es a = (cat, st) \<and>
        tcp_ok pk t rs cat bs R (all_blocks conns B (L \<union> F)) s \<and> conns_ok (mem s) conns B (L \<union> F) \<and>
        disk_rel (fs s) cat st \<and> (\<forall>p \<in> L. \<exists>msg. mem s p = Some (MsgB (Some msg))) \<and> L \<inter> F = {}) \<and>
     (\<forall>p \<in> F. mem s p = m p) \<and> (h \<noteq> Serving \<longrightarrow> conns = Map.empty) \<and> admissible event_ok event_spec es a"

text \<open>
  The wire has, after what was there, one report for each of \<open>ess\<close>: of the catalogue after
  these events. They are earlier and earlier stretches of the events so far, seen from the end.
\<close>

definition report_of :: "packer \<Rightarrow> catalogue \<times> store \<Rightarrow> event list \<Rightarrow> byte list" where
  "report_of pk a es = pk (health_of (fst (fold event_spec es a)))"

definition wire_ok ::
  "packer \<Rightarrow> catalogue \<times> store \<Rightarrow> byte list \<Rightarrow> tcp_pc \<Rightarrow> byte list \<Rightarrow> byte list \<Rightarrow> event list \<Rightarrow> bool" where
  "wire_ok pk a w0 t bs w es \<longleftrightarrow>
     (\<exists>ess e0 tail. w = w0 @ concat (map (\<lambda>e. frame (report_of pk a e)) ess) @ tail \<and>
        sorted_wrt prefix (ess @ [e0]) \<and> prefix e0 es \<and> (packed t \<longrightarrow> bs = report_of pk a e0) \<and>
        (tail \<noteq> [] \<longrightarrow> t = TcpDone \<and> prefix tail (frame (report_of pk a e0))))"

fun node_program_ok ::
  "packer \<Rightarrow> ptr set \<Rightarrow> (ptr \<Rightarrow> block option) \<Rightarrow> catalogue \<times> store \<Rightarrow> byte list \<Rightarrow> 'h tcp_node_scheme program \<Rightarrow> bool" where
  "node_program_ok pk F m a w0 (Run t h s conns es) \<longleftrightarrow>
     (\<exists>bs. run_ok pk F m a t h s conns es bs \<and> wire_ok pk a w0 t bs (wire s) es)"
| "node_program_ok pk F m a w0 (Exited es) \<longleftrightarrow> True"
| "node_program_ok pk F m a w0 (Crashed e es) \<longleftrightarrow> False"

section \<open>The steps of the link\<close>

lemma run_ok_tcp:
  assumes ok: "run_ok pk F m a t h s conns es bs" and len: "packs_to_size ps pk"
  shows "(sends t \<or> t = TcpDone) \<and> tcp_next unpack ps pk x t s \<in> {Inl Blocked, Inl ExitFailure} \<or>
    (\<exists>t' s' bs' out. tcp_next unpack ps pk x t s = Inr (t', s') \<and> run_ok pk F m a t' h s' conns es bs' \<and>
       wire s' = wire s @ out \<and> sent_by t bs t' out \<and>
       (packed t' \<longrightarrow> bs' = (if packed t then bs else report_of pk a es)))"
proof -
  obtain B L R rs cat st where a: "fold event_spec es a = (cat, st)"
    and tcp: "tcp_ok pk t rs cat bs R (all_blocks conns B (L \<union> F)) s" and cok: "conns_ok (mem s) conns B (L \<union> F)"
    and disk: "disk_rel (fs s) cat st" and L: "\<forall>p \<in> L. \<exists>msg. mem s p = Some (MsgB (Some msg))" "L \<inter> F = {}"
    and rest: "\<forall>p \<in> F. mem s p = m p" "h \<noteq> Serving \<longrightarrow> conns = Map.empty" "admissible event_ok event_spec es a"
    using ok unfolding run_ok_def by blast
  let ?X = "all_blocks conns B (L \<union> F)"
  have sub: "L \<union> F \<subseteq> ?X" by (rule blocks_in_all(2))
  have pk: "pk (health_of cat) = report_of pk a es" by (simp add: report_of_def a)
  from tcp_next_keeps[OF tcp len, of unpack x] show ?thesis unfolding pk
  proof (rule disjE)
    assume "\<exists>t' s' R' N bs' out. tcp_next unpack ps pk x t s = Inr (t', s') \<and>
        tcp_ok pk t' rs cat bs' R' (N \<union> ?X) s' \<and> N \<inter> ?X = {} \<and>
        (\<forall>p \<in> N. \<exists>msg. mem s' p = Some (MsgB (Some msg))) \<and> tcp_frame ?X s s' \<and> wire s' = wire s @ out \<and>
        sent_by t bs t' out \<and> (packed t' \<longrightarrow> bs' = (if packed t then bs else report_of pk a es))"
    then show ?thesis
    proof (elim exE conjE)
      fix t' s' R' N bs' out
      assume run: "tcp_next unpack ps pk x t s = Inr (t', s')" and tcp': "tcp_ok pk t' rs cat bs' R' (N \<union> ?X) s'"
        and N: "N \<inter> ?X = {}" "\<forall>p \<in> N. \<exists>msg. mem s' p = Some (MsgB (Some msg))" and fr: "tcp_frame ?X s s'"
        and w: "wire s' = wire s @ out" "sent_by t bs t' out"
        and bs': "packed t' \<longrightarrow> bs' = (if packed t then bs else report_of pk a es)"
      have same: "mem s' p = mem s p" if "p \<in> ?X" for p using fr that by (simp add: tcp_frame_def)
      have "conns_ok (mem s') conns B (L \<union> F)" using conns_ok_cong[OF same cok] by blast
      then have "conns_ok (mem s') conns B (N \<union> (L \<union> F))" using N(1) by (simp add: conns_ok_add)
      then have cok': "conns_ok (mem s') conns B ((N \<union> L) \<union> F)" by (simp add: Un_assoc)
      have tcp'': "tcp_ok pk t' rs cat bs' R' (all_blocks conns B ((N \<union> L) \<union> F)) s'" using tcp' by (simp add: Un_assoc)
      have disk': "disk_rel (fs s') cat st" using disk fr by (simp add: tcp_frame_def)
      have L': "\<forall>p \<in> N \<union> L. \<exists>msg. mem s' p = Some (MsgB (Some msg))" "(N \<union> L) \<inter> F = {}"
        using N L same sub by fastforce+
      have "\<forall>p \<in> F. mem s' p = m p" using rest(1) same sub by (metis UnCI subset_iff)
      then have "run_ok pk F m a t' h s' conns es bs'"
        unfolding run_ok_def using a tcp'' cok' disk' L' rest(2,3) by blast
      then show ?thesis using run w bs' by blast
    qed
  qed (rule disjI1)
qed

lemma wire_ok_tcp:
  assumes w: "wire_ok pk a w0 t bs w es" and t: "t \<noteq> TcpDone" and sent: "sent_by t bs t' out"
    and bs': "packed t' \<longrightarrow> bs' = (if packed t then bs else report_of pk a es)"
  shows "wire_ok pk a w0 t' bs' (w @ out) es"
proof -
  obtain ess e0 where w: "w = w0 @ concat (map (\<lambda>e. frame (report_of pk a e)) ess)" and ord: "sorted_wrt prefix (ess @ [e0])"
    and e0: "prefix e0 es" "packed t \<longrightarrow> bs = report_of pk a e0"
    using assms(1) t unfolding wire_ok_def by fastforce
  have up: "sorted_wrt prefix (ess @ [es])" using ord e0(1) by (auto simp: sorted_wrt_append intro: prefix_order.trans)
  show ?thesis
  proof (cases "\<exists>buf l. t = Sending buf l")
    case True
    then have bs: "bs = report_of pk a e0" using e0(2) by auto
    from True sent consider "t' = Receiving" "out = frame bs" | k where "t' = TcpDone" "out = take k (frame bs)" by auto
    then show ?thesis
    proof cases
      case 1
      have "sorted_wrt prefix ((ess @ [e0]) @ [e0])" using ord by (auto simp: sorted_wrt_append)
      moreover have "w @ out = w0 @ concat (map (\<lambda>e. frame (report_of pk a e)) (ess @ [e0])) @ []"
        using 1 bs w by simp
      ultimately show ?thesis using e0 1 unfolding wire_ok_def by fastforce
    next
      case 2
      have "w @ out = w0 @ concat (map (\<lambda>e. frame (report_of pk a e)) ess) @ out" using w by simp
      then show ?thesis using e0 2 ord bs take_is_prefix[of k "frame bs"] unfolding wire_ok_def by fastforce
    qed
  next
    case False
    then have out: "out = []" using sent by (cases t) auto
    then have w': "w @ out = w0 @ concat (map (\<lambda>e. frame (report_of pk a e)) ess) @ []" using w by simp
    show ?thesis
    proof (cases "packed t")
      case True
      then show ?thesis unfolding wire_ok_def using w' ord e0 bs'
        by (intro exI[of _ ess] exI[of _ e0] exI[of _ "[]"]) simp
    next
      case False
      then show ?thesis unfolding wire_ok_def using w' up bs'
        by (intro exI[of _ ess] exI[of _ es] exI[of _ "[]"]) simp
    qed
  qed
qed

section \<open>The steps of the server\<close>

lemma run_ok_call:
  assumes ok: "run_ok pk F m a t h s conns es bs" and step: "call_step mh depth (Up s conns es) D'"
  shows "\<exists>s' conns'. D' = Up s' conns' es \<and> run_ok pk F m a t Serving s' conns' es bs \<and> wire s' = wire s"
proof -
  obtain B L R rs cat st where a: "fold event_spec es a = (cat, st)"
    and tcp: "tcp_ok pk t rs cat bs R (all_blocks conns B (L \<union> F)) s" and cok: "conns_ok (mem s) conns B (L \<union> F)"
    and disk: "disk_rel (fs s) cat st" and L: "\<forall>p \<in> L. \<exists>msg. mem s p = Some (MsgB (Some msg))" "L \<inter> F = {}"
    and rest: "\<forall>p \<in> F. mem s p = m p" "admissible event_ok event_spec es a"
    using ok unfolding run_ok_def by blast
  have sr: "storage_rel s rs cat (all_blocks conns B (R \<union> (L \<union> F)))" and pre: "\<not> locked s" "no_oom s"
    and R: "R \<inter> all_blocks conns B (L \<union> F) = {}" and at: "report_at pk t (mem s) rs cat bs R"
    using tcp by (simp_all add: tcp_ok_def)
  have cok1: "conns_ok (mem s) conns B (R \<union> (L \<union> F))" using cok R by (simp add: conns_ok_add)
  obtain s' conns' B' where D': "D' = Up s' conns' es" and sr': "storage_rel s' rs cat (all_blocks conns' B' (R \<union> (L \<union> F)))"
    and cok': "conns_ok (mem s') conns' B' (R \<union> (L \<union> F))" and fr: "hframe (R \<union> (L \<union> F)) s s'" and fs: "fs s' = fs s"
    by (rule call_keeps[OF step sr cok1 pre(2)])
  have dis: "R \<inter> (L \<union> F) = {}" using R blocks_in_all(2)[of "L \<union> F" conns B] by blast
  note sub = conns_ok_sub[OF cok' dis]
  have same: "mem s' p = mem s p" if "p \<in> R \<union> (L \<union> F)" for p using fr that by (simp add: hframe_def)
  have "report_at pk t (mem s') rs cat bs R" by (rule report_at_cong[OF _ at]) (simp add: same)
  moreover have "\<not> locked s'" "no_oom s'" using fr pre by (simp_all add: hframe_def no_oom_def)
  ultimately have "tcp_ok pk t rs cat bs R (all_blocks conns' B' (L \<union> F)) s'"
    using sr' sub(1) by (simp add: tcp_ok_def)
  then have "run_ok pk F m a t Serving s' conns' es bs"
    unfolding run_ok_def using a sub(2) disk fs L rest same by (intro conjI exI[of _ B'] exI[of _ L] exI[of _ R]) auto
  then show ?thesis using D' net_frame(2)[OF fr] by blast
qed

lemma run_ok_answer:
  assumes ok: "run_ok pk F m a t h s conns es bs" and step: "answer_step mh depth (Up s conns es) D'"
    and free: "\<not> mid_report t" and mh: "mhd_serves mh" "2 \<le> depth" and pre: "admissible event_pre event_spec (events D') a"
  shows "\<exists>s' conns' evs. D' = Up s' conns' (es @ evs) \<and> run_ok pk F m a t Serving s' conns' (es @ evs) bs \<and> wire s' = wire s"
proof -
  obtain B L R rs cat st where a: "fold event_spec es a = (cat, st)"
    and tcp: "tcp_ok pk t rs cat bs R (all_blocks conns B (L \<union> F)) s" and cok: "conns_ok (mem s) conns B (L \<union> F)"
    and disk: "disk_rel (fs s) cat st" and L: "\<forall>p \<in> L. \<exists>msg. mem s p = Some (MsgB (Some msg))" "L \<inter> F = {}"
    and rest: "\<forall>p \<in> F. mem s p = m p" "admissible event_ok event_spec es a"
    using ok unfolding run_ok_def by blast
  have sr: "storage_rel s rs cat (all_blocks conns B (R \<union> (L \<union> F)))" and lock: "\<not> locked s" "no_oom s"
    and R: "R \<inter> all_blocks conns B (L \<union> F) = {}" and at: "report_at pk t (mem s) rs cat bs R"
    using tcp by (simp_all add: tcp_ok_def)
  have cok1: "conns_ok (mem s) conns B (R \<union> (L \<union> F))" using cok R by (simp add: conns_ok_add)
  have pre': "admissible event_pre event_spec evs (cat, st)" if "events D' = es @ evs" for evs
    using pre unfolding that by (simp add: admissible_append a)
  obtain s' conns' evs rs' cat' st' where D': "D' = Up s' conns' (es @ evs)"
    and sr': "storage_rel s' rs' cat' (all_blocks conns' B (R \<union> (L \<union> F)))"
    and cok': "conns_ok (mem s') conns' B (R \<union> (L \<union> F))" and fr: "hframe (R \<union> (L \<union> F)) (s\<lparr>fs := fs s'\<rparr>) s'"
    and disk': "disk_rel (fs s') cat' st'" and ev: "fold event_spec evs (cat, st) = (cat', st')"
      "admissible event_ok event_spec evs (cat, st)"
    by (rule answer_keeps[OF step sr cok1 lock disk mh pre'])
  have dis: "R \<inter> (L \<union> F) = {}" using R blocks_in_all(2)[of "L \<union> F" conns B] by blast
  note sub = conns_ok_sub[OF cok' dis]
  have same: "mem s' p = mem s p" if "p \<in> R \<union> (L \<union> F)" for p using fr that by (simp add: hframe_def)
  have "report_at pk t (mem s') rs cat bs R" by (rule report_at_cong[OF _ at]) (simp add: same)
  then have "report_at pk t (mem s') rs' cat' bs R" using report_at_any[OF free] by blast
  moreover have "\<not> locked s'" "no_oom s'" using hframe_env[OF fr] lock by simp_all
  ultimately have "tcp_ok pk t rs' cat' bs R (all_blocks conns' B (L \<union> F)) s'"
    using sr' sub(1) by (simp add: tcp_ok_def)
  then have "run_ok pk F m a t Serving s' conns' (es @ evs) bs"
    unfolding run_ok_def using a ev sub(2) disk' L rest same
    by (intro conjI exI[of _ B] exI[of _ L] exI[of _ R]) (auto simp: admissible_append)
  then show ?thesis using D' net_frame(2)[OF fr] by auto
qed

lemma wire_ok_grow: "wire_ok pk a w0 t bs w es \<Longrightarrow> wire_ok pk a w0 t bs w (es @ evs)"
  unfolding wire_ok_def by (metis prefix_prefix)

lemma run_ok_http: "run_ok pk F m a t h s conns es bs \<Longrightarrow> h' = Serving \<or> conns = Map.empty \<Longrightarrow> run_ok pk F m a t h' s conns es bs"
  unfolding run_ok_def by blast

lemma run_ok_work [simp]: "run_ok pk F m a t h (s\<lparr>shouldWork := b\<rparr>) conns es bs = run_ok pk F m a t h s conns es bs"
  by (simp add: run_ok_def)

section \<open>With the mutex held for the whole report\<close>

lemma program_ok_step:
  assumes step: "program_step unpack ps pk mh depth True x y" and ok: "node_program_ok pk F m a w0 x"
    and len: "packs_to_size ps pk" and mh: "mhd_serves mh" "2 \<le> depth"
    and pre: "admissible event_pre event_spec (program_events y) a"
  shows "node_program_ok pk F m a w0 y"
  using step
proof cases
  case (tcp b t s t' s' h conns es)
  then obtain bs where run: "run_ok pk F m a t h s conns es bs" and w: "wire_ok pk a w0 t bs (wire s) es" using ok by auto
  have t: "t \<noteq> TcpDone" using tcp(4) by (cases t) simp_all
  from run_ok_tcp[OF run len, of unpack b] tcp(4)
  obtain bs' out where "run_ok pk F m a t' h s' conns es bs'" "wire s' = wire s @ out" "sent_by t bs t' out"
    "packed t' \<longrightarrow> bs' = (if packed t then bs else report_of pk a es)" by auto
  then show ?thesis unfolding tcp(2) using wire_ok_tcp[OF w t] by auto
next
  case (tcp_crash b t s e h conns es)
  then obtain bs where "run_ok pk F m a t h s conns es bs" using ok by auto
  from run_ok_tcp[OF this len, of unpack b] tcp_crash show ?thesis by auto
next
  case (http_begin t s conns es)
  then show ?thesis using ok run_ok_http by fastforce
next
  case (http_no_daemon t s conns es)
  then obtain bs where run: "run_ok pk F m a t Starting s conns es bs" and w: "wire_ok pk a w0 t bs (wire s) es" using ok by auto
  then have "conns = Map.empty" by (simp add: run_ok_def)
  then show ?thesis unfolding http_no_daemon(2) using run_ok_http[OF run, of HttpDone] w by auto
next
  case (http_call s conns es s' conns' es' t)
  then obtain bs where run: "run_ok pk F m a t Serving s conns es bs" and w: "wire_ok pk a w0 t bs (wire s) es" using ok by auto
  from run_ok_call[OF run http_call(3)] show ?thesis unfolding http_call(2) using w by auto
next
  case (http_answer t s conns es s' conns' es')
  then obtain bs where run: "run_ok pk F m a t Serving s conns es bs" and w: "wire_ok pk a w0 t bs (wire s) es" using ok by auto
  have "admissible event_pre event_spec (events (Up s' conns' es')) a" using pre http_answer(2) by simp
  from run_ok_answer[OF run http_answer(4) _ mh this] http_answer(3) w wire_ok_grow show ?thesis
    unfolding http_answer(2) by fastforce
next
  case (http_call_crash s conns es e es' t)
  then obtain bs where run: "run_ok pk F m a t Serving s conns es bs" using ok by auto
  from run_ok_call[OF run http_call_crash(3)] show ?thesis by simp
next
  case (http_answer_crash t s conns es e es')
  then obtain bs where run: "run_ok pk F m a t Serving s conns es bs" using ok by auto
  have "admissible event_pre event_spec (events (Down e es' :: 'a tcp_node_scheme daemon)) a" using pre http_answer_crash(2) by simp
  from run_ok_answer[OF run http_answer_crash(4) _ mh this] http_answer_crash(3) show ?thesis by simp
next
  case (http_end s t es)
  then show ?thesis using ok run_ok_http by fastforce
qed simp

lemma program_safe:
  assumes run: "program_steps unpack ps pk mh depth True x y" and ok: "node_program_ok pk F m a w0 x"
    and len: "packs_to_size ps pk" and mh: "mhd_serves mh" "2 \<le> depth"
    and pre: "admissible event_pre event_spec (program_events y) a"
  shows "node_program_ok pk F m a w0 y"
  using run pre
proof (induction rule: rtranclp_induct)
  case (step y z)
  have "admissible event_pre event_spec (program_events y) a"
    using program_events_grow[OF step.hyps(2)] step.prems by (auto simp: admissible_append)
  then show ?case using program_ok_step[OF step.hyps(2) _ len mh step.prems] step.IH by blast
qed (rule ok)

section \<open>From the start to the end\<close>

lemma start_ok:
  assumes "node_rel s (fst a) (snd a) F"
  shows "run_ok pk F (mem s) a Receiving Starting s Map.empty [] []"
    "node_program_ok pk F (mem s) a (wire s) (Run Receiving Starting s Map.empty [])"
proof -
  obtain rs where rs: "storage_rel s rs (fst a) F" "\<not> locked s" "no_oom s" "disk_rel (fs s) (fst a) (snd a)"
    using assms by (auto simp: node_rel_def)
  then have "tcp_ok pk Receiving rs (fst a) [] {} F s" by (simp add: tcp_ok_def)
  then show run: "run_ok pk F (mem s) a Receiving Starting s Map.empty [] []"
    unfolding run_ok_def using rs(4)
    by (intro conjI exI[of _ "\<lambda>_. NULL"] exI[of _ "{}"] exI[of _ rs] exI[of _ "fst a"] exI[of _ "snd a"])
      (simp_all add: conns_ok_def)
  have "wire_ok pk a (wire s) Receiving [] (wire s) []" unfolding wire_ok_def by (intro exI[of _ "[]"]) simp
  with run show "node_program_ok pk F (mem s) a (wire s) (Run Receiving Starting s Map.empty [])" by auto
qed

lemma started_node: "started st args m s \<Longrightarrow> disk_rel (fs s) [] Map.empty \<Longrightarrow>
    node_rel s [] Map.empty (insert args (insert st (dom m)))"
  by (auto simp: started_def node_rel_def)

lemma started_program:
  assumes "started st args m s" "disk_rel (fs s) [] Map.empty"
  shows "node_program_ok pk (insert args (insert st (dom m))) (mem s) ([], Map.empty) (wire s)
    (Run Receiving Starting s Map.empty [])"
  using start_ok(2)[of s "([], Map.empty)"] started_node[OF assms] by simp

lemma program_end:
  fixes s1 s2 :: "'h tcp_node_scheme"
  assumes start: "started st args m s1" "disk_rel (fs s1) [] Map.empty"
    and len: "packs_to_size ps pk" and mh: "mhd_serves mh" "2 \<le> depth"
    and run: "program_steps unpack ps pk mh depth True (Run Receiving Starting s1 Map.empty []) (Run TcpDone HttpDone s2 conns es)"
    and pre: "admissible event_pre event_spec es ([], Map.empty)"
  shows "\<exists>s3. main_end st args s2 = Inr ((), s3) \<and>
    (\<forall>p. mem s3 p = m p \<or> m p = None \<and> (p = st \<and> mem s3 p = Some StateB \<or> (\<exists>msg. mem s3 p = Some (MsgB (Some msg)))))"
proof -
  let ?F = "insert args (insert st (dom m))"
  have "admissible event_pre event_spec (program_events (Run TcpDone HttpDone s2 conns es)) ([], Map.empty)" using pre by simp
  from program_safe[OF run started_program[OF start] len mh this]
  obtain bs where inv: "run_ok pk ?F (mem s1) ([], Map.empty) TcpDone HttpDone s2 conns es bs" by auto
  then have conns: "conns = Map.empty" by (simp add: run_ok_def)
  from inv obtain L rs cat where rel: "storage_rel s2 rs cat (L \<union> ?F)" and pre: "\<not> locked s2"
    and L: "\<forall>p \<in> L. \<exists>msg. mem s2 p = Some (MsgB (Some msg))" "L \<inter> ?F = {}" and same: "\<forall>p \<in> ?F. mem s2 p = mem s1 p"
    unfolding run_ok_def conns by (auto simp: tcp_ok_def simp del: Un_insert_right)
  have args: "args \<noteq> NULL" "mem s2 args \<noteq> None" "args \<noteq> st" "st \<noteq> NULL"
    using storage_rel_F_old(2)[OF rel] storage_rel_F_dom[OF rel] start(1) by (auto simp: started_def)
  let ?t = "s2\<lparr>mem := (mem s2)(args := None)\<rparr>"
  have rel': "storage_rel ?t rs cat (L \<union> ?F - {args})" using storage_rel_free[OF rel, of args] by simp
  have st: "mem ?t st = Some StateB" using same start(1) args(3) by (simp add: started_def)
  obtain s3 where des: "storage_state_destroy ?t = Inr ((), s3)" and mem3: "mem s3 = mem ?t |` (L \<union> ?F - {args})"
    by (rule storage_state_destroy_run[OF rel']) (use pre in simp)
  have "main_end st args s2 = Inr ((), s3)"
    using args st des by (simp add: main_end_def cbind_def c_free_def load_def)
  moreover have "mem s3 p = m p \<or> m p = None \<and> (p = st \<and> mem s3 p = Some StateB \<or> (\<exists>msg. mem s3 p = Some (MsgB (Some msg))))"
    for p
  proof -
    consider "p \<in> dom m" | "p = st" | "p \<in> L" | "p \<notin> dom m" "p \<notin> L \<union> ?F - {args}" by blast
    then show ?thesis
    proof cases
      case 1
      then have "p \<noteq> args" using start(1) by (auto simp: started_def)
      then show ?thesis using 1 mem3 same start(1) by (simp add: started_def restrict_map_def)
    next
      case 2
      then show ?thesis using mem3 st args start(1) by (auto simp: started_def restrict_map_def)
    next
      case 3
      then have "p \<notin> ?F" using L(2) by blast
      then show ?thesis using 3 mem3 L(1) by (auto simp: restrict_map_def)
    next
      case 4
      then show ?thesis using mem3 by (auto simp: restrict_map_def)
    qed
  qed
  ultimately show ?thesis by blast
qed

section \<open>The program can always be brought to its end\<close>

lemma tcp_to_end:
  assumes ok: "node_program_ok pk F m a w0 (Run t h s conns es)" and told: "stop_told (Run t h s conns es)"
    and len: "packs_to_size ps pk" and mh: "mhd_serves mh" "2 \<le> depth"
    and pre: "admissible event_pre event_spec es a"
    and send: "\<And>e. 3 \<le> steps_left t \<Longrightarrow> prefix e es \<Longrightarrow> can_send s (4 + length (report_of pk a e))"
  shows "\<exists>s'. program_steps unpack ps pk mh depth True (Run t h s conns es) (Run TcpDone h s' conns es) \<and>
    node_program_ok pk F m a w0 (Run TcpDone h s' conns es) \<and> \<not> shouldWork s'"
  using ok told send
proof (induction "steps_left t" arbitrary: t s rule: less_induct)
  case less
  show ?case
  proof (cases "t = TcpDone")
    case True
    then show ?thesis using less.prems by auto
  next
    case t: False
    obtain bs where run: "run_ok pk F m a t h s conns es bs" and w: "wire_ok pk a w0 t bs (wire s) es"
      using less.prems(1) by auto
    obtain t' s' where next_step: "tcp_next unpack ps pk RecvFailed t s = Inr (t', s')"
    proof (cases t)
      case (Sending buf l)
      obtain e0 where "prefix e0 es" "bs = report_of pk a e0" using w Sending unfolding wire_ok_def by auto
      then have "can_send s (4 + length bs)" using less.prems(3) Sending by simp
      then show thesis using run next_sending_all Sending that unfolding run_ok_def by metis
    qed (use run_ok_tcp[OF run len, of unpack RecvFailed] t that in auto)
    have "recv_fits RecvFailed" by (simp add: recv_fits_def)
    then have step: "program_step unpack ps pk mh depth True (Run t h s conns es) (Run t' h s' conns es)"
      using next_step by (rule program_step.tcp)
    have ok': "node_program_ok pk F m a w0 (Run t' h s' conns es)"
      by (rule program_ok_step[OF step less.prems(1) len mh]) (simp add: pre)
    have told': "stop_told (Run t' h s' conns es)" by (rule stop_told_step[OF step less.prems(2)])
    have fewer: "steps_left t' < steps_left t" by (rule tcp_next_closes[OF next_step])
    have "can_send s' (4 + length (report_of pk a e))" if left: "3 \<le> steps_left t'" and e: "prefix e es" for e
    proof -
      have "3 \<le> steps_left t" "\<not> sends t" using left fewer by (cases t; simp)+
      then show ?thesis using less.prems(3)[OF _ e] tcp_next_answers[OF next_step] by (simp add: can_send_def)
    qed
    from less.hyps[OF fewer ok' told' this] step show ?thesis by (meson converse_rtranclp_into_rtranclp)
  qed
qed

text \<open>What the daemon of a run can do next.\<close>

lemma run_daemon_ok:
  assumes "run_ok pk F m a t h s conns es bs"
  shows "\<exists>G. daemon_ok G a (Up s conns es)"
proof -
  obtain B L R rs cat st where a: "fold event_spec es a = (cat, st)"
    and tcp: "tcp_ok pk t rs cat bs R (all_blocks conns B (L \<union> F)) s" and cok: "conns_ok (mem s) conns B (L \<union> F)"
    and disk: "disk_rel (fs s) cat st" and rest: "admissible event_ok event_spec es a"
    using assms unfolding run_ok_def by blast
  have "conns_ok (mem s) conns B (R \<union> (L \<union> F))" using cok tcp by (simp add: tcp_ok_def conns_ok_add)
  moreover have "node_rel s cat st (all_blocks conns B (R \<union> (L \<union> F)))" using tcp disk by (auto simp: tcp_ok_def node_rel_def)
  ultimately have "daemon_ok (R \<union> (L \<union> F)) a (Up s conns es)" using a rest by auto
  then show ?thesis ..
qed

lemma run_call:
  assumes ok: "run_ok pk F m a t Serving s conns es bs" and step: "call_step mh depth (Up s conns es) (Up s' conns' es)"
  shows "program_step unpack ps pk mh depth held (Run t Serving s conns es) (Run t Serving s' conns' es) \<and>
    run_ok pk F m a t Serving s' conns' es bs \<and> net s' = net s"
  using program_step.http_call[OF step] run_ok_call[OF ok step] call_net[OF step] by auto

lemma run_open:
  assumes ok: "run_ok pk F m a t Serving s conns es bs" and n: "conns n = None"
    and k: "h_cls k = NULL" "h_body k = []" "h_answer k = None"
  shows "\<exists>s' con. program_step unpack ps pk mh depth held (Run t Serving s conns es)
      (Run t Serving s' (conns(n \<mapsto> k\<lparr>h_cls := con\<rparr>)) es) \<and>
    run_ok pk F m a t Serving s' (conns(n \<mapsto> k\<lparr>h_cls := con\<rparr>)) es bs \<and> net s' = net s"
proof -
  obtain G where "daemon_ok G a (Up s conns es)" using run_daemon_ok[OF ok] ..
  from can_open[where conns = conns and n = n, OF this n k] show ?thesis using run_call[OF ok] by blast
qed

lemma run_receive:
  assumes ok: "run_ok pk F m a t Serving s conns es bs" and n: "conns n = Some k" "h_answer k = None"
    and k: "h_method k = ''POST''" "bytes \<noteq> []"
  shows "\<exists>s'. program_step unpack ps pk mh depth held (Run t Serving s conns es)
      (Run t Serving s' (conns(n \<mapsto> k\<lparr>h_body := h_body k @ [bytes]\<rparr>)) es) \<and>
    run_ok pk F m a t Serving s' (conns(n \<mapsto> k\<lparr>h_body := h_body k @ [bytes]\<rparr>)) es bs \<and> net s' = net s"
proof -
  obtain G where "daemon_ok G a (Up s conns es)" using run_daemon_ok[OF ok] ..
  from can_receive[where conns = conns and n = n, OF this n k] show ?thesis using run_call[OF ok] by blast
qed

lemma run_answer:
  assumes ok: "run_ok pk F m a t Serving s conns es bs" and n: "conns n = Some k" "h_answer k = None"
    and free: "\<not> mid_report t" and mh: "mhd_serves mh" "2 \<le> depth" and ev: "\<And>t r. events_of k t r = xs"
    and pre: "admissible event_pre event_spec (es @ xs) a"
  shows "\<exists>s' resp. program_step unpack ps pk mh depth held (Run t Serving s conns es)
      (Run t Serving s' (conns(n \<mapsto> k\<lparr>h_answer := Some resp\<rparr>)) (es @ xs)) \<and>
    run_ok pk F m a t Serving s' (conns(n \<mapsto> k\<lparr>h_answer := Some resp\<rparr>)) (es @ xs) bs \<and> net s' = net s"
proof -
  obtain G where G: "daemon_ok G a (Up s conns es)" using run_daemon_ok[OF ok] ..
  have "admissible event_pre event_spec (events_of k (fs s) None) (fold event_spec es a)"
    using pre unfolding ev by (simp add: admissible_append)
  from can_answer[where conns = conns and n = n, OF G n mh this] obtain s' resp where
    step: "answer_step mh depth (Up s conns es) (Up s' (conns(n \<mapsto> k\<lparr>h_answer := Some resp\<rparr>)) (es @ xs))"
    unfolding ev by blast
  have "admissible event_pre event_spec (events (Up s' (conns(n \<mapsto> k\<lparr>h_answer := Some resp\<rparr>)) (es @ xs))) a" using pre by simp
  from run_ok_answer[OF ok step free mh this]
  have "run_ok pk F m a t Serving s' (conns(n \<mapsto> k\<lparr>h_answer := Some resp\<rparr>)) (es @ xs) bs" by auto
  moreover have "program_step unpack ps pk mh depth held (Run t Serving s conns es)
      (Run t Serving s' (conns(n \<mapsto> k\<lparr>h_answer := Some resp\<rparr>)) (es @ xs))"
    using free by (intro program_step.http_answer[OF _ step]) simp
  ultimately show ?thesis using answer_net[OF step] by blast
qed

text \<open>The connections that are still open, one after the other.\<close>

fun finite_conns :: "'n program \<Rightarrow> bool" where
  "finite_conns (Run t h s conns es) \<longleftrightarrow> finite (dom conns)"
| "finite_conns _ \<longleftrightarrow> True"

lemma finite_conns_step: "program_step unpack ps pk mh depth held x y \<Longrightarrow> finite_conns x \<Longrightarrow> finite_conns y"
  by (induction rule: program_step.induct) (auto elim!: call_step.cases answer_step.cases)

lemma finite_conns_steps:
  "program_steps unpack ps pk mh depth held x y \<Longrightarrow> finite_conns x \<Longrightarrow> finite_conns y"
  by (induction rule: rtranclp_induct) (use finite_conns_step in blast)+

lemma run_close:
  assumes ok: "run_ok pk F m a t Serving s conns es bs" and n: "conns n = Some k"
  shows "\<exists>s'. program_step unpack ps pk mh depth held (Run t Serving s conns es) (Run t Serving s' (conns(n := None)) es) \<and>
    run_ok pk F m a t Serving s' (conns(n := None)) es bs \<and> net s' = net s"
proof -
  obtain G where G: "daemon_ok G a (Up s conns es)" using run_daemon_ok[OF ok] ..
  obtain cat st where a: "fold event_spec es a = (cat, st)" by force
  obtain rs d A where srv: "serving s rs cat (h_cls k) d (concat (h_body k)) A" by (rule ok_serving[OF G n a])
  obtain s' where "request_completed (h_cls k) s = Inr (NULL, s')" by (rule request_completed_run[OF srv])
  from run_call[OF ok call_step.closed[where conns = conns and n = n, OF n this]] show ?thesis by blast
qed

lemma close_all:
  assumes "finite D" "dom conns = D" "run_ok pk F m a t Serving s conns es bs"
  shows "\<exists>s'. program_steps unpack ps pk mh depth held (Run t Serving s conns es) (Run t Serving s' Map.empty es) \<and>
    net s' = net s"
  using assms
proof (induction D arbitrary: conns s rule: finite_induct)
  case empty
  then show ?case by auto
next
  case (insert n D)
  then obtain k where n: "conns n = Some k" by blast
  obtain s1 where one: "program_step unpack ps pk mh depth held (Run t Serving s conns es) (Run t Serving s1 (conns(n := None)) es)"
    and ok1: "run_ok pk F m a t Serving s1 (conns(n := None)) es bs" and net1: "net s1 = net s"
    using run_close[where unpack = unpack and ps = ps and mh = mh and depth = depth and held = held, OF insert.prems(2) n] by blast
  have "dom (conns(n := None)) = D" using insert.prems(1) insert.hyps(2) by auto
  from insert.IH[OF this ok1] one net1 show ?case by (metis converse_rtranclp_into_rtranclp)
qed

lemma program_can_end:
  assumes ok: "node_program_ok pk F m a w0 (Run t h s conns es)" and told: "stop_told (Run t h s conns es)"
    and fin: "finite (dom conns)" and len: "packs_to_size ps pk" and mh: "mhd_serves mh" "2 \<le> depth"
    and pre: "admissible event_pre event_spec es a"
    and send: "\<And>e. prefix e es \<Longrightarrow> can_send s (4 + length (report_of pk a e))"
  shows "\<exists>s'. program_steps unpack ps pk mh depth True (Run t h s conns es) (Run TcpDone HttpDone s' Map.empty es)"
proof -
  obtain s1 where tcp: "program_steps unpack ps pk mh depth True (Run t h s conns es) (Run TcpDone h s1 conns es)"
    and ok1: "node_program_ok pk F m a w0 (Run TcpDone h s1 conns es)" and work: "\<not> shouldWork s1"
    using tcp_to_end[OF ok told len mh pre send] by blast
  then obtain bs where run: "run_ok pk F m a TcpDone h s1 conns es bs" by auto
  have "\<exists>s'. program_steps unpack ps pk mh depth True (Run TcpDone h s1 conns es) (Run TcpDone HttpDone s' Map.empty es)"
  proof (cases h)
    case Starting
    then have "conns = Map.empty" using run by (simp add: run_ok_def)
    then show ?thesis using program_step.http_no_daemon Starting by blast
  next
    case Serving
    obtain s2 where close: "program_steps unpack ps pk mh depth True (Run TcpDone Serving s1 conns es) (Run TcpDone Serving s2 Map.empty es)"
      and net: "net s2 = net s1" using close_all[OF fin refl run[unfolded Serving]] by blast
    have "\<not> shouldWork s2" using net_flag(1)[OF net] work by simp
    then have "program_step unpack ps pk mh depth True (Run TcpDone Serving s2 Map.empty es)
        (Run TcpDone HttpDone (s2\<lparr>shouldWork := False\<rparr>) Map.empty es)" by (rule program_step.http_end)
    then show ?thesis using close Serving by (meson rtranclp.rtrancl_into_rtrancl)
  next
    case HttpDone
    then have "conns = Map.empty" using run by (simp add: run_ok_def)
    then show ?thesis using HttpDone by blast
  qed
  then show ?thesis using tcp by (meson rtranclp_trans)
qed

section \<open>The program as it is\<close>

text \<open>A report that has lost the name of one of its files.\<close>

lemma pack_freed:
  assumes snap: "snapshot_ok (mem s) arr fms [r]" and gone: "mem s (file_path r) = None" and live: "file_path r \<noteq> NULL"
  shows "tcp_next unpack ps pk a (Snapped arr 1) s = Inl UseAfterFree"
proof -
  have "load_str (file_path r) s = Inl UseAfterFree" using gone live by (simp add: load_str_def load_def cbind_def)
  then have "read_mapping_at arr 0 s = Inl UseAfterFree"
    using snapshot_at[OF snap, of 0] by (simp add: read_mapping_at_def cbind_def mapping_of_def)
  then show ?thesis by (simp add: pack_mappings_def read_health_def cbind_def)
qed

definition upload_conn :: "string \<Rightarrow> int \<Rightarrow> http_conn" where
  "upload_conn f c = \<lparr>h_headers = [''X-Filename'' \<mapsto> f, ''X-Chunk-ID'' \<mapsto> show_int c], h_url = ''/new-chunk'',
     h_method = ''POST'', h_cls = NULL, h_body = [], h_answer = None\<rparr>"

definition delete_conn :: "string \<Rightarrow> http_conn" where
  "delete_conn f = \<lparr>h_headers = [''X-Filename'' \<mapsto> f], h_url = ''/remove-file'',
     h_method = ''DELETE'', h_cls = NULL, h_body = [], h_answer = None\<rparr>"

lemma upload_conn_fields [simp]:
  "h_cls (upload_conn f c) = NULL" "h_body (upload_conn f c) = []" "h_answer (upload_conn f c) = None"
  "h_method (upload_conn f c) = ''POST''" "h_url (upload_conn f c) = ''/new-chunk''"
  "h_cls (delete_conn f) = NULL" "h_body (delete_conn f) = []" "h_answer (delete_conn f) = None"
  by (simp_all add: upload_conn_def delete_conn_def)

lemma upload_conn_events:
  "in_int c \<Longrightarrow> h_headers k = h_headers (upload_conn f c) \<Longrightarrow> h_url k = ''/new-chunk'' \<Longrightarrow> h_method k = ''POST'' \<Longrightarrow>
   concat (h_body k) \<noteq> [] \<Longrightarrow> events_of k t r = [Stored f c (concat (h_body k))]"
  by (simp add: events_of_def upload_conn_def)

lemma delete_conn_events: "events_of (delete_conn f\<lparr>h_cls := con\<rparr>) t r = [Deleted f]"
  by (simp add: events_of_def delete_conn_def)

text \<open>
  A node with one file: a deletion of it, with all its calls, between the two phases of a
  report, and the report reads freed memory.
\<close>

lemma delete_during_report:
  fixes s :: "'h tcp_node_scheme"
  assumes ok: "run_ok pk F m a Decoded Serving s conns es bs" and a: "fold event_spec es a = ([(f, ids)], st)"
    and mh: "mhd_serves mh" "2 \<le> depth" and free: "conns n = None" and name: "simple_name f"
  shows "program_steps unpack ps pk mh depth False (Run Decoded Serving s conns es) (Crashed UseAfterFree (es @ [Deleted f]))"
proof -
  let ?cat = "[(f, ids)]" and ?k = "delete_conn f"
  obtain B L R rs where "tcp_ok pk Decoded rs ?cat bs R (all_blocks conns B (L \<union> F)) s" and cok: "conns_ok (mem s) conns B (L \<union> F)"
    and disk: "disk_rel (fs s) ?cat st"
    using ok a unfolding run_ok_def by auto
  from next_decoded[OF this(1)] obtain arr s1 R1 where
    snap: "\<And>x. tcp_next unpack ps pk x Decoded s = Inr (Snapped arr 1, s1)"
    and tcp1: "tcp_ok pk (Snapped arr 1) rs ?cat bs R1 (all_blocks conns B (L \<union> F)) s1"
    and fr1: "hframe (all_blocks conns B (L \<union> F)) s s1" by force
  from tcp1 obtain fms where R1: "R1 = snapshot_blocks arr fms" "snapshot_ok (mem s1) arr fms rs"
    and sr1: "storage_rel s1 rs ?cat (R1 \<union> all_blocks conns B (L \<union> F))" and pre1: "\<not> locked s1" "no_oom s1"
    and dis: "R1 \<inter> all_blocks conns B (L \<union> F) = {}" by (auto simp: tcp_ok_def)
  have "length rs = 1" using storage_rel_length[OF sr1] by simp
  then obtain r where rs: "rs = [r]" by (cases rs) auto
  let ?A = "R1 \<union> all_blocks conns B (L \<union> F)"
  have disk1: "disk_rel (fs s1) ?cat st" using disk fs_frame[OF fr1] by simp
  have k: "h_cls ?k = NULL" by simp
  obtain con s2 where call: "conn_call mh depth ?k [] s1
      = Inr (\<lparr>mhd_yes = True, con_cls = con, upload_left = 0, queued = None\<rparr>, s2)"
    and srv: "serving s2 rs ?cat con NULL [] ?A" and fr2: "hframe ?A s1 s2" and fs2: "fs s2 = fs s1"
    by (rule open_call[OF sr1 pre1(2) k])
  let ?k2 = "?k\<lparr>h_cls := con\<rparr>"
  have pre2: "\<not> locked s2" "no_oom s2" using pre1 fr2 by (simp_all add: hframe_def no_oom_def)
  have srv2: "serving s2 rs ?cat (h_cls ?k2) NULL (concat (h_body ?k2)) ?A" using srv by simp
  have disk2: "disk_rel (fs s2) ?cat st" using disk1 fs2 by simp
  have adm: "admissible event_pre event_spec (events_of ?k2 (fs s2) None) (?cat, st)"
    using name by (simp add: delete_conn_events)
  obtain rs' s3 cat' st' h where last: "conn_call mh depth ?k2 [] s2 = Inr (h, s3)"
    and srv3: "serving s3 rs' cat' (h_cls ?k2) NULL (concat (h_body ?k2)) ?A"
    and fr3: "hframe (conn_blocks (h_cls ?k2) NULL \<union> ?A) (s2\<lparr>fs := fs s3\<rparr>) s3"
    and ev: "fold event_spec (events_of ?k2 (fs s3) (queued h)) (?cat, st) = (cat', st')"
    by (rule last_call[OF srv2 pre2 disk2 mh adm])
  have "cat' = []" using ev by (simp add: delete_conn_events spec_delete_def)
  then have sr3: "storage_rel s3 [] [] (conn_blocks con NULL \<union> ?A)"
    using servingD(1)[OF srv3] storage_rel_length[OF servingD(1)[OF srv3]] by simp
  have owned: "file_path r \<in> set (owned (file_to_chunk_state s2) rs)" using rs by (simp add: owned_def ptrs_of_def rec_ptrs_def)
  have sr2: "storage_rel s2 rs ?cat (conn_blocks con NULL \<union> ?A)" by (rule servingD(1)[OF srv])
  then have "file_path r \<notin> conn_blocks con NULL \<union> ?A" using owned unfolding storage_rel_def by blast
  moreover have "dom (mem s3) = set (owned (file_to_chunk_state s3) []) \<union> (conn_blocks con NULL \<union> ?A)"
    using sr3 unfolding storage_rel_def by blast
  moreover have "set (owned (file_to_chunk_state s3) []) = {}" using sr3 by (auto simp: storage_rel_def base_ok_def owned_def ptrs_of_def)
  ultimately have "file_path r \<notin> dom (mem s3)" by simp
  then have gone: "mem s3 (file_path r) = None" by (simp add: domIff)
  have live: "file_path r \<noteq> NULL" using storage_rel_live[OF sr2 UnI1[OF owned]] by simp
  have "mem s3 p = mem s1 p" if "p \<in> R1" for p using fr2 fr3 that by (simp add: hframe_def)
  then have "snapshot_ok (mem s3) arr fms [r]" using snapshot_ok_cong[OF _ R1(2)] R1(1) rs by simp
  note crash = pack_freed[OF this gone live, of unpack ps pk]
  have "recv_fits RecvFailed" by (simp add: recv_fits_def)
  then have "program_step unpack ps pk mh depth False (Run Decoded Serving s conns es) (Run (Snapped arr 1) Serving s1 conns es)"
    using snap by (rule program_step.tcp)
  moreover have "call_step mh depth (Up s1 conns es) (Up s2 (conns(n \<mapsto> ?k2)) es)"
    using call_step.opened[where conns = conns and n = n, OF free k _ _ call] by simp
  then have "program_step unpack ps pk mh depth False (Run (Snapped arr 1) Serving s1 conns es)
      (Run (Snapped arr 1) Serving s2 (conns(n \<mapsto> ?k2)) es)" by (rule program_step.http_call)
  moreover have "answer_step mh depth (Up s2 (conns(n \<mapsto> ?k2)) es)
      (Up s3 (conns(n \<mapsto> ?k2\<lparr>h_cls := con_cls h, h_answer := Some (queued h)\<rparr>)) (es @ [Deleted f]))"
    using answer_step.answered[where conns = "conns(n \<mapsto> ?k2)" and n = n and es = es, OF _ _ last]
    by (simp add: delete_conn_events)
  then have "program_step unpack ps pk mh depth False (Run (Snapped arr 1) Serving s2 (conns(n \<mapsto> ?k2)) es)
      (Run (Snapped arr 1) Serving s3 (conns(n \<mapsto> ?k2\<lparr>h_cls := con_cls h, h_answer := Some (queued h)\<rparr>)) (es @ [Deleted f]))"
    by (intro program_step.http_answer) simp_all
  moreover have "program_step unpack ps pk mh depth False
      (Run (Snapped arr 1) Serving s3 (conns(n \<mapsto> ?k2\<lparr>h_cls := con_cls h, h_answer := Some (queued h)\<rparr>)) (es @ [Deleted f]))
      (Crashed UseAfterFree (es @ [Deleted f]))"
    using crash by (intro program_step.tcp_crash[of RecvFailed]) (simp_all add: recv_fits_def)
  ultimately show ?thesis by (meson converse_rtranclp_into_rtranclp rtranclp.rtrancl_refl)
qed

text \<open>The link takes a message, takes its snapshot, and sends its report.\<close>

lemma run_next:
  assumes ok: "run_ok pk F m a t h s conns es bs" and len: "packs_to_size ps pk" and x: "recv_fits x"
    and step: "tcp_next unpack ps pk x t s = Inr (t', s')"
  shows "program_step unpack ps pk mh depth held (Run t h s conns es) (Run t' h s' conns es)"
    "\<exists>bs' out. run_ok pk F m a t' h s' conns es bs' \<and> wire s' = wire s @ out \<and> sent_by t bs t' out \<and>
       (packed t' \<longrightarrow> bs' = (if packed t then bs else report_of pk a es))"
  using program_step.tcp[OF x step] run_ok_tcp[OF ok len, of unpack x] step by auto

lemma run_link: "run_ok pk F m a t h s conns es bs \<Longrightarrow> \<exists>rs cat R X. tcp_ok pk t rs cat bs R X s"
  unfolding run_ok_def by blast

lemma closes_fits: "recv_fits RecvFailed"
  by (simp add: recv_fits_def)

lemma run_message:
  assumes ok: "run_ok pk F m a Receiving h s conns es bs" and work: "shouldWork s" and len: "packs_to_size ps pk"
    and buf: "buffer \<noteq> []" "length buffer < 1024" "unpack (take (length buffer - 1) buffer) = Some x"
  shows "\<exists>s' bs'. program_steps unpack ps pk mh depth held (Run Receiving h s conns es) (Run Decoded h s' conns es) \<and>
    run_ok pk F m a Decoded h s' conns es bs' \<and> net s' = net s"
proof -
  have one: "tcp_next unpack ps pk RecvFailed Receiving s = Inr (Waiting, s)" using work by (simp add: cbind_def)
  from run_next(2)[OF ok len closes_fits this] obtain bs1 where ok1: "run_ok pk F m a Waiting h s conns es bs1" by blast
  then obtain rs cat R X where tcp: "tcp_ok pk Waiting rs cat bs1 R X s" using run_link by blast
  have fits: "recv_fits (Received buffer)" using buf(2) by (simp add: recv_fits_def)
  obtain s' where two: "tcp_next unpack ps pk (Received buffer) Waiting s = Inr (Decoded, s')"
    using next_received[OF tcp, of unpack buffer, OF buf(3,1)] by blast
  from run_next(2)[OF ok1 len fits this] obtain bs' where ok2: "run_ok pk F m a Decoded h s' conns es bs'" by blast
  obtain q where "unpack_message unpack (take (length buffer - 1) buffer) s = Inr (q, s')"
    using two buf(1) by (auto simp: cbind_def stop_working_def split: sum.splits if_splits)
  then have "net s' = net s" using keepsD[OF keeps_net[OF keeps_unpack]] by blast
  then show ?thesis using ok2 run_next(1)[OF ok len closes_fits one] run_next(1)[OF ok1 len fits two]
    by (meson converse_rtranclp_into_rtranclp rtranclp.rtrancl_refl)
qed

lemma run_snapshot:
  assumes ok: "run_ok pk F m a Decoded h s conns es bs" and len: "packs_to_size ps pk"
  shows "\<exists>s' bs' arr n. program_step unpack ps pk mh depth held (Run Decoded h s conns es) (Run (Snapped arr n) h s' conns es) \<and>
    run_ok pk F m a (Snapped arr n) h s' conns es bs' \<and> net s' = net s"
proof -
  obtain rs cat R X where "tcp_ok pk Decoded rs cat bs R X s" using run_link[OF ok] by blast
  from next_decoded[OF this] obtain arr s' where
    step: "tcp_next unpack ps pk RecvFailed Decoded s = Inr (Snapped arr (length cat), s')" by metis
  from run_next(2)[OF ok len closes_fits this] obtain bs' where
    "run_ok pk F m a (Snapped arr (length cat)) h s' conns es bs'" by blast
  moreover have "snapshot_mappings s = Inr ((arr, length cat), s')"
    using step by (auto simp: cbind_def split: sum.splits)
  then have "net s' = net s" using keepsD[OF keeps_net[OF keeps_report(1)]] by blast
  ultimately show ?thesis using run_next(1)[OF ok len closes_fits step] by blast
qed

lemma run_report:
  assumes ok: "run_ok pk F m a (Snapped arr n) h s conns es bs" and len: "packs_to_size ps pk"
    and send: "can_send s (4 + length (report_of pk a es))"
  shows "\<exists>s' bs'. program_steps unpack ps pk mh depth held (Run (Snapped arr n) h s conns es) (Run Receiving h s' conns es) \<and>
    run_ok pk F m a Receiving h s' conns es bs' \<and> wire s' = wire s @ frame (report_of pk a es)"
proof -
  let ?bs = "report_of pk a es"
  obtain rs cat R X where tcp: "tcp_ok pk (Snapped arr n) rs cat bs R X s" using run_link[OF ok] by blast
  obtain buf l s1 where one: "tcp_next unpack ps pk RecvFailed (Snapped arr n) s = Inr (Packed arr buf l, s1)"
    using next_snapped[OF tcp len] by metis
  from run_next(2)[OF ok len closes_fits this] have ok1: "run_ok pk F m a (Packed arr buf l) h s1 conns es ?bs"
    and w1: "wire s1 = wire s" by auto
  obtain rs cat R X where tcp1: "tcp_ok pk (Packed arr buf l) rs cat ?bs R X s1" using run_link[OF ok1] by blast
  obtain s2 where two: "tcp_next unpack ps pk RecvFailed (Packed arr buf l) s1 = Inr (Sending buf l, s2)"
    using next_packed[OF tcp1] by metis
  from run_next(2)[OF ok1 len closes_fits this] have ok2: "run_ok pk F m a (Sending buf l) h s2 conns es ?bs"
    and w2: "wire s2 = wire s1" by auto
  have "send_answers s2 = send_answers s" using tcp_next_answers[OF one] tcp_next_answers[OF two] by simp
  then have send2: "can_send s2 (4 + length ?bs)" using send by (simp add: can_send_def)
  obtain rs cat R X where tcp2: "tcp_ok pk (Sending buf l) rs cat ?bs R X s2" using run_link[OF ok2] by blast
  obtain s3 where three: "tcp_next unpack ps pk RecvFailed (Sending buf l) s2 = Inr (Receiving, s3)"
    using next_sending_all[OF tcp2 send2] by blast
  from run_next(2)[OF ok2 len closes_fits this] obtain bs' where ok3: "run_ok pk F m a Receiving h s3 conns es bs'"
    and w3: "wire s3 = wire s2 @ frame ?bs" by auto
  show ?thesis
    using run_next(1)[OF ok len closes_fits one] run_next(1)[OF ok1 len closes_fits two]
      run_next(1)[OF ok2 len closes_fits three] ok3 w1 w2 w3
    by (metis (no_types, lifting) converse_rtranclp_into_rtranclp rtranclp.rtrancl_refl)
qed

text \<open>One upload over its connection.\<close>

lemma run_upload:
  assumes ok: "run_ok pk F m a t Serving s conns es bs" and n: "conns n = None" and c: "in_int c" and bytes: "bytes \<noteq> []"
    and free: "\<not> mid_report t" and mh: "mhd_serves mh" "2 \<le> depth"
    and pre: "admissible event_pre event_spec (es @ [Stored f c bytes]) a"
  shows "\<exists>s' k. program_steps unpack ps pk mh depth held (Run t Serving s conns es)
      (Run t Serving s' (conns(n \<mapsto> k)) (es @ [Stored f c bytes])) \<and>
    run_ok pk F m a t Serving s' (conns(n \<mapsto> k)) (es @ [Stored f c bytes]) bs \<and> net s' = net s"
proof -
  let ?k = "upload_conn f c"
  obtain s1 con where 1: "program_step unpack ps pk mh depth held (Run t Serving s conns es)
      (Run t Serving s1 (conns(n \<mapsto> ?k\<lparr>h_cls := con\<rparr>)) es)"
    and ok1: "run_ok pk F m a t Serving s1 (conns(n \<mapsto> ?k\<lparr>h_cls := con\<rparr>)) es bs" and w1: "net s1 = net s"
    using run_open[where unpack = unpack and ps = ps and mh = mh and depth = depth and held = held, OF ok n, of ?k] by auto
  let ?k1 = "?k\<lparr>h_cls := con\<rparr>" and ?k2 = "?k\<lparr>h_cls := con, h_body := [bytes]\<rparr>"
  obtain s2 where 2: "program_step unpack ps pk mh depth held (Run t Serving s1 (conns(n \<mapsto> ?k1)) es)
      (Run t Serving s2 (conns(n \<mapsto> ?k2)) es)"
    and ok2: "run_ok pk F m a t Serving s2 (conns(n \<mapsto> ?k2)) es bs" and w2: "net s2 = net s1"
    using run_receive[where unpack = unpack and ps = ps and mh = mh and depth = depth and held = held, OF ok1, of n ?k1 bytes] bytes by auto
  have ev: "events_of ?k2 t r = [Stored f c bytes]" for t r
    using upload_conn_events[OF c, of ?k2 f] bytes by simp
  obtain s3 resp where 3: "program_step unpack ps pk mh depth held (Run t Serving s2 (conns(n \<mapsto> ?k2)) es)
      (Run t Serving s3 (conns(n \<mapsto> ?k2\<lparr>h_answer := Some resp\<rparr>)) (es @ [Stored f c bytes]))"
    and ok3: "run_ok pk F m a t Serving s3 (conns(n \<mapsto> ?k2\<lparr>h_answer := Some resp\<rparr>)) (es @ [Stored f c bytes]) bs"
    and w3: "net s3 = net s2"
    using run_answer[where unpack = unpack and ps = ps and held = held,
        OF ok2, of n ?k2 mh depth "[Stored f c bytes]"] ev free mh pre by auto
  from 1 2 3 have "program_steps unpack ps pk mh depth held (Run t Serving s conns es)
      (Run t Serving s3 (conns(n \<mapsto> ?k2\<lparr>h_answer := Some resp\<rparr>)) (es @ [Stored f c bytes]))"
    by (meson converse_rtranclp_into_rtranclp rtranclp.rtrancl_refl)
  then show ?thesis using ok3 w1 w2 w3 by auto
qed

text \<open>From a node that has just started: one upload, then its deletion during a report.\<close>

lemma fresh_node_race:
  fixes s :: "'h tcp_node_scheme"
  assumes rel: "node_rel s [] Map.empty F" and work: "shouldWork s" and len: "packs_to_size ps pk"
    and mh: "mhd_serves mh" "2 \<le> depth"
    and buf: "buffer \<noteq> []" "length buffer < 1024" "unpack (take (length buffer - 1) buffer) = Some msg"
  shows "program_steps unpack ps pk mh depth False (Run Receiving Starting s Map.empty [])
    (Crashed UseAfterFree [Stored ''a'' 1 [7], Deleted ''a''])"
proof -
  let ?a = "([], Map.empty) :: catalogue \<times> store"
  have ok: "run_ok pk F (mem s) ?a Receiving Serving s Map.empty [] []"
    by (rule run_ok_http[OF start_ok(1)]) (use rel in simp_all)
  have small: "in_int 1" "simple_name ''a''" "cat_bounded []"
    by (simp_all add: in_int_def int_max_def int_min_def simple_name_def proper_name_def cat_bounded_def)
  have adm: "admissible event_pre event_spec ([] @ [Stored ''a'' 1 [7]]) ?a" using small by (simp add: serial_def)
  obtain s1 k where up: "program_steps unpack ps pk mh depth False (Run Receiving Serving s Map.empty [])
      (Run Receiving Serving s1 [0 \<mapsto> k] [Stored ''a'' 1 [7]])"
    and ok1: "run_ok pk F (mem s) ?a Receiving Serving s1 [0 \<mapsto> k] [Stored ''a'' 1 [7]] []"
    and net: "net s1 = net s"
    using run_upload[where unpack = unpack and ps = ps and held = False, OF ok _ small(1) _ _ mh adm, of 0] by auto
  have "shouldWork s1" using net_flag(1)[OF net] work by simp
  from run_message[where buffer = buffer and unpack = unpack and mh = mh and depth = depth and held = False,
      OF ok1 this len buf]
  obtain s2 bs where msg: "program_steps unpack ps pk mh depth False (Run Receiving Serving s1 [0 \<mapsto> k] [Stored ''a'' 1 [7]])
      (Run Decoded Serving s2 [0 \<mapsto> k] [Stored ''a'' 1 [7]])"
    and ok2: "run_ok pk F (mem s) ?a Decoded Serving s2 [0 \<mapsto> k] [Stored ''a'' 1 [7]] bs" by blast
  have "fold event_spec [Stored ''a'' 1 [7]] ?a = ([(''a'', [1])], [(''a'', 1) \<mapsto> [7]])"
    by (simp add: spec_upload_def cat_insert_def)
  from delete_during_report[OF ok2 this mh, of 1] small(2)
  have "program_steps unpack ps pk mh depth False (Run Decoded Serving s2 [0 \<mapsto> k] [Stored ''a'' 1 [7]])
      (Crashed UseAfterFree ([Stored ''a'' 1 [7]] @ [Deleted ''a'']))" by simp
  moreover have "program_step unpack ps pk mh depth False (Run Receiving Starting s Map.empty []) (Run Receiving Serving s Map.empty [])"
    by (rule program_step.http_begin)
  ultimately show ?thesis using up msg by (metis (no_types, lifting) append_Cons append_Nil converse_rtranclp_into_rtranclp rtranclp_trans)
qed

end
