(* ===== verification/Example_Program.thy ===== *)
theory Example_Program
  imports Example_Cluster Node_Program
begin

text \<open>
  A run in which a body arrives while a report is being made: a chunk of one file is stored,
  the link takes its snapshot, a chunk of another file comes in, the report goes out, and the
  second chunk is stored after it.
\<close>

definition busy_events :: "event list" where
  "busy_events = [Stored ''a'' 1 [7], Stored ''b'' 1 [9]]"

lemma busy_admissible: "admissible event_pre event_spec busy_events ([], Map.empty)"
  by (simp add: busy_events_def cat_bounded_def int_max_def serial_def spec_upload_def cat_insert_def)

lemma half_run:
  fixes s :: "'h tcp_node_scheme"
  assumes rel: "node_rel s [] Map.empty F" and work: "shouldWork s" and len: "packs_to_size ps pk"
    and mh: "mhd_serves mh" "2 \<le> depth" and msg: "unpack (take (length buffer - 1) buffer) = Some x"
    and buf: "buffer \<noteq> []" "length buffer < 1024"
  shows "\<exists>s' k con arr n bs. program_steps unpack ps pk mh depth held (Run Receiving Starting s Map.empty [])
      (Run (Snapped arr n) Serving s' [0 \<mapsto> k, 1 \<mapsto> upload_conn ''b'' 1\<lparr>h_cls := con, h_body := [[9]]\<rparr>] [Stored ''a'' 1 [7]]) \<and>
    run_ok pk F (mem s) ([], Map.empty) (Snapped arr n) Serving s'
      [0 \<mapsto> k, 1 \<mapsto> upload_conn ''b'' 1\<lparr>h_cls := con, h_body := [[9]]\<rparr>] [Stored ''a'' 1 [7]] bs \<and> net s' = net s"
proof -
  let ?a = "([], Map.empty) :: catalogue \<times> store"
  let ?es = "[Stored ''a'' 1 [7]]"
  have ok: "run_ok pk F (mem s) ?a Receiving Serving s Map.empty [] []"
    by (rule run_ok_http[OF start_ok(1)]) (use rel in simp_all)
  have small: "in_int 1" "[7] \<noteq> ([] :: byte list)" "[9] \<noteq> ([] :: byte list)" by simp_all
  have adm: "admissible event_pre event_spec ([] @ ?es) ?a"
    using busy_admissible by (simp_all add: busy_events_def)
  obtain s1 k bs1 where 1: "program_steps unpack ps pk mh depth held (Run Receiving Serving s Map.empty [])
      (Run Receiving Serving s1 [0 \<mapsto> k] ?es)"
    and ok1: "run_ok pk F (mem s) ?a Receiving Serving s1 [0 \<mapsto> k] ?es bs1" and net1: "net s1 = net s"
    using run_upload[where unpack = unpack and ps = ps and held = held, OF ok _ small(1,2) _ mh adm(1), of 0] by auto
  have work1: "shouldWork s1" using net_flag(1)[OF net1] work by simp
  obtain s2 bs2 where 2: "program_steps unpack ps pk mh depth held (Run Receiving Serving s1 [0 \<mapsto> k] ?es)
      (Run Decoded Serving s2 [0 \<mapsto> k] ?es)"
    and ok2: "run_ok pk F (mem s) ?a Decoded Serving s2 [0 \<mapsto> k] ?es bs2" and net2: "net s2 = net s1"
    using run_message[where buffer = buffer and unpack = unpack and mh = mh and depth = depth and held = held,
        OF ok1 work1 len buf msg] by blast
  obtain s3 bs3 arr n where 3: "program_step unpack ps pk mh depth held (Run Decoded Serving s2 [0 \<mapsto> k] ?es)
      (Run (Snapped arr n) Serving s3 [0 \<mapsto> k] ?es)"
    and ok3: "run_ok pk F (mem s) ?a (Snapped arr n) Serving s3 [0 \<mapsto> k] ?es bs3" and net3: "net s3 = net s2"
    using run_snapshot[where unpack = unpack and mh = mh and depth = depth and held = held, OF ok2 len] by blast
  let ?k1 = "upload_conn ''b'' 1"
  obtain s4 con where 4: "program_step unpack ps pk mh depth held (Run (Snapped arr n) Serving s3 [0 \<mapsto> k] ?es)
      (Run (Snapped arr n) Serving s4 [0 \<mapsto> k, 1 \<mapsto> ?k1\<lparr>h_cls := con\<rparr>] ?es)"
    and ok4: "run_ok pk F (mem s) ?a (Snapped arr n) Serving s4 [0 \<mapsto> k, 1 \<mapsto> ?k1\<lparr>h_cls := con\<rparr>] ?es bs3"
    and net4: "net s4 = net s3"
    using run_open[where unpack = unpack and ps = ps and mh = mh and depth = depth and held = held,
        OF ok3, of 1 ?k1] by auto
  let ?k2 = "?k1\<lparr>h_cls := con, h_body := [[9]]\<rparr>"
  obtain s5 where 5: "program_step unpack ps pk mh depth held
      (Run (Snapped arr n) Serving s4 [0 \<mapsto> k, 1 \<mapsto> ?k1\<lparr>h_cls := con\<rparr>] ?es)
      (Run (Snapped arr n) Serving s5 [0 \<mapsto> k, 1 \<mapsto> ?k2] ?es)"
    and ok5: "run_ok pk F (mem s) ?a (Snapped arr n) Serving s5 [0 \<mapsto> k, 1 \<mapsto> ?k2] ?es bs3" and net5: "net s5 = net s4"
    using run_receive[where unpack = unpack and ps = ps and mh = mh and depth = depth and held = held,
        OF ok4, of 1 "?k1\<lparr>h_cls := con\<rparr>" "[9]"] by auto
  let ?R = "program_step unpack ps pk mh depth held"
  have begin_step: "?R (Run Receiving Starting s Map.empty []) (Run Receiving Serving s Map.empty [])"
    by (rule program_step.http_begin)
  have one: "?R\<^sup>*\<^sup>* u v" if "?R u v" for u v using that by (rule r_into_rtranclp)
  have trans: "?R\<^sup>*\<^sup>* u w" if "?R\<^sup>*\<^sup>* u v" "?R\<^sup>*\<^sup>* v w" for u v w using that by (rule rtranclp_trans)
  note upto3 = trans[OF trans[OF trans[OF one[OF begin_step] 1] 2] one[OF 3]]
  note all = trans[OF trans[OF upto3 one[OF 4]] one[OF 5]]
  have "net s5 = net s" using net1 net2 net3 net4 net5 by simp
  then show ?thesis using all ok5 by blast
qed

lemma busy_run:
  fixes s :: "'h tcp_node_scheme"
  assumes rel: "node_rel s [] Map.empty F" and work: "shouldWork s" and len: "packs_to_size ps pk"
    and mh: "mhd_serves mh" "2 \<le> depth" and msg: "unpack (take (length buffer - 1) buffer) = Some x"
    and buf: "buffer \<noteq> []" "length buffer < 1024"
    and send: "can_send s (4 + length (report_of pk ([], Map.empty) [Stored ''a'' 1 [7]]))"
  shows "\<exists>s' conns. program_steps unpack ps pk mh depth held (Run Receiving Starting s Map.empty [])
      (Run Receiving Serving s' conns busy_events) \<and>
    wire s' = wire s @ frame (report_of pk ([], Map.empty) [Stored ''a'' 1 [7]])"
proof -
  let ?a = "([], Map.empty) :: catalogue \<times> store"
  let ?es = "[Stored ''a'' 1 [7]]"
  have adm: "admissible event_pre event_spec (?es @ [Stored ''b'' 1 [9]]) ?a"
    using busy_admissible by (simp add: busy_events_def)
  obtain s5 k con arr n bs where run: "program_steps unpack ps pk mh depth held (Run Receiving Starting s Map.empty [])
      (Run (Snapped arr n) Serving s5 [0 \<mapsto> k, 1 \<mapsto> upload_conn ''b'' 1\<lparr>h_cls := con, h_body := [[9]]\<rparr>] ?es)"
    and ok5: "run_ok pk F (mem s) ?a (Snapped arr n) Serving s5
      [0 \<mapsto> k, 1 \<mapsto> upload_conn ''b'' 1\<lparr>h_cls := con, h_body := [[9]]\<rparr>] ?es bs" and net: "net s5 = net s"
    using half_run[where buffer = buffer and unpack = unpack and mh = mh and depth = depth and held = held,
        OF rel work len mh msg buf] by blast
  let ?k2 = "upload_conn ''b'' 1\<lparr>h_cls := con, h_body := [[9]]\<rparr>"
  have "can_send s5 (4 + length (report_of pk ?a ?es))" using send net_flag(3)[OF net] by (simp add: can_send_def)
  from run_report[where unpack = unpack and mh = mh and depth = depth and held = held, OF ok5 len this]
  obtain s6 bs6 where 6: "program_steps unpack ps pk mh depth held (Run (Snapped arr n) Serving s5 [0 \<mapsto> k, 1 \<mapsto> ?k2] ?es)
      (Run Receiving Serving s6 [0 \<mapsto> k, 1 \<mapsto> ?k2] ?es)"
    and ok6: "run_ok pk F (mem s) ?a Receiving Serving s6 [0 \<mapsto> k, 1 \<mapsto> ?k2] ?es bs6"
    and w6: "wire s6 = wire s5 @ frame (report_of pk ?a ?es)" by blast
  have ev: "events_of ?k2 t r = [Stored ''b'' 1 [9]]" for t r
    using upload_conn_events[OF in_int_small(1), of ?k2 "''b''"] by simp
  obtain s7 resp where 7: "program_step unpack ps pk mh depth held (Run Receiving Serving s6 [0 \<mapsto> k, 1 \<mapsto> ?k2] ?es)
      (Run Receiving Serving s7 [0 \<mapsto> k, 1 \<mapsto> ?k2\<lparr>h_answer := Some resp\<rparr>] (?es @ [Stored ''b'' 1 [9]]))"
    and net7: "net s7 = net s6"
    using run_answer[where unpack = unpack and ps = ps and held = held, OF ok6, of 1 ?k2 mh depth "[Stored ''b'' 1 [9]]"]
      ev mh adm by auto
  let ?R = "program_step unpack ps pk mh depth held"
  have one: "?R\<^sup>*\<^sup>* u v" if "?R u v" for u v using that by (rule r_into_rtranclp)
  have trans: "?R\<^sup>*\<^sup>* u w" if "?R\<^sup>*\<^sup>* u v" "?R\<^sup>*\<^sup>* v w" for u v w using that by (rule rtranclp_trans)
  note all = trans[OF trans[OF run 6] one[OF 7]]
  have "wire s7 = wire s @ frame (report_of pk ?a ?es)" using net_flag(2)[OF net7] net_flag(2)[OF net] w6 by simp
  then show ?thesis using all by (intro exI[of _ s7]) (auto simp: busy_events_def)
qed

text \<open>From the node that has just started.\<close>

lemma node0_sends: "can_send node0 n \<longleftrightarrow> n \<le> 100" "shouldWork node0"
  by (simp_all add: node_defs(1,4) can_send_def eager_def credits_def)

lemma unpack0_message: "unpack0 (take (length [1, 2 :: byte] - 1) [1, 2]) = Some \<lparr>msg_id = ''m''\<rparr>"
  by (simp add: unpack0_def)

lemma busy_node:
  obtains s' conns where "program_steps unpack0 size0 pack0 mhd0 2 held (Run Receiving Starting node0 Map.empty [])
    (Run Receiving Serving s' conns busy_events)"
proof -
  have "[1, 2 :: byte] \<noteq> []" "length [1, 2 :: byte] < 1024"
    "can_send node0 (4 + length (report_of pack0 ([], Map.empty) [Stored ''a'' 1 [7]]))"
    by (simp_all add: node0_sends report_of_def pack0_def)
  from busy_run[where buffer = "[1, 2]" and unpack = unpack0 and held = held,
      OF node_rels(1) node0_sends(2) packs0 mhd0_serves order_refl unpack0_message this]
  show thesis using that by blast
qed

lemma half_node:
  obtains s' conns arr n where "program_steps unpack0 size0 pack0 mhd0 2 held (Run Receiving Starting node0 Map.empty [])
    (Run (Snapped arr n) Serving s' conns [Stored ''a'' 1 [7]])" "send_answers s' = send_answers node0"
proof -
  have "[1, 2 :: byte] \<noteq> []" "length [1, 2 :: byte] < 1024" by simp_all
  from half_run[where buffer = "[1, 2]" and unpack = unpack0 and held = held,
      OF node_rels(1) node0_sends(2) packs0 mhd0_serves order_refl unpack0_message this]
  obtain s' conns arr n where "program_steps unpack0 size0 pack0 mhd0 2 held (Run Receiving Starting node0 Map.empty [])
    (Run (Snapped arr n) Serving s' conns [Stored ''a'' 1 [7]])" "net s' = net node0" by blast
  then show thesis using that net_flag(3) by blast
qed

lemma busy_prefix: "prefix e busy_events \<longleftrightarrow> e \<in> {[], [Stored ''a'' 1 [7]], busy_events}"
  by (auto simp: busy_events_def prefix_Cons)

lemma busy_sizes:
  "codec_size lib0 (health_of (fst (fold event_spec [] ([], Map.empty)))) = 2"
  "codec_size lib0 (health_of (fst (fold event_spec [Stored ''a'' 1 [7]] ([], Map.empty)))) = 7"
  "codec_size lib0 (health_of (fst (fold event_spec busy_events ([], Map.empty)))) = 12"
  by (simp_all add: busy_events_def spec_upload_def cat_insert_def codec_size_def lib0_def storage_message_def
      health_of_def to_mapping_def enc_list_def enc_mapping_def enc_str_def enc_int_def)

text \<open>The same run with the concrete library, from the first line of \<open>main\<close>.\<close>

lemma busy_started:
  obtains st_args s1 s2 conns where
    "main_start (codec_size lib0) (codec_pack lib0) 3 1 0 node0 = Inr (st_args, s1 :: tcp_node)"
    "program_steps (codec_unpack lib0) (codec_size lib0) (codec_pack lib0) mhd0 2 True
      (Run Receiving Starting s1 Map.empty []) (Run Receiving Serving s2 conns busy_events)"
proof -
  let ?ps = "codec_size lib0" and ?pk = "codec_pack lib0" and ?unpack = "codec_unpack lib0"
  have codec: "packs_to_size ?ps ?pk" by (rule codec_packs[OF lib0_ok])
  have pre: "heap_ok node0" "no_oom node0" "(0 :: int) \<le> 3" "(0 :: int) < 1" "(0 :: int) \<le> 0"
    by (simp_all add: node_defs heap_ok_def no_oom_def)
  have send: "can_send node0 (4 + length (?pk MsgJoin) + 50)"
    using codec by (simp add: node0_sends packs_to_size_def sizes0)
  obtain st args s1 where start: "main_start ?ps ?pk 3 1 0 node0 = Inr ((st, args), s1)" "started st args (mem node0) s1"
    "can_send s1 50" "fs s1 = fs node0"
    by (rule main_start_run[OF pre(1,2) codec pre(3-5) send])
  have disk: "disk_rel (fs s1) [] Map.empty" using start(4) by simp
  have work: "shouldWork s1" using start(2) by (simp add: started_def)
  have "length (report_of ?pk ([], Map.empty) [Stored ''a'' 1 [7]]) = 7"
    using codec busy_sizes(2) by (simp add: packs_to_size_def report_of_def)
  then have "can_send s1 (4 + length (report_of ?pk ([], Map.empty) [Stored ''a'' 1 [7]]))"
    using start(3) by (simp add: can_send_def)
  from busy_run[where buffer = "health_check (codec_encode lib0) ''u1''" and unpack = ?unpack and held = True,
      OF started_node[OF start(2) disk] work codec mhd0_serves order_refl health_check_read(2)[OF lib0_ok]
        health_check_read(1)[OF lib0_ok] check0 this]
  show thesis using start(1) that by blast
qed

end
