(* ===== verification/Cluster_Views.thy ===== *)
theory Cluster_Views
  imports Cluster Node_Program
begin

text \<open>
  What the master sees of a node that serves requests and reports at the same time: the store
  as it was at some earlier moment, and never an earlier one than before.
\<close>

section \<open>A part of the stream\<close>

lemma short_frame:
  assumes "prefix w (frame m)" "w \<noteq> frame m" "length m < 2 ^ 32"
  shows "read_frame w = None"
proof (cases "length w < 4")
  case False
  obtain r where w: "frame m = w @ r" using assms(1) by (auto simp: prefix_def)
  have len: "length w < 4 + length m" using w assms(2) by (metis append_self_conv frame_def length_append length_htonl
      less_add_same_cancel1 length_greater_0_conv)
  have "take 4 w = take 4 (frame m @ [])" using False w by simp
  then have "read_u32 w = read_u32 (frame m @ [])" by (simp add: read_u32_def)
  also have "\<dots> = length m" using read_u32_htonl[of "length m" m] assms(3) by (simp add: frame_def)
  finally show ?thesis using False len by (simp add: read_frame_def Let_def)
qed (simp add: read_frame_def)

lemma read_part:
  assumes "prefix w (concat (map frame ms))" "\<forall>m \<in> set ms. length m < 2 ^ 32"
  shows "prefix (fst (read_frames w)) ms"
  using assms
proof (induction ms arbitrary: w)
  case Nil
  then show ?case by (subst read_frames.simps) (simp add: read_frame_def)
next
  case (Cons m ms)
  show ?case
  proof (cases "prefix (frame m) w")
    case True
    then obtain w' where w: "w = frame m @ w'" by (auto simp: prefix_def)
    then have "prefix (fst (read_frames w')) ms" using Cons by simp
    then show ?thesis using read_frame_frame[of m w'] Cons.prems(2) w
      by (subst read_frames.simps) (auto split: prod.split)
  next
    case False
    then have "prefix w (frame m)" "w \<noteq> frame m"
      using Cons.prems(1) prefix_same_cases[of w "frame m @ concat (map frame ms)" "frame m"] by auto
    then have "read_frame w = None" using short_frame Cons.prems(2) by simp
    then show ?thesis by (subst read_frames.simps) simp
  qed
qed

section \<open>Catalogue and store after some events\<close>

definition view_ok :: "catalogue \<Rightarrow> store \<Rightarrow> bool" where
  "view_ok cat st \<longleftrightarrow> distinct (map fst cat) \<and>
     (\<forall>f c. (st (f, c) \<noteq> None) = cat_has f c cat) \<and> (\<forall>f c. st (f, c) \<noteq> None \<longrightarrow> in_int c)"

lemma distinct_insert:
  assumes "serial f cat" "distinct (map fst cat)"
  shows "distinct (map fst (cat_insert f c (f \<in> cat_names cat) cat))"
proof (cases "f \<in> cat_names cat")
  case True
  then obtain ca p ids where "cat = ca @ [(p, ids)]" using serial_last[OF assms(1)] by (metis rev_exhaust surj_pair)
  then show ?thesis using True assms(2) by (simp add: cat_insert_last)
next
  case False
  then show ?thesis using assms(2) by (simp add: cat_insert_new)
qed

lemma distinct_remove: "distinct (map fst cat) \<Longrightarrow> distinct (map fst (cat_remove f cat))"
  by (cases rule: cat_remove_cases[of f cat]) (auto simp: cat_remove_absent cat_remove_split)

lemma view_ok_event:
  assumes ok: "view_ok cat st" and pre: "event_pre x (cat, st)"
  shows "view_ok (fst (event_spec x (cat, st))) (snd (event_spec x (cat, st)))"
proof (cases x)
  case (Stored f c bs)
  then show ?thesis using ok pre cat_has_serial[of f cat] distinct_insert[of f cat c]
    by (auto simp: view_ok_def spec_upload_def)
next
  case (Deleted f)
  then show ?thesis using ok cat_has_remove[of cat] distinct_remove[of cat f]
    by (auto simp: view_ok_def spec_delete_def)
qed (use ok in simp_all)

lemma view_ok_events:
  "admissible event_pre event_spec es (cat, st) \<Longrightarrow> view_ok cat st \<Longrightarrow>
   view_ok (fst (fold event_spec es (cat, st))) (snd (fold event_spec es (cat, st)))"
proof (induction es arbitrary: cat st)
  case (Cons x es)
  obtain cat' st' where a: "event_spec x (cat, st) = (cat', st')" by force
  have "view_ok cat' st'" using view_ok_event[of cat st x] Cons.prems a by simp
  then show ?case using Cons a by simp
qed simp

lemma view_ok_init: "view_ok [] Map.empty"
  by (simp add: view_ok_def)

lemma view_fits: "view_ok cat st \<Longrightarrow> fits StorageDescriptor (StorageP (health_of cat))"
  by (force simp: view_ok_def health_of_def to_mapping_def list_all_iff cat_has_def)

section \<open>What the master has read\<close>

text \<open>A reader that is up to some report gives out the address for what the report has.\<close>

lemma located_after_reports:
  assumes M: "master_steps decode encode (master_init replication) M" and k: "tasks M cid = Some k" "reading k"
    and only: "only_from M (task_addr k) cid"
    and read: "frames_read k = pk MsgJoin # map (\<lambda>cat. pk (health_of cat)) cats"
    and dec: "decodes decode pk MsgJoin" "\<forall>cat \<in> set cats. decodes decode pk (health_of cat)"
  shows "task_addr k \<in> set (get_location f c (tcp_storage M)) \<longleftrightarrow> cats \<noteq> [] \<and> cat_has f c (last cats)"
proof -
  have "fold (message_entries decode cid (task_addr k)) (frames_read k) []
      = [\<lparr>connection_id = cid, ip = task_addr k, files_to_chunks = map to_mapping (if cats = [] then [] else last cats)\<rparr>]"
    unfolding read joined_entries[OF dec] by simp
  then show ?thesis unfolding located_by_frames[OF M k only]
    by (simp add: reports_catalogue cat_has_def)
qed

lemma located_at_moment:
  fixes ys :: "event list list" and w :: "byte list"
  defines "a \<equiv> ([], Map.empty) :: catalogue \<times> store"
  assumes M: "master_steps decode encode (master_init replication) M" and k: "tasks M cid = Some k" "reading k"
    and only: "only_from M (task_addr k) cid" and read: "frames_read k = fst (read_frames w)"
    and part: "prefix w (concat (map frame (pk MsgJoin # map (report_of pk a) ys)))" and join: "decodes decode pk MsgJoin"
    and ys: "\<And>e. e \<in> set ys \<Longrightarrow> decodes decode pk (health_of (fst (fold event_spec e a)))"
      "\<And>e. e \<in> set ys \<Longrightarrow> view_ok (fst (fold event_spec e a)) (snd (fold event_spec e a))"
  shows "length (frames_read k) \<le> length ([] # ys) \<and> (task_addr k \<in> set (get_location f c (tcp_storage M)) \<longleftrightarrow>
    snd (fold event_spec (([] # ys) ! (length (frames_read k) - 1)) a) (f, c) \<noteq> None)"
proof -
  let ?cat = "\<lambda>e. fst (fold event_spec e a)"
  let ?ms = "pk MsgJoin # map (report_of pk a) ys"
  have "\<forall>m \<in> set ?ms. length m < 2 ^ 32" using join ys(1) by (auto simp: decodes_def report_of_def)
  then have pre: "prefix (frames_read k) ?ms" unfolding read by (rule read_part[OF part])
  then have taken: "frames_read k = take (length (frames_read k)) ?ms" by (auto simp: prefix_def)
  have upto: "length (frames_read k) \<le> length ([] # ys)" using prefix_length_le[OF pre] by simp
  show ?thesis
  proof (cases "length (frames_read k)")
    case 0
    then show ?thesis using located_by_frames[OF M k only, of f c] by (simp add: a_def)
  next
    case n: (Suc n)
    have "take (Suc n) ?ms = pk MsgJoin # map (report_of pk a) (take n ys)" by (simp only: take_Suc_Cons take_map)
    then have read': "frames_read k = pk MsgJoin # map (\<lambda>cat. pk (health_of cat)) (map ?cat (take n ys))"
      using taken unfolding n by (simp add: report_of_def comp_def)
    have "\<forall>cat \<in> set (map ?cat (take n ys)). decodes decode pk (health_of cat)" using ys(1) by (auto dest: in_set_takeD)
    note iff = located_after_reports[OF M k only read' join this, of f c]
    show ?thesis
    proof (cases n)
      case 0
      then show ?thesis using iff upto n by (simp add: a_def)
    next
      case (Suc j)
      then have j: "j < length ys" using upto n by simp
      then have "take n ys = take j ys @ [ys ! j]" using Suc by (simp only: take_Suc_conv_app_nth)
      then have "last (map ?cat (take n ys)) = ?cat (ys ! j)" "map ?cat (take n ys) \<noteq> []" by simp_all
      then show ?thesis using iff upto Suc n ys(2)[OF nth_mem[OF j]] by (simp add: view_ok_def)
    qed
  qed
qed

text \<open>
  With the reports making their way, the moments of \<open>ess\<close> are those the master sees, one
  after the other: after \<open>n\<close> frames it sees the node as it was at the \<open>n\<close>th.
\<close>

lemma views_of_run:
  fixes s1 s2 :: "'h tcp_node_scheme"
  assumes start: "started sp args mm s1" "disk_rel (fs s1) [] Map.empty" "wire s1 = frame (codec_pack lib MsgJoin)"
    and lib: "library_ok lib" and mh: "mhd_serves mh" "2 \<le> depth"
    and run: "program_steps unpack (codec_size lib) (codec_pack lib) mh depth True
      (Run Receiving Starting s1 Map.empty []) (Run t h s2 conns es)"
    and pre: "admissible event_pre event_spec es ([], Map.empty)" and small: "codec_size lib MsgJoin < 2 ^ 32"
      "\<And>e. prefix e es \<Longrightarrow> codec_size lib (health_of (fst (fold event_spec e ([], Map.empty)))) < 2 ^ 32"
  shows "\<exists>ess. ess \<noteq> [] \<and> hd ess = [] \<and> sorted_wrt prefix ess \<and> (\<forall>e \<in> set ess. prefix e es) \<and>
    (\<forall>encode replication M cid k w f c. master_steps (codec_decode lib) encode (master_init replication) M \<longrightarrow>
       tasks M cid = Some k \<longrightarrow> reading k \<longrightarrow> prefix w (wire s2) \<longrightarrow> frames_read k = fst (read_frames w) \<longrightarrow>
       only_from M (task_addr k) cid \<longrightarrow> length (frames_read k) \<le> length ess \<and>
       (task_addr k \<in> set (get_location f c (tcp_storage M)) \<longleftrightarrow>
        snd (fold event_spec (ess ! (length (frames_read k) - 1)) ([], Map.empty)) (f, c) \<noteq> None))"
    (is "\<exists>ess. ess \<noteq> [] \<and> hd ess = [] \<and> sorted_wrt prefix ess \<and> ?past ess \<and> ?seen ess")
proof -
  let ?a = "([], Map.empty) :: catalogue \<times> store" and ?pk = "codec_pack lib"
  let ?cat = "\<lambda>e. fst (fold event_spec e ?a)" and ?st = "\<lambda>e. snd (fold event_spec e ?a)"
  let ?F = "insert args (insert sp (dom mm))"
  have codec: "packs_to_size (codec_size lib) ?pk" using lib by (rule codec_packs)
  then have len: "length (?pk msg) = codec_size lib msg" for msg by (simp add: packs_to_size_def)
  have "admissible event_pre event_spec (program_events (Run t h s2 conns es)) ?a" using pre by simp
  from program_safe[OF run started_program[OF start(1,2)] codec mh this]
  obtain bs where "wire_ok ?pk ?a (wire s1) t bs (wire s2) es" by auto
  then obtain xs e0 tail where w: "wire s2 = frame (?pk MsgJoin) @ concat (map (\<lambda>e. frame (report_of ?pk ?a e)) xs) @ tail"
    and ord: "sorted_wrt prefix (xs @ [e0])" "prefix e0 es"
    and tail: "tail \<noteq> [] \<longrightarrow> prefix tail (frame (report_of ?pk ?a e0))"
    unfolding wire_ok_def start(3) by blast
  let ?ys = "xs @ [e0]"
  let ?ms = "?pk MsgJoin # map (report_of ?pk ?a) ?ys"
  have whole: "prefix (wire s2) (concat (map frame ?ms))"
    using w tail by (cases "tail = []") (auto simp: comp_def)
  have past: "prefix e es" if "e \<in> set ?ys" for e using that ord by (auto simp: sorted_wrt_append intro: prefix_order.trans)
  have view: "view_ok (?cat e) (?st e)" if "prefix e es" for e
  proof -
    have "admissible event_pre event_spec e ?a" using pre that by (auto simp: prefix_def admissible_append)
    then show ?thesis using view_ok_events view_ok_init by blast
  qed
  have join: "decodes (codec_decode lib) ?pk MsgJoin" using codec_decode_pack[OF lib] small(1) by (simp add: decodes_def len)
  have dec: "decodes (codec_decode lib) ?pk (health_of (?cat e))" if "prefix e es" for e
    using codec_decode_pack[OF lib view_fits[OF view[OF that]]] small(2)[OF that] by (simp add: decodes_def len)
  note here = located_at_moment[OF _ _ _ _ _ prefix_order.trans[OF _ whole] join dec[OF past] view[OF past]]
  have "sorted_wrt prefix ([] # ?ys)" using ord(1) by simp
  moreover have "\<forall>e \<in> set ([] # ?ys). prefix e es" using past by simp
  moreover have "?seen ([] # ?ys)" by (intro allI impI) (rule here)
  ultimately show ?thesis by (intro exI[of _ "[] # ?ys"] conjI list.sel(1) list.simps(3))
qed

end
