(* ===== verification/Master_Main.thy ===== *)
theory Master_Main
  imports DFS_Prelude
begin

text \<open>
  The master as a program: main.rs starts the two services, tcp_main.rs and http_main.rs, waits
  for Ctrl-C or for the end of one of them, tells the others to stop and joins both.
\<close>

section \<open>The services\<close>

text \<open>
  A service binds its port, works, and is over with a result, here \<open>Inl\<close> an error. A message
  in the channel of shutdowns is seen by both: each subscribed before it was started. With
  \<open>outside\<close> a service may also end for a reason outside the program: its port is taken, a
  connection cannot be accepted, or the server of the library ends, as when it sees Ctrl-C itself.
\<close>

type_synonym service_result = "string + unit"

datatype service = Unbound | Listening | Over service_result

inductive tcp_main_step :: "bool \<Rightarrow> bool \<Rightarrow> service \<Rightarrow> service \<Rightarrow> bool" for outside shutdown where
  tcp_bound: "tcp_main_step outside shutdown Unbound Listening"
| tcp_not_bound: "outside \<Longrightarrow> tcp_main_step outside shutdown Unbound (Over (Inl (''Failed to bind TCP listener: '' @ e)))"
| tcp_told: "shutdown \<Longrightarrow> tcp_main_step outside shutdown Listening (Over (Inl ''Shutdown signal received''))"
| tcp_not_accepted: "outside \<Longrightarrow>
    tcp_main_step outside shutdown Listening (Over (Inl (''Failed to accept connection: '' @ e)))"

inductive http_main_step :: "bool \<Rightarrow> bool \<Rightarrow> service \<Rightarrow> service \<Rightarrow> bool" for outside shutdown where
  http_bound: "http_main_step outside shutdown Unbound Listening"
| http_not_bound: "outside \<Longrightarrow>
    http_main_step outside shutdown Unbound (Over (Inl (''Failed to bind HTTP server: '' @ e)))"
| http_told: "shutdown \<Longrightarrow>
    http_main_step outside shutdown Listening (Over (Inl ''Error message received, closing tcp connection''))"
| http_failed: "outside \<Longrightarrow> http_main_step outside shutdown Listening (Over (Inl (''HTTP server error: '' @ e)))"
| http_ended: "outside \<Longrightarrow> http_main_step outside shutdown Listening (Over (Inr ()))"

section \<open>Main\<close>

text \<open>
  A handle is not yet seen to be over, was seen so by \<open>select!\<close>, which took its result, or by
  \<open>join!\<close>. What a handle does that is polled again after its result was taken is tokio's.
\<close>

datatype handle = Waited | Taken | Joined service_result

datatype main_pc = Selecting | Joining handle handle | Returned | Panicked

datatype polled_again = Panics | Pends | Gives service_result

record master_program =
  tcp_service :: service
  http_service :: service
  shutdown_sent :: bool
  main_at :: main_pc
  printed :: "string list"

definition program_init :: "master_program" where
  "program_init = \<lparr>tcp_service = Unbound, http_service = Unbound,
     shutdown_sent = False, main_at = Selecting, printed = []\<rparr>"

definition error_line :: "string \<Rightarrow> service_result \<Rightarrow> string list" where
  "error_line what r = (case r of Inl e \<Rightarrow> [what @ e] | Inr _ \<Rightarrow> [])"

text \<open>A branch of \<open>select!\<close>: what it prints, the shutdown, and the handles as they are then.\<close>

definition leave_select :: "string list \<Rightarrow> handle \<Rightarrow> handle \<Rightarrow> master_program \<Rightarrow> master_program" where
  "leave_select out t h P =
     P\<lparr>printed := printed P @ out, shutdown_sent := True, main_at := Joining t h\<rparr>"

inductive main_step :: "polled_again \<Rightarrow> master_program \<Rightarrow> master_program \<Rightarrow> bool" for again where
  ctrl_c: "main_at P = Selecting \<Longrightarrow>
    main_step again P (leave_select [''Shutdown signal received''] Waited Waited P)"
| tcp_over: "main_at P = Selecting \<Longrightarrow> tcp_service P = Over r \<Longrightarrow>
    main_step again P (leave_select (''TCP task ended unexpectedly'' # error_line ''TCP error: '' r) Taken Waited P)"
| http_over: "main_at P = Selecting \<Longrightarrow> http_service P = Over r \<Longrightarrow>
    main_step again P (leave_select (''HTTP task ended unexpectedly'' # error_line ''HTTP error: '' r) Waited Taken P)"
| join_tcp: "main_at P = Joining Waited h \<Longrightarrow> tcp_service P = Over r \<Longrightarrow>
    main_step again P (P\<lparr>main_at := Joining (Joined r) h\<rparr>)"
| join_http: "main_at P = Joining t Waited \<Longrightarrow> http_service P = Over r \<Longrightarrow>
    main_step again P (P\<lparr>main_at := Joining t (Joined r)\<rparr>)"
| tcp_again: "main_at P = Joining Taken h \<Longrightarrow> again = Gives r \<Longrightarrow>
    main_step again P (P\<lparr>main_at := Joining (Joined r) h\<rparr>)"
| http_again: "main_at P = Joining t Taken \<Longrightarrow> again = Gives r \<Longrightarrow>
    main_step again P (P\<lparr>main_at := Joining t (Joined r)\<rparr>)"
| again_panics: "main_at P = Joining t h \<Longrightarrow> t = Taken \<or> h = Taken \<Longrightarrow> again = Panics \<Longrightarrow>
    main_step again P (P\<lparr>main_at := Panicked\<rparr>)"
| all_joined: "main_at P = Joining (Joined r) (Joined r') \<Longrightarrow>
    main_step again P (P\<lparr>main_at := Returned, printed := printed P @ [''All services shut down'']\<rparr>)"

section \<open>The program\<close>

text \<open>The services are dropped with main.\<close>

definition running :: "master_program \<Rightarrow> bool" where
  "running P \<longleftrightarrow> main_at P \<notin> {Returned, Panicked}"

inductive control_step :: "polled_again \<Rightarrow> bool \<Rightarrow> master_program \<Rightarrow> master_program \<Rightarrow> bool" for again outside where
  tcp: "running P \<Longrightarrow> tcp_main_step outside (shutdown_sent P) (tcp_service P) t \<Longrightarrow>
    control_step again outside P (P\<lparr>tcp_service := t\<rparr>)"
| http: "running P \<Longrightarrow> http_main_step outside (shutdown_sent P) (http_service P) h \<Longrightarrow>
    control_step again outside P (P\<lparr>http_service := h\<rparr>)"
| main: "main_step again P Q \<Longrightarrow> control_step again outside P Q"

abbreviation control_steps where
  "control_steps again \<equiv> (control_step again True)\<^sup>*\<^sup>*"

section \<open>The end of the program\<close>

text \<open>How many control steps are left, at most.\<close>

fun service_left :: "service \<Rightarrow> nat" where
  "service_left Unbound = 2"
| "service_left Listening = 1"
| "service_left (Over r) = 0"

fun handle_left :: "handle \<Rightarrow> nat" where
  "handle_left (Joined r) = 0"
| "handle_left _ = 1"

fun main_left :: "main_pc \<Rightarrow> nat" where
  "main_left Selecting = 4"
| "main_left (Joining t h) = 1 + handle_left t + handle_left h"
| "main_left _ = 0"

definition control_left :: "master_program \<Rightarrow> nat" where
  "control_left P = service_left (tcp_service P) + service_left (http_service P) + main_left (main_at P)"

lemma left_bounds: "service_left s \<le> 2" "handle_left h \<le> 1"
  by (cases s; simp) (cases h; simp)

lemma left_after_select:
  assumes "main_at P \<noteq> Selecting"
  shows "control_left P \<le> 7"
proof -
  have "main_left (main_at P) \<le> 3"
  proof (cases "main_at P")
    case (Joining t h)
    then show ?thesis using left_bounds(2)[of t] left_bounds(2)[of h] by simp
  qed (use assms in simp_all)
  then show ?thesis using left_bounds(1)[of "tcp_service P"] left_bounds(1)[of "http_service P"] by (simp add: control_left_def)
qed

lemma control_decreases:
  assumes "control_step again outside P Q"
  shows "control_left Q < control_left P"
  using assms
proof cases
  case main
  then show ?thesis by cases (auto simp: control_left_def leave_select_def)
qed (auto elim: tcp_main_step.cases http_main_step.cases simp: control_left_def)

lemma run_bounded: "(control_step again outside ^^ n) P Q \<Longrightarrow> n + control_left Q \<le> control_left P"
proof (induction n arbitrary: Q)
  case (Suc n)
  then obtain R where "(control_step again outside ^^ n) P R" "control_step again outside R Q" by auto
  then show ?case using Suc.IH[of R] control_decreases[of again outside R Q] by simp
qed simp

text \<open>Which branch the select took shows in the handles, in what was printed, and in the end.\<close>

fun branch_ok :: "main_pc \<Rightarrow> string list \<Rightarrow> bool" where
  "branch_ok Selecting out \<longleftrightarrow> out = []"
| "branch_ok (Joining t h) out \<longleftrightarrow>
     out \<noteq> [] \<and> (hd out = ''Shutdown signal received'' \<longleftrightarrow> t \<noteq> Taken \<and> h \<noteq> Taken)"
| "branch_ok Returned out \<longleftrightarrow> hd out = ''Shutdown signal received'' \<and> last out = ''All services shut down''"
| "branch_ok Panicked out \<longleftrightarrow>
     hd out \<noteq> ''Shutdown signal received'' \<and> ''All services shut down'' \<notin> set out"

definition program_ok :: "master_program \<Rightarrow> bool" where
  "program_ok P \<longleftrightarrow> branch_ok (main_at P) (printed P) \<and> (main_at P \<noteq> Selecting \<longrightarrow> shutdown_sent P) \<and>
     (main_at P \<noteq> Returned \<longrightarrow> ''All services shut down'' \<notin> set (printed P))"

lemma other_lines:
  "''All services shut down'' \<notin> set (error_line ''TCP error: '' r)"
  "''All services shut down'' \<notin> set (error_line ''HTTP error: '' r)"
  by (cases r; simp add: error_line_def)+

lemma program_ok_control:
  assumes "control_step again outside P Q" "program_ok P" "\<And>r. again \<noteq> Gives r"
  shows "program_ok Q"
  using assms(1)
proof cases
  case main
  then show ?thesis
    by cases (use assms(2,3) in \<open>auto simp: program_ok_def leave_select_def other_lines\<close>)
qed (use assms(2) in \<open>simp_all add: program_ok_def\<close>)

lemma program_ok_run:
  assumes "(control_step again outside)\<^sup>*\<^sup>* P Q" "program_ok P" "\<And>r. again \<noteq> Gives r"
  shows "program_ok Q"
  using assms(1,2) by (induction rule: rtranclp_induct) (use program_ok_control assms(3) in blast)+

lemma program_ok_init: "program_ok program_init"
  by (simp add: program_ok_def program_init_def)

text \<open>
  With the select left, some step is possible until main has ended, and none from outside is
  needed for it: the shutdown that was sent ends the services.
\<close>

lemma control_goes_on:
  assumes ok: "program_ok P" and at: "main_at P = Joining t h" and rest: "\<nexists>Q. control_step Panics False P Q"
  shows False
proof -
  have run: "running P" and told: "shutdown_sent P" using ok at by (simp_all add: running_def program_ok_def)
  have stop: "\<not> main_step Panics P Q" for Q using rest control_step.main by blast
  obtain r where r: "tcp_service P = Over r"
  proof (cases "tcp_service P")
    case Unbound
    then show thesis using rest control_step.tcp[OF run] tcp_bound by metis
  next
    case Listening
    then show thesis using rest control_step.tcp[OF run] tcp_told told by metis
  qed (rule that)
  obtain r' where r': "http_service P = Over r'"
  proof (cases "http_service P")
    case Unbound
    then show thesis using rest control_step.http[OF run] http_bound by metis
  next
    case Listening
    then show thesis using rest control_step.http[OF run] http_told told by metis
  qed (rule that)
  have "t \<noteq> Waited" using stop join_tcp[OF _ r] at by blast
  moreover have "h \<noteq> Waited" using stop join_http[OF _ r'] at by blast
  moreover have "t \<noteq> Taken" "h \<noteq> Taken" using stop again_panics[OF at] by blast+
  ultimately obtain x x' where "t = Joined x" "h = Joined x'" by (cases t; cases h) simp_all
  then show False using stop all_joined at by blast
qed

text \<open>Main ends: as it should after Ctrl-C only.\<close>

lemma select_left:
  assumes "(control_step again outside)\<^sup>*\<^sup>* P Q" "main_at P \<noteq> Selecting"
  shows "main_at Q \<noteq> Selecting"
  using assms
proof (induction rule: rtranclp_induct)
  case (step Q R)
  from step.hyps(2) show ?case
  proof cases
    case main
    then show ?thesis by cases (simp_all add: leave_select_def)
  qed (use step in simp_all)
qed simp

lemma program_ends:
  assumes ok: "program_ok P" and left: "main_at P \<noteq> Selecting" and rest: "\<nexists>Q. control_step Panics False P Q"
  shows "(hd (printed P) = ''Shutdown signal received'' \<longrightarrow>
      main_at P = Returned \<and> last (printed P) = ''All services shut down'') \<and>
    (hd (printed P) \<noteq> ''Shutdown signal received'' \<longrightarrow>
      main_at P = Panicked \<and> ''All services shut down'' \<notin> set (printed P))"
  using assms control_goes_on[of P] by (cases "main_at P") (auto simp: program_ok_def)

text \<open>The first line that main prints stays.\<close>

lemma first_line:
  assumes "(control_step again outside)\<^sup>*\<^sup>* P Q" "program_ok P" "main_at P \<noteq> Selecting" "printed P \<noteq> []"
  shows "printed Q \<noteq> [] \<and> hd (printed Q) = hd (printed P)"
  using assms
proof (induction rule: rtranclp_induct)
  case (step Q R)
  have at: "main_at Q \<noteq> Selecting" by (rule select_left[OF step.hyps(1) step.prems(2)])
  from step.hyps(2) show ?case
  proof cases
    case main
    then show ?thesis by cases (use step at in \<open>simp_all add: leave_select_def\<close>)
  qed (use step in simp_all)
qed simp

text \<open>
  Once \<open>select!\<close> has taken the result of a service, main does not return, unless a handle gives a
  result again: where polling it panics, main panics at once.
\<close>

lemma taken_never_returns:
  assumes run: "control_steps again program_init P" and at: "main_at P = Joining t h" "t = Taken \<or> h = Taken"
    and again: "\<And>r. again \<noteq> Gives r" and more: "control_steps again P Q"
  shows "main_at Q \<noteq> Returned \<and> ''All services shut down'' \<notin> set (printed Q)"
proof -
  have ok: "program_ok P" by (rule program_ok_run[OF run program_ok_init again])
  then have first: "printed P \<noteq> []" "hd (printed P) \<noteq> ''Shutdown signal received''"
    using at by (auto simp: program_ok_def)
  have "hd (printed Q) \<noteq> ''Shutdown signal received''" using first_line[OF more ok _ first(1)] at(1) first(2) by simp
  moreover have "program_ok Q" by (rule program_ok_run[OF more ok again])
  ultimately show ?thesis by (auto simp: program_ok_def)
qed

lemma taken_panics:
  assumes "main_at P = Joining t h" "t = Taken \<or> h = Taken"
  shows "control_step Panics outside P (P\<lparr>main_at := Panicked\<rparr>)"
  by (rule control_step.main, rule again_panics[OF assms]) simp

text \<open>A port that is taken brings main there.\<close>

lemma port_taken:
  obtains P where "control_steps again program_init P" "main_at P = Joining Taken Waited"
    "printed P = [''TCP task ended unexpectedly'', ''TCP error: '' @ ''Failed to bind TCP listener: '' @ e]"
proof -
  let ?r = "Inl (''Failed to bind TCP listener: '' @ e)"
  let ?P1 = "program_init\<lparr>tcp_service := Over ?r\<rparr>"
  let ?P2 = "leave_select (''TCP task ended unexpectedly'' # error_line ''TCP error: '' ?r) Taken Waited ?P1"
  have "running program_init" by (simp add: running_def program_init_def)
  moreover have "tcp_main_step True (shutdown_sent program_init) (tcp_service program_init) (Over ?r)"
    unfolding program_init_def master_program.simps by (rule tcp_not_bound) simp
  ultimately have one: "control_step again True program_init ?P1" by (rule control_step.tcp)
  have two: "control_step again True ?P1 ?P2"
    by (rule control_step.main, rule tcp_over) (simp_all add: program_init_def)
  have "control_steps again program_init ?P1" using one by (rule r_into_rtranclp)
  then have run: "control_steps again program_init ?P2" using two by (rule rtranclp.rtrancl_into_rtrancl)
  show thesis
    by (rule that[OF run])
      (simp_all add: leave_select_def program_init_def error_line_def)
qed

text \<open>Ctrl-C, before the services have even bound their ports.\<close>

lemma orderly_run:
  obtains P Q where "control_step again True program_init P" "main_at P = Joining Waited Waited"
    "hd (printed P) = ''Shutdown signal received''"
    "(control_step again False ^^ 7) P Q" "\<nexists>R. control_step again outside Q R"
    "hd (printed Q) = ''Shutdown signal received''"
proof -
  let ?P = "leave_select [''Shutdown signal received''] Waited Waited program_init"
  let ?r = "Inl ''Shutdown signal received''" and ?r' = "Inl ''Error message received, closing tcp connection''"
  let ?P2 = "?P\<lparr>tcp_service := Listening, http_service := Listening\<rparr>"
  let ?P4 = "?P\<lparr>tcp_service := Over ?r, http_service := Over ?r'\<rparr>"
  let ?P6 = "?P4\<lparr>main_at := Joining (Joined ?r) (Joined ?r')\<rparr>"
  let ?Q = "?P6\<lparr>main_at := Returned, printed := printed ?P6 @ [''All services shut down'']\<rparr>"
  let ?R = "control_step again False"
  have P: "running ?P" "shutdown_sent ?P" "tcp_service ?P = Unbound" "http_service ?P = Unbound"
    "main_at ?P = Joining Waited Waited" "printed ?P = [''Shutdown signal received'']"
    by (simp_all add: leave_select_def running_def program_init_def)
  have run: "running (?P\<lparr>tcp_service := t, http_service := h\<rparr>)" for t h using P by (simp add: running_def)
  have swap: "R\<lparr>http_service := h, tcp_service := t\<rparr> = R\<lparr>tcp_service := t, http_service := h\<rparr>"
    for R :: master_program and t h by (cases R) simp
  have tcp: "?R (?P\<lparr>tcp_service := t, http_service := h\<rparr>) (?P\<lparr>tcp_service := t', http_service := h\<rparr>)"
    if "tcp_main_step False True t t'" for t t' h
    using control_step.tcp[OF run, of False h t t' again] that P(2) by (simp add: swap)
  have http: "?R (?P\<lparr>tcp_service := t, http_service := h\<rparr>) (?P\<lparr>tcp_service := t, http_service := h'\<rparr>)"
    if "http_main_step False True h h'" for t h h'
    using control_step.http[OF run, of False h t h' again] that P(2) by simp
  have same: "?P\<lparr>tcp_service := Unbound, http_service := Unbound\<rparr> = ?P"
    by (simp add: leave_select_def program_init_def)
  note four = tcp[OF tcp_bound, of Unbound, unfolded same] http[OF http_bound, of Listening]
    tcp[OF tcp_told, of Listening] http[OF http_told, of "Over ?r"]
  have five: "?R ?P4 (?P4\<lparr>main_at := Joining (Joined ?r) Waited\<rparr>)"
    by (rule control_step.main, rule join_tcp[where h = Waited]) (simp_all add: P)
  have six: "?R (?P4\<lparr>main_at := Joining (Joined ?r) Waited\<rparr>) ?P6"
    using control_step.main[OF join_http[of "?P4\<lparr>main_at := Joining (Joined ?r) Waited\<rparr>" "Joined ?r" ?r' again]] by simp
  have seven: "?R ?P6 ?Q"
    by (rule control_step.main, rule all_joined[where r = ?r and r' = ?r']) simp
  have next_step: "(?R ^^ Suc n) u w" if "(?R ^^ n) u v" "?R v w" for n u v w using that by auto
  have "(?R ^^ 0) ?P ?P" by simp
  note next_step[OF next_step[OF next_step[OF next_step[OF this four(1)] four(2)]
      four(3)[OF TrueI]] four(4)[OF TrueI]]
  from next_step[OF next_step[OF next_step[OF this five] six] seven]
  have "(?R ^^ 7) ?P ?Q" by (simp only: numeral_eq_Suc) (simp add: numeral_eq_Suc)
  moreover have "control_step again True program_init ?P"
    by (rule control_step.main[OF ctrl_c]) (simp add: program_init_def)
  moreover have "\<nexists>R. control_step again outside ?Q R"
    by (auto elim!: control_step.cases main_step.cases simp: running_def)
  ultimately show thesis by (intro that[of ?P ?Q]) (simp_all add: P)
qed

end
