(* ===== verification/Http_Thread.thy ===== *)
theory Http_Thread
  imports Node_Program
begin

text \<open>
  \<open>httpServer\<close> of httpServer/httpMain.c, the thread on its own: how it waits for the stop flag
  and what the end of the daemon does to the connections that are still open.
\<close>

section \<open>The code\<close>

text \<open>
  Without a daemon the thread lowers the stop flag, else it looks at the flag between two sleeps
  of two seconds, during which the other thread and the requests change the state: the list says what
  each sleep brings. \<open>MHD_stop_daemon\<close> then closes the connections that are open and
  notifies of each; their \<open>con_cls\<close> are the last argument.
\<close>

primrec wait_for_stop :: "('h tcp_node_scheme \<Rightarrow> 'h tcp_node_scheme) list \<Rightarrow> ('h, unit) tm" where
  "wait_for_stop [] = cbind (cget shouldWork) (\<lambda>work. if work then cfail Blocked else cret ())"
| "wait_for_stop (sleep # sleeps) =
     cbind (cget shouldWork) (\<lambda>work.
     if work then cbind (cput sleep) (\<lambda>_. wait_for_stop sleeps) else cret ())"

primrec stop_daemon :: "ptr list \<Rightarrow> ('h heap_scheme, unit) cm" where
  "stop_daemon [] = cret ()"
| "stop_daemon (con # cons) = cbind (request_completed con) (\<lambda>_. stop_daemon cons)"

definition httpServer ::
  "bool \<Rightarrow> ('h tcp_node_scheme \<Rightarrow> 'h tcp_node_scheme) list \<Rightarrow> ptr list \<Rightarrow> ('h, unit) tm" where
  "httpServer daemon sleeps cons =
     (if \<not> daemon then stop_working
      else cbind (wait_for_stop sleeps) (\<lambda>_. cbind (stop_daemon cons) (\<lambda>_. stop_working)))"

section \<open>What it does\<close>

abbreviation after_sleeps :: "nat \<Rightarrow> ('s \<Rightarrow> 's) list \<Rightarrow> 's \<Rightarrow> 's" where
  "after_sleeps k sleeps s \<equiv> fold (\<lambda>f. f) (take k sleeps) s"

lemma wait_for_stop_run:
  assumes "\<not> shouldWork (after_sleeps k sleeps s)" "\<And>i. i < k \<Longrightarrow> shouldWork (after_sleeps i sleeps s)"
    and "k \<le> length sleeps"
  shows "wait_for_stop sleeps s = Inr ((), after_sleeps k sleeps s)"
  using assms
proof (induction sleeps arbitrary: s k)
  case Nil
  then show ?case by (simp add: cbind_def)
next
  case (Cons f sleeps)
  show ?case
  proof (cases k)
    case 0
    then show ?thesis using Cons.prems(1) by (simp add: cbind_def)
  next
    case (Suc j)
    have "shouldWork s" using Cons.prems(2)[of 0] Suc by simp
    moreover have "wait_for_stop sleeps (f s) = Inr ((), after_sleeps j sleeps (f s))"
      using Cons.IH[of j "f s"] Cons.prems(1,3) Cons.prems(2)[of "Suc i" for i] Suc by simp
    ultimately show ?thesis using Suc by (simp add: cbind_def)
  qed
qed

text \<open>The connections that are open, in any order: what they hold is freed, and nothing else.\<close>

lemma stop_daemon_run:
  assumes "conns_ok (mem s) conns B F" "storage_rel s rs cat (all_blocks conns B F)"
    and "distinct ns" "set ns = dom conns"
  shows "\<exists>s'. stop_daemon (map (\<lambda>n. h_cls (the (conns n))) ns) s = Inr ((), s') \<and>
    storage_rel s' rs cat F \<and> hframe F s s' \<and> net s' = net s"
  using assms
proof (induction ns arbitrary: s conns)
  case Nil
  then have "conns = Map.empty" by (metis dom_eq_empty_conv empty_set)
  then show ?case using Nil by (simp add: hframe_def)
next
  case (Cons n ns)
  obtain k where n: "conns n = Some k" using Cons.prems(4) by force
  let ?conns = "conns(n := None)"
  obtain s1 where one: "request_completed (h_cls k) s = Inr (NULL, s1)"
    and s1: "storage_rel s1 rs cat (others conns B n F)" "hframe (others conns B n F) s s1"
    by (rule request_completed_run[OF open_serving[OF Cons.prems(1,2) n]])
  note drop = drop_conn[OF Cons.prems(1) s1]
  have net1: "net s1 = net s" by (rule keepsD[OF keeps_completed one])
  have "n \<notin> set ns" using Cons.prems(3) by simp
  then have cls: "map (\<lambda>j. h_cls (the (?conns j))) ns = map (\<lambda>j. h_cls (the (conns j))) ns" by auto
  have "set ns = dom ?conns" using Cons.prems(3,4) by auto
  from Cons.IH[OF drop(1,2) _ this] Cons.prems(3)
  obtain s' where rest: "stop_daemon (map (\<lambda>j. h_cls (the (conns j))) ns) s1 = Inr ((), s')"
    and s': "storage_rel s' rs cat F" "hframe F s1 s'" "net s' = net s1" unfolding cls by auto
  have "hframe F s s'" using others_frame[OF s1(2)] s'(2) by (auto simp: hframe_def)
  then show ?case using one rest n s' net1 by (auto simp: cbind_def)
qed

lemma httpServer_run:
  assumes low: "\<not> shouldWork (after_sleeps k sleeps s)" "\<And>i. i < k \<Longrightarrow> shouldWork (after_sleeps i sleeps s)"
      "k \<le> length sleeps"
    and conns: "conns_ok (mem (after_sleeps k sleeps s)) conns B F"
      "storage_rel (after_sleeps k sleeps s) rs cat (all_blocks conns B F)"
    and ns: "distinct ns" "set ns = dom conns"
  shows "\<exists>s'. httpServer True sleeps (map (\<lambda>n. h_cls (the (conns n))) ns) s = Inr ((), s') \<and>
    storage_rel s' rs cat F \<and> hframe F (after_sleeps k sleeps s) s' \<and> net s' = net (after_sleeps k sleeps s)"
proof -
  let ?t = "after_sleeps k sleeps s"
  obtain s' where stop: "stop_daemon (map (\<lambda>n. h_cls (the (conns n))) ns) ?t = Inr ((), s')"
    and s': "storage_rel s' rs cat F" "hframe F ?t s'" "net s' = net ?t"
    using stop_daemon_run[OF conns ns] by blast
  have "\<not> shouldWork s'" using net_flag(1)[OF s'(3)] low(1) by simp
  then have "s'\<lparr>shouldWork := False\<rparr> = s'" by simp
  then have "httpServer True sleeps (map (\<lambda>n. h_cls (the (conns n))) ns) s = Inr ((), s')"
    using wait_for_stop_run[OF low] stop by (simp add: httpServer_def cbind_def stop_working_def)
  then show ?thesis using s' by blast
qed

end
