(* ===== verification/Spec2Isabelle.thy ===== *)
theory Spec2Isabelle
  imports Example_Cluster Example_Daemon Example_Program Cluster_Views Master_Main Http_Thread
begin

text \<open>
  A distributed file system: storage nodes in C (\<open>src/storageLayer\<close>), a master in Rust
  (\<open>src/workspace/master\<close>) and a client in TypeScript (\<open>src/client\<close>). A node keeps
  chunks of files below \<open>data/\<close>, serves them over HTTP and reports to the master over TCP which
  chunks it holds; the client asks the master for nodes and talks to them. The node is modelled in full
  detail, the master's table and tasks and the client's operations on top of it.

  \<^bold>\<open>The program.\<close> \<open>main.c\<close> initialises the catalogue, connects to the master,
  sends it a join message and starts two threads. \<open>httpServer/httpMain.c\<close> answers \<open>POST
  /new-chunk\<close>, \<open>GET /chunk\<close> and \<open>DELETE /remove-file\<close>, through
  \<open>handleNewChunk.c\<close> and \<open>state/fileOperation.c\<close>, \<open>getFileDescriptor.c\<close>
  and \<open>deleteFile.c\<close>. \<open>tcpClient/client.c\<close> waits for health messages of the master
  and answers each with the catalogue, packed by the generated \<open>proto/data.pb-c.c\<close>. Both use the
  catalogue of \<open>state/fileState.c\<close>, a global array of file records behind a mutex, and a stop
  flag. The master keeps one entry per connection (\<open>state/storage_unit.rs\<close>), changed by the
  reader task of the connection (\<open>tcp_handler.rs\<close>) and read by its HTTP handlers.

  \<^bold>\<open>The theories of the node\<close>, in the order they build on each other.

  \<^item> \<open>DFS_Prelude\<close>: the state and error monad of the C code (\<open>cm\<close>, a C failure
    such as a null dereference is a \<open>c_error\<close>), counting loops, the range of \<open>int\<close>.
  \<^item> \<open>C_Heap\<close>: \<open>malloc\<close>, \<open>realloc\<close>, \<open>free\<close> and typed
    access. A heap is a map from addresses to blocks; addresses are never reused, so that a use after free is
    an error of the model; \<open>oom\<close> says which allocations fail. \<open>Heap_Frames\<close>: what
    the heap operations leave alone.
  \<^item> \<open>C_Strings\<close>: \<open>snprintf\<close> with its cut, \<open>%d\<close>,
    \<open>atoi\<close>, paths as words between slashes. \<open>Posix_Fs\<close>, \<open>Fs_Tree\<close>: the
    file system calls the node makes, on a finite tree of directories and files, with a failure of any call
    (\<open>sysfail\<close>), short writes and the number of descriptors that are left
    (\<open>spare_fds\<close>) as parameters.
  \<^item> \<open>Proto_Data\<close>: the messages of \<open>data.proto\<close> as values.
    \<open>Proto_Generated\<close>: every function and descriptor table of \<open>proto/data.pb-c.c\<close>,
    with libprotobuf-c as a parameter; \<open>Proto_Messages\<close>: the contract of the six functions of a
    message type as the locale \<open>generated_message\<close>, an instance for each type, and the two
    parameters \<open>packed_size\<close> and \<open>packer\<close> of the reports as these functions.
  \<^item> \<open>File_State\<close>: \<open>state/fileState.c\<close>, operation by operation.
    \<open>Catalogue\<close>: its abstraction, a list of names with their ids, the relation
    \<open>storage_rel\<close> of the heap to it (every block owned once, nothing leaked), and the refinement
    of each operation.
  \<^item> \<open>State_Encoding\<close>: \<open>return_current_state_encoded_in_protobufs\<close> in its
    phases (\<open>snapshot_mappings\<close> under the mutex, \<open>pack_mappings\<close> and
    \<open>release_mappings\<close> without it), and \<open>tcpClient/protoHandler/serialize.c\<close>.
  \<^item> \<open>File_Operation\<close>: \<open>state/fileOperation.c\<close>; \<open>Chunk_Files\<close>:
    what it does to the tree. \<open>Delete_File\<close>: \<open>deleteFile.c\<close>, whose recursion keeps a
    directory open at each level and so takes stack frames and descriptors.
    \<open>Get_File_Descriptor\<close>: the file of that name.
  \<^item> \<open>Http_Main\<close>: \<open>answer_to_connection\<close>, \<open>request_completed\<close> and
    \<open>handleNewChunk.c\<close>. \<open>Http_Requests\<close>: whole requests,
    \<open>serve_request\<close> being the sequence of calls libmicrohttpd makes for one: the first call, one
    for each piece of the body, the last one and the notification. \<open>Http_Frames\<close>: no request
    touches the link. \<open>Http_Daemon\<close>: all open connections together, their calls in any order, as
    the step relation \<open>daemon_step\<close>: \<open>answer_step\<close> is the last call of a request,
    \<open>call_step\<close> any other. The order of the calls is libmicrohttpd's, as it is documented; the
    calls themselves are the node's.
  \<^item> \<open>Store_Spec\<close>: the interfaces \<open>simulation\<close> and \<open>observed\<close> as
    locales, their client lemmas on histories, and the catalogue as an instance. \<open>Node_Store\<close>:
    the node as a store of chunks, as a second instance. \<open>Node_Tree\<close>: the disk stays a tree
    whatever fails. \<open>Failures\<close>: error branches.
  \<^item> \<open>Tcp_Client\<close>: \<open>tcpClient/client.c\<close>; \<open>Master_Link\<close>: what
    reaches the wire, and that the master's frame reader gets the messages back.
  \<^item> \<open>Node_Threads\<close>: the start and the end of \<open>main.c\<close>,
    \<open>receive_messages\<close> in its steps (\<open>tcp_next\<close>, one for each stretch of code
    between two accesses to what the threads share; one after the other they are the function).
    \<open>Node_Program\<close>: both threads together, with all open connections, as the step relation
    \<open>program_step\<close>: a step of the link or a call of the server; the invariant
    \<open>node_program_ok\<close> of heap, disk, connections, report and wire; and that the program can
    always be brought to its end. The program as it is has its argument \<open>held\<close> false; with
    \<open>held\<close> no request takes effect while a report is made, as if the mutex were held for all of
    it. Such runs are runs of the program. \<open>Http_Thread\<close>: \<open>httpServer\<close> as one
    function, with the end of the daemon.

  \<^bold>\<open>The theories of the master, the client and the whole.\<close>

  \<^item> \<open>Master_State\<close>: the table and its operations. \<open>Master_Conn\<close>: what a
    message of a node does to it (\<open>handle_message\<close>) and the loop of one connection.
    \<open>Master_Tasks\<close>: all tasks together as the step relation \<open>master_step\<close>: a
    connection is accepted, bytes arrive, a frame is read, a reader ends, the timer of a sender fires, a
    health check, or a part of it, goes out, a request takes a turn. \<open>Master_Http\<close>: the routes
    and handlers of the clients' requests. \<open>Master_Main\<close>: \<open>main.rs\<close> and
    \<open>tcp_main.rs\<close>, the two services from the binding of their ports to their end and
    \<open>main\<close> with its select and its joins, as \<open>control_step\<close>; \<open>outside\<close>
    says whether a service may fail or end for a reason outside the program.
  \<^item> \<open>Cluster\<close>: a node and the master, from the node's start to the master's lookups, one
    activity after the other. \<open>Cluster_Views\<close>: what the master sees of a node whose threads
    interleave.
  \<^item> \<open>Client\<close>: \<open>insertFile.ts\<close>, \<open>readFile.ts\<close>,
    \<open>removeFile.ts\<close> and the requests they make. \<open>Client_Store\<close>: insertion and
    reading, for any table that shows what the nodes hold. \<open>Cluster_Files\<close>: the same with the
    master's tasks, as one store of files.
  \<^item> \<open>Examples\<close>, \<open>Example_Daemon\<close>, \<open>Example_Program\<close>,
    \<open>Example_Codec\<close>, \<open>Example_Cluster\<close>: concrete nodes, connections whose calls
    interleave, a run with a body arriving during a report, a concrete library and a concrete cluster the
    properties are applied to.

  \<^bold>\<open>State.\<close> The record \<open>heap\<close> (memory) is extended by
  \<open>StorageStateOuter\<close> (the catalogue of \<open>headers/fileState.h\<close>),
  \<open>storage_node\<close> (the disk) and \<open>tcp_node\<close> (the socket's answers, the bytes sent,
  \<open>shouldWork\<close>), so that an operation of a lower layer runs as it is in a higher one.
  \<open>master_state\<close> is the table (\<open>TcpStorage\<close>) with a \<open>conn_task\<close> for
  each connection; \<open>world\<close> is a table and the nodes by their addresses.

  \<^bold>\<open>What is shown.\<close> For flat file names and uploads that finish one file before the next
  begins, which \<open>admissible\<close> says of a history, the node is a store: any history of requests does
  what the abstract store does (C1), and so does any interleaving of the calls of open connections (C5); the
  catalogue never leaks and never fails (C11, C14), a chunk uploaded is the chunk fetched (C12), also after it
  is uploaded again (C32), a deletion removes exactly its file (C13, C22), the disk stays a tree whatever
  fails (C23), and the test for earlier chunks says what it means to (C24). A file the client inserts over
  several nodes is read back as it was, once the master has read the nodes' reports (C2). A node that starts,
  serves and reports is located by the master for exactly what it stores (C3), and when its threads
  interleave, for what it stored when the last report read was made (C4), in both cases while no other open
  connection comes from its address; the master's tasks do not disturb each other (C6, C7), and its requests
  are answered from the table (C8, C9). A shutdown completes once it is sent (C10), unless a service has ended
  first (C33). The link sends whole frames that the master reads back (C20, C21, C25, C26). The threads of a
  node, with any number of open connections, run safely to an end at which the program owns nothing but the
  object of the catalogue and the messages it never frees, along all runs in which no request takes effect
  during a report (C15, C17); along these they never wait for each other for ever (C16). One that ends stops
  the other in every run (C27, C28). Without that restriction they race (C18, C38). The search of the
  catalogue finds what is listed (C34). The other properties delimit this: interleaved uploads (C19), restarts
  (C30, C31), memory or files that fail (C29, C39), names that nest, are empty or too long (C35, C36, C40),
  the client's deletion (C37).

  \<^bold>\<open>Bounds.\<close> Loops over arrays and lists are structural and need no fuel. The recursion of
  \<open>remove_directory\<close> takes the number of stack frames and of descriptors as arguments:
  \<open>deep_enough\<close> (more frames than the tree is high, and a descriptor for each level of
  directories) is enough by C22, and by C40 no number is for a path of 1023 characters. The calls
  \<open>send\<close> and \<open>recv\<close> answer from a list; an exhausted list is the error
  \<open>Blocked\<close>, and C20, C26 say how much of it is enough. The client repeats a refused upload
  without end: \<open>tries\<close> is fuel, and by C2 one try is enough for the nodes it is about. Counters
  are \<open>int\<close> with overflow as an error (\<open>int_succ\<close>), sizes are natural numbers,
  lengths on the wire 32-bit words.

  \<^bold>\<open>Not modelled.\<close> Printing, logging and \<open>perror\<close>. The sockets below
  \<open>send\<close>, \<open>recv\<close> and \<open>connect\<close>: what each \<open>recv\<close> hands
  over is an argument, and in C3 it is one health check in one piece. libmicrohttpd and libprotobuf-c, prost,
  tokio, actix and axios, which are parameters or steps. Descriptors held by responses that are still being
  sent: \<open>spare_fds\<close> does not change. The body of a request other than a \<open>POST\<close>.
  Permissions, links and the limits of names in the file system. Of the master, the time between health
  checks; that its tasks begin with the bound port and end with \<open>main\<close>; and which requests the
  HTTP server still answers while it is told to stop: a connection or a request may come at any time. The
  bytes of a report enter the wire in one step. Of the client, where its local files are, and
  \<open>index.ts\<close>, which is a stub.
\<close>

text \<open>C1: after any history of uploads and deletions of flat files, each admissible where it comes, the
  node answers a \<open>GET\<close> of any chunk with what the abstract store holds for it after the same history.\<close>

theorem node_history_then_fetch:
  assumes "node_rel s cat st F" "mhd_serves m" "2 \<le> depth" "admissible node_pre node_spec xs (cat, st)" "in_int c"
  shows "\<exists>s'. cbind (run_all (node_step m depth) xs) (\<lambda>_. fetch m depth (f, c)) s
      = Inr (snd (fold node_spec xs (cat, st)) (f, c), s') \<and>
    node_srel m depth F s' (fold node_spec xs (cat, st))"
  using node_store.view_after[of m depth F s "(cat, st)" xs "(f, c)"] assms by (simp add: node_srel_def)

lemma node_history_then_fetch_witness:
  "\<exists>s'. cbind (run_all (node_step mhd0 2) [UploadOp ''a'' 2 [[5], [6]], DeleteOp ''b'', DeleteOp ''a'', UploadOp ''b'' 1 [[9]]])
      (\<lambda>_. fetch mhd0 2 (''b'', 1)) node1 = Inr (Some [9], s')"
proof -
  let ?xs = "[UploadOp ''a'' 2 [[5], [6]], DeleteOp ''b'', DeleteOp ''a'', UploadOp ''b'' 1 [[9]]]"
  have "admissible node_pre node_spec ?xs ([(''a'', [1])], store1)"
    by (simp add: spec_upload_def spec_delete_def cat_insert_def serial_def store1_def)
  moreover have "snd (fold node_spec ?xs ([(''a'', [1])], store1)) (''b'', 1) = Some [9]"
    by (simp add: spec_upload_def spec_delete_def cat_insert_def store1_def)
  ultimately show ?thesis
    using node_history_then_fetch[of node1 "[(''a'', [1])]" store1 "{}" mhd0 2 ?xs 1 "''b''"] by auto
qed







text \<open>C5: for flat names, as long as the upload of one file is finished before that of the next takes effect: whatever
  the order in which the daemon makes the calls of its open connections, and wherever clients go
  away, no call fails, and the requests take effect one at a time in the order of their last calls: catalogue
  and disk are those of that sequence, each body is the pieces of its own connection, what a \<open>GET\<close>
  sends is what the store has at its turn, and only the open connections hold memory.\<close>

theorem requests_linearized:
  assumes "node_rel s cat st F" "mhd_serves m" "2 \<le> depth" "daemon_steps m depth (Up s Map.empty []) D"
    and "admissible event_pre event_spec (events D) (cat, st)"
  shows "\<exists>s' conns B. D = Up s' conns (events D) \<and> admissible event_ok event_spec (events D) (cat, st) \<and>
    node_rel s' (fst (fold event_spec (events D) (cat, st))) (snd (fold event_spec (events D) (cat, st)))
      (all_blocks conns B F) \<and> conns_ok (mem s') conns B F"
proof -
  have "daemon_ok F (cat, st) (Up s Map.empty [])" using assms(1) by (auto simp: all_blocks_def conns_ok_def)
  from daemon_ok_reachable[OF assms(4) this assms(2,3,5)] show ?thesis by (cases D) auto
qed

lemma requests_linearized_witness:
  "\<exists>s' conns B. daemon_steps mhd0 2 (Up node0 Map.empty []) (Up s' conns [Stored ''b'' 1 [6], Stored ''b'' 0 [5, 7]]) \<and>
    node_rel s' [(''b'', [1, 0])] [(''b'', 1) \<mapsto> [6], (''b'', 0) \<mapsto> [5, 7]] (all_blocks conns B {})"
proof -
  let ?es = "[Stored ''b'' 1 [6], Stored ''b'' 0 [5, 7]]"
  obtain conns s' where run: "daemon_steps mhd0 2 (Up node0 Map.empty []) (Up s' conns ?es)"
    and pre: "admissible event_pre event_spec ?es ([], Map.empty)"
    using interleaved_run unfolding comes_to_def by blast
  have "fold event_spec ?es ([], Map.empty) = ([(''b'', [1, 0])], [(''b'', 1) \<mapsto> [6], (''b'', 0) \<mapsto> [5, 7]])"
    by (simp add: spec_upload_def cat_insert_def)
  then show ?thesis using requests_linearized[OF node_rels(1) mhd0_serves order_refl run] pre run by auto
qed

text \<open>C6: in every interleaving of the master's tasks, the table has for each connection exactly what its own
  messages leave, nothing once its reader has ended, and nothing of a connection that was never
  accepted; its flag is up from the start, before any join message, until its reader ends; and what has been
  written to it are health checks, each perhaps cut short, since the sender does not look at how much was taken.\<close>

theorem master_independent:
  assumes "master_steps decode encode (master_init replication) M"
  shows "(tasks M cid = None \<longrightarrow> entries cid (tcp_storage M) = []) \<and>
    (\<forall>k. tasks M cid = Some k \<longrightarrow>
      entries cid (tcp_storage M)
        = (if reading k then fold (message_entries decode cid (task_addr k)) (frames_read k) [] else []) \<and>
      shared_conn_state k = reading k \<and>
      (\<exists>ns. written k = concat (map (\<lambda>n. take n (health_check encode cid)) ns)))"
proof -
  have "task_ok decode encode cid (tasks M cid) (entries cid (tcp_storage M))"
    using master_ok_reachable[OF assms] by (simp add: master_ok_def)
  then show ?thesis by (cases "tasks M cid") (simp_all add: task_ok_def)
qed

lemma master_independent_witness:
  "entries ''u1'' (tcp_storage joined_master) = [\<lparr>connection_id = ''u1'', ip = ''10.0.0.1'', files_to_chunks = []\<rparr>] \<and>
   entries ''u3'' (tcp_storage joined_master) = []"
proof -
  have "tasks joined_master ''u1'' = Some (joined_task ''10.0.0.1'')" "tasks joined_master ''u3'' = None"
    by (simp_all add: joined_master_def)
  moreover have "fold (message_entries decode0 ''u1'' ''10.0.0.1'') [join0] []
      = [\<lparr>connection_id = ''u1'', ip = ''10.0.0.1'', files_to_chunks = []\<rparr>]"
    by (simp add: message_entries_def codec0)
  ultimately show ?thesis
    using master_independent[OF joined_reachable, of "''u1''"] master_independent[OF joined_reachable, of "''u3''"]
    by (simp add: joined_task_def accept_task_def)
qed

text \<open>C7: every address the master gives out for a chunk is that of a connection whose reader still runs, and whose
  own messages report the chunk.\<close>

theorem located_is_open:
  assumes "master_steps decode encode (master_init replication) M" "a \<in> set (get_location f i (tcp_storage M))"
  shows "\<exists>cid k. tasks M cid = Some k \<and> reading k \<and> shared_conn_state k \<and> task_addr k = a \<and>
    (\<exists>e \<in> set (fold (message_entries decode cid a) (frames_read k) []). reports e f i)"
  by (rule located_open[OF assms])

lemma located_is_open_witness:
  "\<exists>M :: master_state. ''10.0.0.1'' \<in> set (get_location ''a'' 1 (tcp_storage M)) \<and> (\<exists>cid k. tasks M cid = Some k \<and> task_addr k = ''10.0.0.1'')"
proof -
  obtain M where M: "master_steps (codec_decode lib0) (codec_encode lib0) (master_init 1) M"
    and a: "''10.0.0.1'' \<in> set (get_location ''a'' 1 (tcp_storage M))" by (rule reported_state0)
  from located_is_open[OF M a] show ?thesis using a by blast
qed

text \<open>C8: for a write, while the connections come from different addresses and are at least as many as there are to be
  replicas, the master returns as many distinct addresses as replicas: those of consecutive connections from the
  next turn on, in the order of the hash set; and the next request goes on with the connection after them.\<close>

theorem write_turns:
  assumes "turn_ok t" "connections t \<noteq> []" "distinct (map ip (connections t))"
    and "r \<le> int (length (connections t))" "\<And>xs. mset (hash_order xs) = mset xs"
  shows "\<exists>addrs i. http_main hash_order r ''GET'' ''/server_to_write'' item t
      = Inr (Json (Strings addrs), t\<lparr>index_to_write := i\<rparr>) \<and>
    mset addrs = mset (turns (connections t) (next_turn t) (nat r)) \<and> distinct addrs \<and> length addrs = nat r \<and>
    turn_ok (t\<lparr>index_to_write := i\<rparr>) \<and>
    next_turn (t\<lparr>index_to_write := i\<rparr>) = (next_turn t + nat r) mod length (connections t)"
  using return_distinct_servers[OF assms] by (auto simp: http_main_def cbind_def)

lemma write_turns_witness:
  "\<exists>addrs i. http_main rev 2 ''GET'' ''/server_to_write'' no_body table0
      = Inr (Json (Strings addrs), table0\<lparr>index_to_write := i\<rparr>) \<and>
    mset addrs = {#''10.0.0.1'', ''10.0.0.2''#} \<and> distinct addrs"
proof -
  have "mset (turns (connections table0) (next_turn table0) 2) = {#''10.0.0.1'', ''10.0.0.2''#}"
    by (simp add: turns_def next_turn_def table0_run numeral_2_eq_2)
  moreover have "distinct (map ip (connections table0))" by (simp add: table0_run)
  ultimately show ?thesis using write_turns[of table0 2 rev no_body] by (auto simp: table0_run)
qed

text \<open>C9: the master answers a request for the locations of a chunk with the address of every connection that
  reports it, each once; for the ids of a file with those its connections report, each once and ascending; and for
  the list of files with every name reported, each once; and its table stays as it is.\<close>

theorem lookups_exact:
  assumes "in_i32 i"
  shows "(\<exists>addrs. http_main hash_order r ''POST'' ''/chunk-location'' \<lparr>json_file_name = Some f, json_chunk_id = Some i, json_chunk_ids = None\<rparr> t = Inr (Json (Strings addrs), t) \<and>
      set addrs = {ip c | c. c \<in> set (connections t) \<and> reports c f i} \<and> distinct addrs) \<and>
    (\<exists>ids. http_main hash_order r ''POST'' ''/chunks'' (file_body f) t = Inr (Json (Ints ids), t) \<and>
      set ids = (\<Union>c \<in> set (connections t). set (first_ids f c)) \<and> sorted ids \<and> distinct ids) \<and>
    (\<exists>names. http_main hash_order r ''GET'' ''/file-list'' no_body t = Inr (Json (Strings names), t) \<and>
      set names = {mapping_filename m | c m. c \<in> set (connections t) \<and> m \<in> set (files_to_chunks c)} \<and>
      distinct names)"
  using assms by (simp add: http_main_def handler_defs get_location_exact get_chunks_exact get_file_list_exact)

lemma lookups_exact_witness:
  "\<exists>addrs. http_main rev 2 ''POST'' ''/chunk-location'' \<lparr>json_file_name = Some ''a'', json_chunk_id = Some 1,
      json_chunk_ids = None\<rparr> (master world1) = Inr (Json (Strings addrs), master world1) \<and> set addrs = {''10.0.0.2''}"
proof -
  have "{ip c | c. c \<in> set (connections (master world1)) \<and> reports c ''a'' 1} = {''10.0.0.2''}"
    by (auto simp: world1_connections reports_def to_mapping_def
        intro!: exI[of _ "\<lparr>connection_id = ''u2'', ip = ''10.0.0.2'', files_to_chunks = [to_mapping (''a'', [1])]\<rparr>"])
  moreover have "in_i32 1" by (simp add: in_i32_def)
  ultimately show ?thesis using lookups_exact[of 1 rev 2 "''a''" "master world1"] by auto
qed

text \<open>C10: once main has left its \<open>select!\<close>, it and the services take at most seven more steps, and as long as
  main has not ended there is a next one that needs no failure of a service and no other event from outside: the
  shutdown that main has sent is enough. After Ctrl-C both services are joined and main returns; after the end of a
  service main panics, since \<open>join!\<close> polls a handle again whose result \<open>select!\<close> took.\<close>

theorem shutdown_completes:
  assumes "control_steps Panics program_init P" "main_at P \<noteq> Selecting"
    and "(control_step Panics outside ^^ n) P Q"
  shows "n \<le> 7 \<and> ((\<exists>R. control_step Panics False Q R) \<or>
      (if hd (printed Q) = ''Shutdown signal received''
       then main_at Q = Returned \<and> last (printed Q) = ''All services shut down''
       else main_at Q = Panicked \<and> ''All services shut down'' \<notin> set (printed Q)))"
proof
  show "n \<le> 7" using run_bounded[OF assms(3)] left_after_select[OF assms(2)] by simp
  have run: "(control_step Panics outside)\<^sup>*\<^sup>* P Q" by (rule relpowp_imp_rtranclp[OF assms(3)])
  have "program_ok Q" by (rule program_ok_run[OF run program_ok_run[OF assms(1) program_ok_init]]) simp_all
  from program_ends[OF this select_left[OF run assms(2)]] show "(\<exists>R. control_step Panics False Q R) \<or>
      (if hd (printed Q) = ''Shutdown signal received''
       then main_at Q = Returned \<and> last (printed Q) = ''All services shut down''
       else main_at Q = Panicked \<and> ''All services shut down'' \<notin> set (printed Q))" by auto
qed

lemma shutdown_completes_witness:
  "\<exists>P Q. control_step Panics True program_init P \<and> (control_step Panics False ^^ 7) P Q \<and>
     main_at Q = Returned \<and> last (printed Q) = ''All services shut down''"
proof -
  obtain P Q where P: "control_step Panics True program_init P" "main_at P = Joining Waited Waited"
    and Q: "(control_step Panics False ^^ 7) P Q" "\<nexists>R. control_step Panics False Q R"
    "hd (printed Q) = ''Shutdown signal received''" by (rule orderly_run)
  have "control_steps Panics program_init P" using P(1) by (rule r_into_rtranclp)
  moreover have "main_at P \<noteq> Selecting" using P(2) by simp
  ultimately show ?thesis using shutdown_completes[OF _ _ Q(1)] P(1) Q by auto
qed

text \<open>C11: after any history of insertions and removals, printing the catalogue shows the catalogue of the
  abstract history, whatever the array, the strings and the id arrays went through on the heap.\<close>

theorem catalogue_history_then_print:
  assumes "cat_rel F s cat" "admissible cat_pre cat_spec xs cat"
  shows "\<exists>s'. cbind (run_all cat_step xs) (\<lambda>_. print_storage_state) s = Inr (fold cat_spec xs cat, s') \<and>
    cat_rel F s' (fold cat_spec xs cat)"
  using cat_store.view_after[of F s cat xs] assms by simp

lemma catalogue_history_then_print_witness:
  "\<exists>s'. cbind (run_all cat_step [InsertOp ''a'' 1 False, InsertOp ''b'' 1 False, InsertOp ''b'' 2 True, RemoveOp ''a''])
      (\<lambda>_. print_storage_state) node0 = Inr ([(''b'', [1, 2])], s')"
proof -
  let ?xs = "[InsertOp ''a'' 1 False, InsertOp ''b'' 1 False, InsertOp ''b'' 2 True, RemoveOp ''a'']"
  have "cat_rel {} node0 []" unfolding cat_rel_def by (intro conjI exI, rule rel0) simp_all
  moreover have "admissible cat_pre cat_spec ?xs []" by (simp add: cat_insert_def)
  ultimately show ?thesis
    using catalogue_history_then_print[of "{}" node0 "[]" ?xs] by (auto simp: cat_insert_def)
qed

text \<open>C12: a chunk of a file at any depth of the tree that is not stored yet, the file being the last one of the catalogue
  or having no chunk on disk, uploaded in any pieces, is answered with its id and size, and a \<open>GET\<close> for it then
  sends a file of exactly the bytes uploaded.\<close>

theorem upload_then_get:
  assumes "storage_rel s rs cat F" "\<not> locked s" "no_oom s" "cat_bounded cat" "chunk_free (fs s) f c"
    and has: "directoryHasFiles (dir_path f) (fs s) \<Longrightarrow> cat \<noteq> [] \<and> fst (last cat) = f"
    and m: "chunk_headers m f c" "\<And>n l. response_from_fd m n l" "queue_response m http_ok"
    and ps: "\<forall>p \<in> set ps. p \<noteq> []" "ps \<noteq> []"
  shows "\<exists>s1 s2 l. serve_request m depth ''/new-chunk'' ''POST'' ps s
      = Inr (page_reply m http_ok (snprintf 200 (new_chunk_json c (length (concat ps)))), s1) \<and>
    serve_request m depth ''/chunk'' ''GET'' [] s1
      = Inr (Some \<lparr>resp_status = http_ok, resp_type = ''application/octet-stream'',
                   resp_body = FdBody (length (concat ps)) l\<rparr>, s2) \<and>
    fs_lookup (fs s2) l = Some (FReg (concat ps))"
proof -
  let ?h = "directoryHasFiles (dir_path f) (fs s)"
  have last: "?h \<Longrightarrow> cat \<noteq> []" using has by blast
  obtain rs1 s1 where post: "serve_request m depth ''/new-chunk'' ''POST'' ps s
      = Inr (page_reply m http_ok (snprintf 200 (new_chunk_json c (length (concat ps)))), s1)"
    and rel1: "storage_rel s1 rs1 (cat_insert f c ?h cat) F" and fr: "hframe F (s\<lparr>fs := fs s1\<rparr>) s1"
    and disk: "cwd (fs s1) = cwd (fs s)" "fs_quiet (fs s1)"
      "\<And>k. fs_lookup (fs s1) k = saved_lookup (fs s) f c (concat ps) k"
    by (rule post_new_chunk[where depth = depth, OF assms(1-4) refl last assms(5) m(1) ps])
      (assumption, (rule that; assumption))
  have pre: "\<not> locked s1" "no_oom s1" using fr assms(2,3) by (simp_all add: hframe_def no_oom_def)
  obtain s2 where get: "serve_request m depth ''/chunk'' ''GET'' [] s1
      = Inr (get_result m f c (cat_insert f c ?h cat) (fs s1), s2)" and fs2: "fs s2 = fs s1"
    by (rule get_chunk[where depth = depth, OF rel1 pre m(1)]) (rule that; assumption)
  have "cat_has f c (cat_insert f c ?h cat)" using cat_has_insert[of ?h cat f c f c] has by auto
  then show ?thesis
    using post get fs2 saved_chunk_served[OF assms(5) disk(2,1,3) _ m(2,3)] saved_chunk_open(2)[OF assms(5) disk(2,1,3)]
    by auto
qed

lemma upload_then_get_witness:
  "\<exists>s1 s2 l. serve_request mhd0 0 ''/new-chunk'' ''POST'' [[5], [6, 7]] node1
      = Inr (page_reply mhd0 http_ok (snprintf 200 (new_chunk_json 2 3)), s1) \<and>
    serve_request mhd0 0 ''/chunk'' ''GET'' [] s1
      = Inr (Some \<lparr>resp_status = http_ok, resp_type = ''application/octet-stream'', resp_body = FdBody 3 l\<rparr>, s2) \<and>
    fs_lookup (fs s2) l = Some (FReg [5, 6, 7])"
proof -
  have "chunk_free disk1 ''a'' 2"
    by (rule disk_chunk_free[OF disk_rel1]) (simp_all add: store1_def)
  then show ?thesis
    using upload_then_get[of node1 "[rec_a]" "[(''a'', [1])]" "{}" "''a''" 2 mhd0 "[[5], [6, 7]]" 0]
    by (simp add: numeral_3_eq_3)
qed

text \<open>C13: a deletion of a file whose directory stands, whatever subdirectories the directory has, while the stack and the
  descriptors are enough for its depth and its paths fit the buffer, is
  confirmed, takes the file out of the catalogue, removes exactly what is below its directory, and leaves
  every other path of the disk as it was.\<close>

theorem delete_exactly:
  assumes "storage_rel s rs cat F" "\<not> locked s" "no_oom s" "tree_ok (fs s)" "fs_quiet (fs s)"
    and "at_dir (fs s) (dir_words f)" "length f \<le> 506" "connection_value m ''X-Filename'' = Some f"
    and "paths_short (fs s) (dir_words f)" "deep_enough (fs s) (dir_words f) depth (spare_fds (fs s))"
  shows "\<exists>rs' s'. serve_request m depth ''/remove-file'' ''DELETE'' [] s
      = Inr (page_reply m http_ok ''{\"message\":\"successfully deleted\"}'', s') \<and>
    storage_rel s' rs' (cat_remove f cat) F \<and>
    (\<forall>k. fs_lookup (fs s') k = (if prefix (cwd (fs s) @ dir_words f) k then None else fs_lookup (fs s) k))"
  by (rule delete_request[OF assms]) (metis fs_lookup_prune)

lemma delete_exactly_witness:
  "\<exists>rs' s'. serve_request mhd0 2 ''/remove-file'' ''DELETE'' [] node2
      = Inr (page_reply mhd0 http_ok ''{\"message\":\"successfully deleted\"}'', s') \<and>
    storage_rel s' rs' [(''b'', [1])] {} \<and> fs_lookup (fs s') [''data'', ''a'', ''1''] = None \<and>
    fs_lookup (fs s') [''data'', ''b'', ''1''] = Some (FReg [9])"
proof -
  have f: "\<exists>ids. (''a'', ids) \<in> set [(''a'', [1 :: int]), (''b'', [1])]" by simp
  note room = disk_room[OF disk_rel2 simple_ab(1)]
  have "at_dir disk2 (dir_words ''a'')" by (rule disk_at_dir(1)[OF disk_rel2]) simp
  moreover have "connection_value mhd0 ''X-Filename'' = Some ''a''" by (simp add: mhd0_def)
  ultimately obtain rs' s' where run: "serve_request mhd0 2 ''/remove-file'' ''DELETE'' [] node2
      = Inr (page_reply mhd0 http_ok ''{\"message\":\"successfully deleted\"}'', s')"
    and rel: "storage_rel s' rs' (cat_remove ''a'' [(''a'', [1]), (''b'', [1])]) {}"
    and look: "\<forall>k. fs_lookup (fs s') k = (if prefix (cwd disk2 @ dir_words ''a'') k then None else fs_lookup disk2 k)"
    using delete_exactly[OF rel2, of "''a''" mhd0 2] room by auto
  moreover have "dir_words ''a'' = [''data'', ''a'']" by (rule simple_words(1)[OF simple_ab(1)])
  ultimately show ?thesis by auto
qed

text \<open>C14: from its initialisation through any history of insertions and removals to its destruction the
  catalogue frees every block it took, each once, and leaves all the others as they were.\<close>

theorem catalogue_lifetime:
  fixes s :: "'h StorageStateOuter_scheme"
  assumes ok: "heap_ok s" and mem: "no_oom s" and xs: "admissible cat_pre cat_spec xs []"
  shows "\<exists>s'. cbind storage_state_init (\<lambda>_. cbind (run_all cat_step xs) (\<lambda>_. storage_state_destroy)) s
      = Inr ((), s') \<and> mem s' = mem s \<and> \<not> locked s'"
proof -
  obtain s1 :: "'h StorageStateOuter_scheme" where init: "storage_state_init s = Inr ((), s1)"
    and rel1: "storage_rel s1 [] [] (dom (mem s))"
    and s1: "\<not> locked s1" "mem s1 = mem s" "oom s1 = oom s" by (rule storage_state_init_run[OF ok])
  have "cat_rel (dom (mem s)) s1 []" using rel1 s1 mem by (auto simp: cat_rel_def no_oom_def)
  then obtain r s2 where run: "run_all cat_step xs s1 = Inr (r, s2)"
    and rel2: "cat_rel (dom (mem s)) s2 (fold cat_spec xs [])" and fr: "hframe (dom (mem s)) s1 s2"
    using cat_kept.run_all_refines[of "dom (mem s)" s1 "[]" s1 xs] xs by auto
  from rel2 obtain rs where rel: "storage_rel s2 rs (fold cat_spec xs []) (dom (mem s))" "\<not> locked s2"
    by (auto simp: cat_rel_def)
  obtain s' where des: "storage_state_destroy s2 = Inr ((), s')" and m: "mem s' = mem s2 |` dom (mem s)"
    and free: "\<not> locked s'" by (rule storage_state_destroy_run[OF rel])
  have "mem s' = mem s" 
    using m fr s1(2) by (intro ext) (auto simp: hframe_def restrict_map_def domIff)
  with init run des free show ?thesis by (auto simp: cbind_Inr)
qed

lemma catalogue_lifetime_witness:
  "\<exists>s'. cbind storage_state_init (\<lambda>_. cbind (run_all cat_step [InsertOp ''a'' 1 False, InsertOp ''b'' 1 False,
      RemoveOp ''a'', InsertOp ''b'' 2 True]) (\<lambda>_. storage_state_destroy)) node1 = Inr ((), s') \<and>
    mem s' = mem node1 \<and> \<not> locked s'"
  by (rule catalogue_lifetime) (use rel1 in \<open>simp_all add: storage_rel_def cat_insert_def\<close>)

text \<open>C15: from the first line of \<open>main\<close>, which sends one join frame, along every run of the link with the calls of any
  connections in which no request takes effect during a report, the names are flat and the upload of one file is
  finished before the next begins: nothing fails; and when it comes to the last line of \<open>main\<close>, of the blocks
  the program took only the object of the catalogue and the messages of the master are left, with those of
  others as they were.\<close>

theorem program_lifetime:
  fixes s :: "'h tcp_node_scheme"
  assumes "heap_ok s" "no_oom s" "packs_to_size ps pk" "0 \<le> fd" "0 < pton" "0 \<le> conn"
    and "can_send s (4 + length (pk MsgJoin) + n)" "disk_rel (fs s) [] Map.empty" "mhd_serves m" "2 \<le> depth"
  shows "\<exists>st args s1. main_start ps pk fd pton conn s = Inr ((st, args), s1) \<and>
    wire s1 = wire s @ frame (pk MsgJoin) \<and> fs s1 = fs s \<and>
    (\<forall>y. program_steps unpack ps pk m depth True (Run Receiving Starting s1 Map.empty []) y \<longrightarrow>
      admissible event_pre event_spec (program_events y) ([], Map.empty) \<longrightarrow>
      (\<forall>e es. y \<noteq> Crashed e es) \<and>
      (\<forall>s2 conns es. y = Run TcpDone HttpDone s2 conns es \<longrightarrow>
        (\<exists>s3. main_end st args s2 = Inr ((), s3) \<and>
          (\<forall>p. mem s3 p = mem s p \<or> mem s p = None \<and>
             (p = st \<and> mem s3 p = Some StateB \<or> (\<exists>msg. mem s3 p = Some (MsgB (Some msg))))))))"
proof -
  obtain st args s1 where start: "main_start ps pk fd pton conn s = Inr ((st, args), s1)" "started st args (mem s) s1"
    "wire s1 = wire s @ frame (pk MsgJoin)" "fs s1 = fs s" by (rule main_start_run[OF assms(1-7)])
  have disk: "disk_rel (fs s1) [] Map.empty" using assms(8) start(4) by simp
  note safe = program_safe[OF _ started_program[OF start(2) disk] assms(3,9,10)]
  note ends = program_end[OF start(2) disk assms(3,9,10)]
  have "y \<noteq> Crashed e es" if "program_steps unpack ps pk m depth True (Run Receiving Starting s1 Map.empty []) y"
      "admissible event_pre event_spec (program_events y) ([], Map.empty)" for y e es
    using safe[OF that] by auto
  moreover have "\<exists>s3. main_end st args s2 = Inr ((), s3) \<and>
        (\<forall>p. mem s3 p = mem s p \<or> mem s p = None \<and>
           (p = st \<and> mem s3 p = Some StateB \<or> (\<exists>msg. mem s3 p = Some (MsgB (Some msg)))))"
    if "program_steps unpack ps pk m depth True (Run Receiving Starting s1 Map.empty []) y"
      "admissible event_pre event_spec (program_events y) ([], Map.empty)" "y = Run TcpDone HttpDone s2 conns es"
    for y s2 conns es using ends that by simp
  ultimately show ?thesis using start(1,3,4) by blast
qed

lemma program_lifetime_witness:
  "\<exists>st args s1 s2 s3. main_start size0 pack0 3 1 0 node0 = Inr ((st, args), s1) \<and>
    program_steps unpack0 size0 pack0 mhd0 2 True (Run Receiving Starting s1 Map.empty []) (Run TcpDone HttpDone s2 Map.empty []) \<and>
    main_end st args s2 = Inr ((), s3)"
proof -
  have pre: "heap_ok node0" "no_oom node0" "(0 :: int) \<le> 3" "(0 :: int) < 1" "(0 :: int) \<le> 0"
    "can_send node0 (4 + length (pack0 MsgJoin) + 0)" "disk_rel (fs node0) [] Map.empty"
    by (simp_all add: node_defs heap_ok_def no_oom_def can_send_def eager_def credits_def pack0_def)
  from program_lifetime[OF pre(1,2) packs0 pre(3-7) mhd0_serves order_refl, of unpack0]
  obtain st args s1 where start: "main_start size0 pack0 3 1 0 node0 = Inr ((st, args), s1)"
    and ends: "\<And>s2 conns es. program_steps unpack0 size0 pack0 mhd0 2 True
        (Run Receiving Starting s1 Map.empty []) (Run TcpDone HttpDone s2 conns es) \<Longrightarrow>
      admissible event_pre event_spec es ([], Map.empty) \<Longrightarrow> \<exists>s3. main_end st args s2 = Inr ((), s3)"
    using program_events.simps(1) by metis
  let ?R = "program_step unpack0 size0 pack0 mhd0 2 True"
  let ?s2 = "s1\<lparr>shouldWork := False\<rparr>"
  have "\<exists>t. ?R (Run Receiving Starting s1 Map.empty []) (Run t Starting (if t = Waiting then s1 else ?s2) Map.empty []) \<and>
      t \<in> {Waiting, TcpDone}"
    using program_step.tcp[OF closes_fits, of unpack0 size0 pack0 Receiving s1]
    by (cases "shouldWork s1") (auto simp: cbind_def stop_working_def)
  moreover have "?R (Run Waiting Starting s1 Map.empty []) (Run TcpDone Starting ?s2 Map.empty [])"
    using program_step.tcp[OF closes_fits, of unpack0 size0 pack0 Waiting s1] by (simp add: cbind_def stop_working_def)
  moreover have "?R (Run TcpDone Starting ?s2 Map.empty []) (Run TcpDone HttpDone (?s2\<lparr>shouldWork := False\<rparr>) Map.empty [])"
    by (rule program_step.http_no_daemon)
  ultimately have "?R\<^sup>*\<^sup>* (Run Receiving Starting s1 Map.empty []) (Run TcpDone HttpDone ?s2 Map.empty [])"
    by (auto intro: converse_rtranclp_into_rtranclp)
  then show ?thesis using start ends by (metis admissible.simps(1))
qed

text \<open>C16: whatever a node has come to, with requests open and a report half made, along a run in which no request took
  effect during a report, the names are flat and the upload of one file is finished before the next begins, it can
  be brought to its end along such a run: when the master closes the connection and the kernel takes the report, both
  threads end, with every connection closed. The link and the server never wait for each other.\<close>

theorem node_never_stuck:
  assumes "node_rel s cat st F" "packs_to_size ps pk" "mhd_serves m" "2 \<le> depth"
    and "program_steps unpack ps pk m depth True (Run Receiving Starting s Map.empty []) (Run t h s' conns es)"
    and "admissible event_pre event_spec es (cat, st)"
    and "\<forall>e. prefix e es \<longrightarrow> can_send s' (4 + length (report_of pk (cat, st) e))"
  shows "\<exists>s''. program_steps unpack ps pk m depth True (Run t h s' conns es) (Run TcpDone HttpDone s'' Map.empty es)"
proof (rule program_can_end)
  have "node_program_ok pk F (mem s) (cat, st) (wire s) (Run Receiving Starting s Map.empty [])"
    using assms(1) by (intro start_ok(2)) simp
  from program_safe[OF assms(5) this assms(2-4)]
  show "node_program_ok pk F (mem s) (cat, st) (wire s) (Run t h s' conns es)" using assms(6) by simp
  show "stop_told (Run t h s' conns es)" by (rule stop_told_steps[OF assms(5)]) simp
  show "finite (dom conns)" using finite_conns_steps[OF assms(5)] by simp
qed (use assms in simp_all)

lemma node_never_stuck_witness:
  "\<exists>s'' conns s' arr n. program_steps unpack0 size0 pack0 mhd0 2 True (Run Receiving Starting node0 Map.empty [])
      (Run (Snapped arr n) Serving s' conns [Stored ''a'' 1 [7]]) \<and>
    program_steps unpack0 size0 pack0 mhd0 2 True (Run (Snapped arr n) Serving s' conns [Stored ''a'' 1 [7]])
      (Run TcpDone HttpDone s'' Map.empty [Stored ''a'' 1 [7]])"
proof -
  obtain s' conns arr n where run: "program_steps unpack0 size0 pack0 mhd0 2 True (Run Receiving Starting node0 Map.empty [])
      (Run (Snapped arr n) Serving s' conns [Stored ''a'' 1 [7]])" and answers: "send_answers s' = send_answers node0"
    by (rule half_node)
  have "can_send s' k \<longleftrightarrow> k \<le> 100" for k using node0_sends(1) answers by (simp add: can_send_def)
  then have send: "\<forall>e. prefix e [Stored ''a'' 1 [7]] \<longrightarrow> can_send s' (4 + length (report_of pack0 ([], Map.empty) e))"
    by (simp add: report_of_def pack0_def)
  have "admissible event_pre event_spec [Stored ''a'' 1 [7]] ([], Map.empty)"
    using busy_admissible by (simp add: busy_events_def)
  from node_never_stuck[OF node_rels(1) packs0 mhd0_serves order_refl run this send] run show ?thesis by blast
qed

text \<open>C17: along every run of the program in which no request takes effect while a report is being made, the names are
  flat and the upload of one file is finished before the next begins, whatever the interleaving of the link with the calls of
  all connections: nothing fails; every request did what the store does, in the order of the last calls; the disk,
  the catalogue, the open connections and the report in the making have each their own blocks; and the wire has,
  after what was there, whole reports of the catalogue as it was after some of the requests, later ones later.\<close>

theorem held_reports_safe:
  assumes "node_rel s cat st F" "packs_to_size ps pk" "mhd_serves m" "2 \<le> depth"
    and "program_steps unpack ps pk m depth True (Run Receiving Starting s Map.empty []) y"
    and "admissible event_pre event_spec (program_events y) (cat, st)"
  shows "program_steps unpack ps pk m depth False (Run Receiving Starting s Map.empty []) y \<and>
    (\<forall>e es. y \<noteq> Crashed e es) \<and> node_program_ok pk F (mem s) (cat, st) (wire s) y"
proof -
  have "node_program_ok pk F (mem s) (cat, st) (wire s) (Run Receiving Starting s Map.empty [])"
    using assms(1) by (intro start_ok(2)) simp
  from program_safe[OF assms(5) this assms(2-4,6)] held_is_run[OF assms(5)] show ?thesis by auto
qed

lemma held_reports_safe_witness:
  "\<exists>s' conns. program_steps unpack0 size0 pack0 mhd0 2 True (Run Receiving Starting node0 Map.empty [])
      (Run Receiving Serving s' conns busy_events) \<and>
    node_program_ok pack0 {} (mem node0) ([], Map.empty) (wire node0) (Run Receiving Serving s' conns busy_events)"
proof -
  obtain s' conns where run: "program_steps unpack0 size0 pack0 mhd0 2 True (Run Receiving Starting node0 Map.empty [])
      (Run Receiving Serving s' conns busy_events)" by (rule busy_node)
  then show ?thesis
    using held_reports_safe[OF node_rels(1) packs0 mhd0_serves order_refl run] busy_admissible by auto
qed

text \<open>C18: as it is, the program can crash: from the start of a node, one upload, and its deletion by a client
  between the two phases of a report, end in a use of freed memory.\<close>

theorem report_race_reachable:
  fixes s :: "'h tcp_node_scheme"
  assumes "node_rel s [] Map.empty F" "shouldWork s" "packs_to_size ps pk" "mhd_serves m" "2 \<le> depth"
    and "buffer \<noteq> []" "length buffer < 1024" "unpack (take (length buffer - 1) buffer) = Some msg"
  shows "program_steps unpack ps pk m depth False (Run Receiving Starting s Map.empty [])
    (Crashed UseAfterFree [Stored ''a'' 1 [7], Deleted ''a''])"
  by (rule fresh_node_race[where buffer = buffer and unpack = unpack, OF assms])

lemma report_race_reachable_witness:
  "program_steps unpack0 size0 pack0 mhd0 2 False (Run Receiving Starting node0 Map.empty [])
    (Crashed UseAfterFree [Stored ''a'' 1 [7], Deleted ''a''])"
  by (rule report_race_reachable[where buffer = "[1, 2]" and unpack = unpack0, OF node_rels(1) node0_sends(2) packs0 mhd0_serves order_refl _ _ unpack0_message])
    simp_all

text \<open>C19: a chunk of a known file that was not the last one uploaded to is stored and acknowledged with a 200,
  and a \<open>GET\<close> for it is answered 404: its id went to the record of the other file.\<close>

theorem interleaved_upload_lost:
  assumes "node_rel s cat st F" "cat_bounded cat" "simple_name f" "f \<in> cat_names cat" "f \<noteq> fst (last cat)"
    and "st (f, c) = None" "chunk_headers m f c" "\<forall>p \<in> set ps. p \<noteq> []" "ps \<noteq> []"
  shows "\<exists>s1 s2. serve_request m depth ''/new-chunk'' ''POST'' ps s
      = Inr (page_reply m http_ok (snprintf 200 (new_chunk_json c (length (concat ps)))), s1) \<and>
    fs_lookup (fs s1) (chunk_loc (fs s) f c) = Some (FReg (concat ps)) \<and>
    serve_request m depth ''/chunk'' ''GET'' [] s1
      = Inr (page_reply m http_not_found ''{\"error\":\"404 Not Found\"}'', s2)"
  by (rule interleaved_upload[OF assms])

lemma interleaved_upload_lost_witness:
  "\<exists>s1 s2. serve_request mhd0 0 ''/new-chunk'' ''POST'' [[4]] node2
      = Inr (page_reply mhd0 http_ok (snprintf 200 (new_chunk_json 2 1)), s1) \<and>
    serve_request mhd0 0 ''/chunk'' ''GET'' [] s1
      = Inr (page_reply mhd0 http_not_found ''{\"error\":\"404 Not Found\"}'', s2)"
proof -
  have "store2 (''a'', 2) = None" by (simp add: store2_def)
  then show ?thesis using interleaved_upload_lost[OF node_rels(3), of "''a''" 2 mhd0 "[[4]]" 0] by simp blast
qed

text \<open>C20: for any sequence of health messages followed by the end of the connection the client sends one frame
  with the catalogue for each, stops, and leaves one block of each message allocated.\<close>

theorem messages_answered:
  assumes "storage_rel s rs cat F" "\<not> locked s" "no_oom s" "packs_to_size ps pk"
    and "\<forall>b \<in> set bufs. b \<noteq> [] \<and> unpack (take (length b - 1) b) \<noteq> None"
    and "can_send s (length bufs * (4 + length (pk (health_of cat))))" "shouldWork s" "finite F"
  shows "\<exists>L s'. receive_messages unpack ps pk (map Received bufs @ [Received []]) s = Inr ((), s') \<and>
    storage_rel s' rs cat (L \<union> F) \<and> finite L \<and> card L = length bufs \<and> L \<inter> F = {} \<and>
    wire s' = wire s @ concat (map frame (replicate (length bufs) (pk (health_of cat)))) \<and>
    \<not> shouldWork s' \<and> fs s' = fs s"
  by (rule receive_messages_run[OF assms]) blast

lemma messages_answered_witness:
  "\<exists>L s'. receive_messages unpack0 size0 pack0 (map Received [[4, 0], [4, 0]] @ [Received []]) node1 = Inr ((), s') \<and>
    card L = 2 \<and> storage_rel s' [rec_a] [(''a'', [1])] (L \<union> {}) \<and> \<not> shouldWork s'"
  using messages_answered[OF rel1 _ _ packs0, of "[[4, 0], [4, 0]]" unpack0]
  by (auto simp: unpack0_def pack0_def numeral_2_eq_2)

text \<open>C21: an undisturbed report is a fresh block with the packed health message of exactly the catalogue's
  files and ids; the blocks of the snapshot are freed, and the catalogue and all other blocks are untouched.\<close>

theorem report_exact:
  assumes "storage_rel s rs cat F" "\<not> locked s" "no_oom s" "packs_to_size ps pk"
  shows "\<exists>buf s'. return_current_state_encoded_in_protobufs ps pk s
      = Inr ((buf, length (pk (health_of cat))), s') \<and>
    storage_rel s' rs cat (insert buf F) \<and> buf \<noteq> NULL \<and> buf \<notin> F \<and>
    mem s' buf = Some (ByteB (map Some (pk (health_of cat)))) \<and> hframe F s s'"
  by (rule encode_state_run[OF assms]) blast

lemma report_exact_witness:
  "\<exists>buf s'. return_current_state_encoded_in_protobufs size0 pack0 node2 = Inr ((buf, 3), s') \<and>
    mem s' buf = Some (ByteB [Some 1, Some 2, Some 3])"
proof -
  have pk: "pack0 msg = [1, 2, 3]" "length (pack0 msg) = 3" for msg by (simp_all add: pack0_def)
  then show ?thesis using report_exact[OF rel2 _ _ packs0] by fastforce
qed

text \<open>C22: on a disk whose calls do not fail, with as many stack frames as the tree is high, a descriptor for each level of directories and
  paths that fit the buffer, the recursive removal ends, succeeds, and what it leaves is the disk without the directory; no bound
  on the number of entries is needed.\<close>

theorem remove_directory_exact:
  assumes "tree_ok s" "fs_quiet s" "at_dir s ws" "paths_short s ws" "deep_enough s ws depth fds"
  shows "remove_directory depth fds (join_slash ws) s = Inr (0, prune (cwd s @ ws) s)"
  by (rule remove_directory_run[OF assms])

lemma remove_directory_exact_witness:
  "remove_directory 2 8 (join_slash [''data'', ''a'']) disk2 = Inr (0, prune [''data'', ''a''] disk2)"
proof -
  have "at_dir disk2 [''data'', ''a'']"
    using disk_at_dir(1)[OF disk_rel2, of "''a''"] simple_words(1)[OF simple_ab(1)] by simp
  then show ?thesis
    using remove_directory_exact[of disk2 "[''data'', ''a'']" 2] disk_room[OF disk_rel2 simple_ab(1)] disk2_fds
      simple_words(1)[OF simple_ab(1)] by simp
qed



text \<open>C24: for a proper name that fits the buffer, on a disk whose calls do not fail and where no file stands in the way of the directory,
  the test for an earlier chunk is true exactly when the directory of the file stands and holds a regular file; subdirectories do
  not count.\<close>

theorem has_files_iff:
  assumes "tree_ok s" "fs_quiet s" "good_name f" "length f \<le> 506" "dirs_free s (dir_words f)"
  shows "directoryHasFiles (dir_path f) s \<longleftrightarrow>
    at_dir s (dir_words f) \<and> (\<exists>w bs. fs_lookup s (cwd s @ dir_words f @ [w]) = Some (FReg bs))"
  by (rule directoryHasFiles_iff[OF assms])

lemma has_files_iff_witness:
  "directoryHasFiles (dir_path ''a'') disk1 \<longleftrightarrow>
    at_dir disk1 (dir_words ''a'') \<and> (\<exists>w bs. fs_lookup disk1 (cwd disk1 @ dir_words ''a'' @ [w]) = Some (FReg bs))"
  by (rule has_files_iff[OF _ _ simple_words(3)[OF simple_ab(1)] _ disk_dirs_free[OF disk_rel1 simple_ab(1)]]) simp_all

text \<open>C25: the frames the client sends are read back by the master's reader one by one, for messages of any
  length below 4 GiB, and an incomplete frame at the end is left for later.\<close>

theorem frames_roundtrip:
  assumes "\<forall>m \<in> set ms. length m < 2 ^ 32" "read_frame left = None"
  shows "read_frames (concat (map frame ms) @ left) = (ms, left)"
  by (rule read_frames_stream[OF assms])

lemma frames_roundtrip_witness:
  "read_frames (concat (map frame [[1, 2], [], [3]]) @ [0, 0, 0, 7, 1]) = ([[1, 2], [], [3]], [0, 0, 0, 7, 1])"
  by (rule frames_roundtrip) (simp_all add: read_frame_def read_u32_def)

text \<open>C26: on a socket that takes at least a byte at each call and does not fail, the loop ends and sends the
  whole buffer, within as many calls as it has bytes.\<close>

theorem send_ends:
  assumes "eager answers" "length buf \<le> credits answers"
  shows "\<exists>left. send_loop buf 0 answers out = (Some True, left, out @ buf) \<and> eager left \<and>
    credits answers \<le> credits left + length buf"
  using send_loop_eager[of answers buf 0 out] assms by simp

lemma send_ends_witness:
  "\<exists>left. send_loop [1, 2] 0 [Sent 1, Interrupted, Sent 5] [] = (Some True, left, [] @ [1, 2]) \<and> eager left \<and>
    credits [Sent 1, Interrupted, Sent 5] \<le> credits left + length [1, 2 :: nat]"
  by (rule send_ends) (simp_all add: eager_def credits_def)

text \<open>C27: in every interleaving of the two threads, with the mutex as it is or held longer, a thread that has
  ended has told the other to end, and nothing raises the flag again.\<close>

theorem ended_thread_stops_other:
  assumes "program_steps unpack ps pk m depth held (Run Receiving Starting s Map.empty []) (Run t h s' conns es)"
    and "t = TcpDone \<or> h = HttpDone"
  shows "\<not> shouldWork s'"
proof -
  have "stop_told (Run Receiving Starting s Map.empty [])" by simp
  then have "stop_told (Run t h s' conns es)" using stop_told_steps[OF assms(1)] by blast
  then show ?thesis using assms(2) by simp
qed

lemma ended_thread_stops_other_witness: "\<not> shouldWork (node0\<lparr>shouldWork := False\<rparr>)"
proof (rule ended_thread_stops_other)
  show "program_steps unpack0 size0 pack0 mhd0 2 False (Run Receiving Starting node0 Map.empty [])
      (Run Receiving HttpDone (node0\<lparr>shouldWork := False\<rparr>) Map.empty [])"
    by (rule r_into_rtranclp) (rule program_step.http_no_daemon)
qed simp

text \<open>C28: at the first sleep of the HTTP thread that ends with the stop flag lowered, the thread leaves its loop,
  stops the daemon, which ends the requests that are still open, and returns: what the open connections held is
  freed, and the catalogue, the disk, the link and the blocks of others are as that sleep left them, with the flag lowered.\<close>

theorem http_thread_stops:
  assumes "\<not> shouldWork (after_sleeps k sleeps s)" "\<And>i. i < k \<Longrightarrow> shouldWork (after_sleeps i sleeps s)"
    and "k \<le> length sleeps" "conns_ok (mem (after_sleeps k sleeps s)) conns B F"
    and "storage_rel (after_sleeps k sleeps s) rs cat (all_blocks conns B F)" "distinct ns" "set ns = dom conns"
  shows "\<exists>s'. httpServer True sleeps (map (\<lambda>n. h_cls (the (conns n))) ns) s = Inr ((), s') \<and>
    storage_rel s' rs cat F \<and> hframe F (after_sleeps k sleeps s) s' \<and> net s' = net (after_sleeps k sleeps s)"
  by (rule httpServer_run[OF assms])

lemma http_thread_stops_witness:
  "\<exists>s'. httpServer True [\<lambda>s. s\<lparr>shouldWork := False\<rparr>, \<lambda>s. s\<lparr>wire := [1]\<rparr>] [1] upload_node = Inr ((), s') \<and>
    storage_rel s' [] [] {} \<and> wire s' = wire upload_node"
proof -
  let ?sleeps = "[\<lambda>s :: tcp_node. s\<lparr>shouldWork := False\<rparr>, \<lambda>s. s\<lparr>wire := [1]\<rparr>]"
  let ?t = "upload_node\<lparr>shouldWork := False\<rparr>" and ?conns = "[0 :: nat \<mapsto> upload_conn ''a'' 1\<lparr>h_cls := 1, h_body := [[7]]\<rparr>]"
  let ?B = "\<lambda>_ :: nat. 2 :: ptr"
  have t: "after_sleeps 1 ?sleeps upload_node = ?t" by simp
  have blocks: "all_blocks ?conns ?B {} = conn_blocks 1 2" "others ?conns ?B 0 {} = {}"
    by (auto simp: all_blocks_def others_def)
  have srv: "storage_rel upload_node [] [] (conn_blocks 1 2)" "conn_ok (mem upload_node) 1 2 [7]"
    using serving_upload by (simp_all add: serving_def)
  have "\<exists>s'. httpServer True ?sleeps (map (\<lambda>n. h_cls (the (?conns n))) [0]) upload_node = Inr ((), s') \<and>
    storage_rel s' [] [] {} \<and> hframe {} (after_sleeps 1 ?sleeps upload_node) s' \<and> net s' = net (after_sleeps 1 ?sleeps upload_node)"
  proof (rule http_thread_stops)
    show "conns_ok (mem (after_sleeps 1 ?sleeps upload_node)) ?conns ?B {}"
      unfolding t conns_ok_def using srv(2) blocks(2) by (simp add: upload_conn_def)
    show "storage_rel (after_sleeps 1 ?sleeps upload_node) [] [] (all_blocks ?conns ?B {})"
      unfolding t blocks using srv(1) by simp
    show "set [0] = dom ?conns" by auto
  qed (simp_all add: upload_node_def node_with_def)
  then obtain s' where "httpServer True ?sleeps [1] upload_node = Inr ((), s')" "storage_rel s' [] [] {}" "net s' = net ?t"
    unfolding t by (auto simp: upload_conn_def)
  then show ?thesis using net_flag(2)[of s' ?t] by auto
qed

text \<open>C29: while there is memory for the request, an upload whose chunk file cannot be opened ends the program: the page of
  the answer was never set, and its length is taken. No state of the catalogue can prevent it.\<close>

theorem upload_open_crash:
  assumes "storage_rel s rs cat F" "no_oom s" "chunk_headers m f c" "\<forall>p \<in> set ps. p \<noteq> []" "ps \<noteq> []"
    and "\<not> file_exists (chunk_path f c) (fs s)"
    and "fs_open_append (chunk_path f c) (snd (createDirectories (chunk_path f c) (fs s))) = None"
  shows "serve_request m depth ''/new-chunk'' ''POST'' ps s = Inl NullDeref"
  by (rule post_open_fails[OF assms])

lemma upload_open_crash_witness:
  "serve_request (with_headers mhd0 ''a/1'' 2) 0 ''/new-chunk'' ''POST'' [[5]] node1 = Inl NullDeref"
proof -
  have "\<not> file_exists ''data/a/1/2'' disk1" by code_simp
  moreover have "fs_open_append ''data/a/1/2'' (snd (createDirectories ''data/a/1/2'' disk1)) = None" by code_simp
  ultimately show ?thesis
    using upload_open_crash[OF rel1, of "with_headers mhd0 ''a/1'' 2" "''a/1''" 2 "[[5]]" 0]
    by (simp add: nested_chunk_path)
qed

text \<open>C30: a node started over data of an earlier run ends at the first new chunk of a file that has a chunk on
  disk: the catalogue is empty, and the record before its first one is taken.\<close>

theorem restart_crash:
  assumes "storage_rel s [] [] F" "\<not> locked s" "no_oom s" "directoryHasFiles (dir_path f) (fs s)"
    and "chunk_free (fs s) f c" "chunk_headers m f c" "\<forall>p \<in> set ps. p \<noteq> []" "ps \<noteq> []"
  shows "serve_request m depth ''/new-chunk'' ''POST'' ps s = Inl NullDeref"
  by (rule post_after_restart[OF assms])

lemma restart_crash_witness:
  "serve_request mhd0 0 ''/new-chunk'' ''POST'' [[5]] (node0\<lparr>fs := disk1\<rparr>) = Inl NullDeref"
proof -
  have "storage_rel (node0\<lparr>fs := disk1\<rparr>) [] [] {}" unfolding storage_rel_fs by (rule rel0)
  moreover have "directoryHasFiles (dir_path ''a'') disk1"
    using disk_has_files[OF disk_rel1 simple_ab(1)] by simp
  moreover have "chunk_free disk1 ''a'' 2"
    by (rule disk_chunk_free[OF disk_rel1]) (simp_all add: store1_def)
  ultimately show ?thesis
    using restart_crash[of "node0\<lparr>fs := disk1\<rparr>" "{}" "''a''" 2 mhd0 "[[5]]" 0] node_fields(7)
    by (simp add: no_oom_def)
qed

text \<open>C31: on a node started over data of an earlier run, an upload of a chunk that is on disk is answered as
  saved, and a \<open>GET\<close> for it is answered 404: the catalogue does not get its id.\<close>

theorem restart_lost:
  assumes "storage_rel s [] [] F" "\<not> locked s" "no_oom s" "file_exists (chunk_path f c) (fs s)"
    and m: "chunk_headers m f c" and ps: "\<forall>p \<in> set ps. p \<noteq> []" "ps \<noteq> []"
  shows "\<exists>s1 s2. serve_request m depth ''/new-chunk'' ''POST'' ps s
      = Inr (page_reply m http_ok (snprintf 200 (new_chunk_json c (length (concat ps)))), s1) \<and>
    serve_request m depth ''/chunk'' ''GET'' [] s1
      = Inr (page_reply m http_not_found ''{\"error\":\"404 Not Found\"}'', s2)"
proof -
  obtain rs1 s1 where post: "serve_request m depth ''/new-chunk'' ''POST'' ps s
      = Inr (page_reply m http_ok (snprintf 200 (new_chunk_json c (length (concat ps)))), s1)"
    and rel1: "storage_rel s1 rs1 [] F" and fr: "hframe F s s1"
    by (rule post_existing_chunk[where depth = depth, OF assms(1,3,4) m ps])
  have pre: "\<not> locked s1" "no_oom s1" using fr assms(2,3) by (simp_all add: hframe_def no_oom_def)
  obtain s2 where "serve_request m depth ''/chunk'' ''GET'' [] s1 = Inr (get_result m f c [] (fs s1), s2)"
    by (rule get_chunk[where depth = depth, OF rel1 pre m])
  then show ?thesis using post by (auto simp: get_result_def)
qed

lemma restart_lost_witness:
  "\<exists>s1 s2. serve_request (with_headers mhd0 ''a'' 1) 0 ''/new-chunk'' ''POST'' [[7, 8]] (node0\<lparr>fs := disk1\<rparr>)
      = Inr (page_reply mhd0 http_ok (snprintf 200 (new_chunk_json 1 2)), s1) \<and>
    serve_request (with_headers mhd0 ''a'' 1) 0 ''/chunk'' ''GET'' [] s1
      = Inr (page_reply mhd0 http_not_found ''{\"error\":\"404 Not Found\"}'', s2)"
proof -
  have rel: "storage_rel (node0\<lparr>fs := disk1\<rparr>) [] [] {}" unfolding storage_rel_fs by (rule rel0)
  have ex: "file_exists (chunk_path ''a'' 1) disk1"
    unfolding chunk_path_join[OF simple_words(4)[OF simple_ab(1) in_int_small(1)]] simple_words(2)[OF simple_ab(1)]
    by (subst file_exists_join) (auto simp: proper_path_def proper_name_def show_one less_Suc_eq)
  show ?thesis
    using restart_lost[OF rel, of "''a''" 1 "with_headers mhd0 ''a'' 1" "[[7, 8]]" 0] ex node_fields(7)
    by (simp add: no_oom_def page_reply_def numeral_2_eq_2)
qed

text \<open>C32: while there is memory for the request, an upload, with a body, of a chunk that is stored already is answered as the first one was, and changes
  neither the catalogue nor anything on disk, whatever bytes it carries.\<close>

theorem upload_again:
  assumes "storage_rel s rs cat F" "no_oom s" "file_exists (chunk_path f c) (fs s)"
    and "chunk_headers m f c" "\<forall>p \<in> set ps. p \<noteq> []" "ps \<noteq> []"
  shows "\<exists>rs' s'. serve_request m depth ''/new-chunk'' ''POST'' ps s
      = Inr (page_reply m http_ok (snprintf 200 (new_chunk_json c (length (concat ps)))), s') \<and>
    storage_rel s' rs' cat F \<and> fs s' = fs s"
  by (rule post_existing_chunk[where depth = depth, OF assms]) blast

lemma upload_again_witness:
  "\<exists>rs' s'. serve_request (with_headers mhd0 ''a'' 1) 0 ''/new-chunk'' ''POST'' [[5]] node1
      = Inr (page_reply mhd0 http_ok (snprintf 200 (new_chunk_json 1 1)), s') \<and>
    storage_rel s' rs' [(''a'', [1])] {} \<and> fs s' = disk1"
proof -
  have "file_exists (chunk_path ''a'' 1) disk1"
    unfolding chunk_path_join[OF simple_words(4)[OF simple_ab(1) in_int_small(1)]] simple_words(2)[OF simple_ab(1)]
    by (subst file_exists_join) (auto simp: proper_path_def proper_name_def show_one less_Suc_eq)
  then show ?thesis
    using upload_again[of node1 "[rec_a]" "[(''a'', [1])]" "{}" "''a''" 1 "with_headers mhd0 ''a'' 1" "[[5]]" 0]
    by (simp add: page_reply_def)
qed

text \<open>C33: once \<open>select!\<close> has taken the result of a service that ended, as when its port is taken, main never
  returns and never prints its last line: \<open>join!\<close> polls the handle of that service again, and unless that gives a result
  once more it stays there; where it panics, as tokio says of a handle polled after its end, main can panic at once.\<close>

theorem ended_service_panics:
  assumes "control_steps again program_init P" "main_at P = Joining t h" "t = Taken \<or> h = Taken"
    and "\<And>r. again \<noteq> Gives r"
  shows "(\<forall>Q. control_steps again P Q \<longrightarrow> main_at Q \<noteq> Returned \<and> ''All services shut down'' \<notin> set (printed Q)) \<and>
    (again = Panics \<longrightarrow> control_step again False P (P\<lparr>main_at := Panicked\<rparr>))"
  using taken_never_returns[OF assms] taken_panics[OF assms(2,3)] by blast

lemma ended_service_panics_witness:
  "\<exists>P. control_steps Panics program_init P \<and> printed P = [''TCP task ended unexpectedly'',
      ''TCP error: '' @ ''Failed to bind TCP listener: '' @ ''in use''] \<and>
    (\<forall>Q. control_steps Panics P Q \<longrightarrow> main_at Q \<noteq> Returned)"
proof -
  obtain P where P: "control_steps Panics program_init P" "main_at P = Joining Taken Waited"
    "printed P = [''TCP task ended unexpectedly'', ''TCP error: '' @ ''Failed to bind TCP listener: '' @ ''in use'']"
    by (rule port_taken)
  have "polled_again.Panics \<noteq> Gives r" for r by simp
  from ended_service_panics[OF P(1,2) disjI1[OF refl] this] P(1,3) show ?thesis by blast
qed

text \<open>C34: the search for a chunk opens its file exactly when the catalogue lists the id under the name, and
  changes nothing; the mutex is free again whatever the outcome.\<close>

theorem descriptor_of_listed:
  assumes "storage_rel s rs cat F" "\<not> locked s"
  shows "getFileDescriptor f c s
    = Inr (if cat_has f c cat then fs_open_read (chunk_path f c) (fs s) else None, s)"
  by (rule getFileDescriptor_run[OF assms])

lemma descriptor_of_listed_witness: "getFileDescriptor ''b'' 7 node2 = Inr (None, node2)"
  using descriptor_of_listed[OF rel2, of "''b''" 7] by simp

text \<open>C35: the chunks of a file whose name continues the name of another one after a slash are deleted with the
  other: the catalogue still lists them, and a \<open>GET\<close> for one is answered 404.\<close>

theorem nested_files_deleted:
  assumes rel: "storage_rel s rs cat F" and free: "\<not> locked s" and mem: "no_oom s"
    and disk: "tree_ok (fs s)" "fs_quiet (fs s)" "at_dir (fs s) (dir_words f)"
    and m: "length f \<le> 506" "connection_value m ''X-Filename'' = Some f"
    and room: "paths_short (fs s) (dir_words f)" "deep_enough (fs s) (dir_words f) depth (spare_fds (fs s))"
    and g: "g = f @ ''/'' @ r" "good_name g" "path_fits g c" "cat_has g c cat" and m': "chunk_headers m' g c"
  shows "\<exists>s1 s2 cat'. serve_request m depth ''/remove-file'' ''DELETE'' [] s
      = Inr (page_reply m http_ok ''{\"message\":\"successfully deleted\"}'', s1) \<and>
    print_storage_state s1 = Inr (cat', s1) \<and> cat_has g c cat' \<and>
    serve_request m' depth ''/chunk'' ''GET'' [] s1
      = Inr (page_reply m' http_not_found ''{\"error\":\"404 Not Found\"}'', s2)"
proof -
  obtain rs1 s1 where del: "serve_request m depth ''/remove-file'' ''DELETE'' [] s
      = Inr (page_reply m http_ok ''{\"message\":\"successfully deleted\"}'', s1)"
    and rel1: "storage_rel s1 rs1 (cat_remove f cat) F" and fr: "hframe F (s\<lparr>fs := fs s1\<rparr>) s1"
    and fs1: "fs s1 = prune (cwd (fs s) @ dir_words f) (fs s)"
    by (rule delete_request[OF rel free mem disk m room])
  have pre: "\<not> locked s1" "no_oom s1" using fr free mem by (simp_all add: hframe_def no_oom_def)
  have "g \<noteq> f" using g(1) by auto
  then have has: "cat_has g c (cat_remove f cat)" using g(4) by (rule cat_has_remove_other)
  have "prefix (cwd (fs s) @ dir_words f) (chunk_loc (fs s) g c)"
    using split_slash_append[of f r] by (simp add: chunk_loc_def chunk_words_def dir_words_def g(1))
  then have "fs_lookup (fs s1) (cwd (fs s1) @ chunk_words g c) = None"
    by (simp add: fs1 fs_lookup_prune chunk_loc_def)
  then have "fs_open_read (chunk_path g c) (fs s1) = None"
    using resolve_join[OF proper_chunk_words[OF g(2), of c], of "fs s1"]
    by (simp add: fs_open_read_def chunk_path_join[OF g(3)] split: option.split)
  then have none: "get_result m' g c (cat_remove f cat) (fs s1)
      = page_reply m' http_not_found ''{\"error\":\"404 Not Found\"}''" by (simp add: get_result_def)
  obtain s2 where get: "serve_request m' depth ''/chunk'' ''GET'' [] s1
      = Inr (get_result m' g c (cat_remove f cat) (fs s1), s2)"
    by (rule get_chunk[where depth = depth, OF rel1 pre m'])
  show ?thesis using del print_storage_state_run[OF rel1 pre(1)] has get none by auto
qed

lemma nested_files_deleted_witness:
  "\<exists>s1 s2 cat'. serve_request mhd0 3 ''/remove-file'' ''DELETE'' [] node_nested
      = Inr (page_reply mhd0 http_ok ''{\"message\":\"successfully deleted\"}'', s1) \<and>
    print_storage_state s1 = Inr (cat', s1) \<and> cat_has ''a/b'' 1 cat' \<and>
    serve_request (with_headers mhd0 ''a/b'' 1) 3 ''/chunk'' ''GET'' [] s1
      = Inr (page_reply (with_headers mhd0 ''a/b'' 1) http_not_found ''{\"error\":\"404 Not Found\"}'', s2)"
proof (rule nested_files_deleted[OF rel_nested])
  have a: "dir_words ''a'' = [''data'', ''a'']" by (rule simple_words(1)[OF simple_ab(1)])
  show "at_dir (fs node_nested) (dir_words ''a'')" "paths_short (fs node_nested) (dir_words ''a'')"
    "deep_enough (fs node_nested) (dir_words ''a'') 3 (spare_fds (fs node_nested))" by (simp_all add: a)
  show "''a/b'' = ''a'' @ ''/'' @ ''b''" by simp
  show "good_name ''a/b''" by (simp add: good_name_def proper_name_def)
  show "path_fits ''a/b'' 1" by (rule path_fits_int) simp_all
  show "connection_value mhd0 ''X-Filename'' = Some ''a''" by (simp add: mhd0_def)
qed simp_all

text \<open>C36: while the stack and the descriptors are enough for the depth of \<open>data/\<close> and its paths fit the buffer, a
  deletion of the empty name is confirmed and removes \<open>data/\<close> with all chunks of all files, while the
  catalogue keeps listing them; a \<open>GET\<close> for a chunk of any of them is answered 404.\<close>

theorem delete_everything:
  assumes rel: "storage_rel s rs cat F" and free: "\<not> locked s" and mem: "no_oom s"
    and disk: "tree_ok (fs s)" "fs_quiet (fs s)" "at_dir (fs s) [''data'']"
    and room: "fits_below ''data/'' (fs s) [''data'']" "deep_enough (fs s) [''data''] depth (spare_fds (fs s))"
    and m: "connection_value m ''X-Filename'' = Some ''''" and new: "'''' \<notin> cat_names cat"
  shows "\<exists>s'. serve_request m depth ''/remove-file'' ''DELETE'' [] s
      = Inr (page_reply m http_ok ''{\"message\":\"successfully deleted\"}'', s') \<and>
    (\<forall>k. fs_lookup (fs s') k = (if prefix (cwd (fs s) @ [''data'']) k then None else fs_lookup (fs s) k)) \<and>
    print_storage_state s' = Inr (cat, s') \<and>
    (\<forall>g c m'. good_name g \<longrightarrow> path_fits g c \<longrightarrow> chunk_headers m' g c \<longrightarrow>
      (\<exists>s2. serve_request m' depth ''/chunk'' ''GET'' [] s'
        = Inr (page_reply m' http_not_found ''{\"error\":\"404 Not Found\"}'', s2)))"
proof -
  let ?gone = "prune (cwd (fs s) @ [''data'']) (fs s)"
  have "leads_to ''data/'' [''data'']" unfolding leads_to_def by code_simp
  then have "remove_directory depth (spare_fds (fs s)) (snprintf 512 (''data/'' @ '''')) (fs s) = Inr (0, ?gone)"
    using remove_directory_at[OF disk _ room] by (simp add: snprintf_def)
  from delete_request_gone[OF rel free mem m this] obtain rs' s' where
    run: "serve_request m depth ''/remove-file'' ''DELETE'' [] s
      = Inr (page_reply m http_ok ''{\"message\":\"successfully deleted\"}'', s')"
    and rel': "storage_rel s' rs' cat F" and fr: "hframe F (s\<lparr>fs := fs s'\<rparr>) s'" and fs': "fs s' = ?gone"
    using cat_remove_absent[OF new] by metis
  have pre: "\<not> locked s'" "no_oom s'" using fr free mem by (simp_all add: hframe_def no_oom_def)
  have "\<exists>s2. serve_request m' depth ''/chunk'' ''GET'' [] s'
      = Inr (page_reply m' http_not_found ''{\"error\":\"404 Not Found\"}'', s2)"
    if g: "good_name g" "chunk_headers m' g c" "path_fits g c" for g c m'
  proof -
    have "prefix (cwd (fs s) @ [''data'']) (cwd (fs s') @ chunk_words g c)" using fs' by (simp add: chunk_words_def dir_words_def)
    then have "fs_lookup (fs s') (cwd (fs s') @ chunk_words g c) = None" by (simp add: fs' fs_lookup_prune)
    then have "fs_open_read (chunk_path g c) (fs s') = None"
      using resolve_join[OF proper_chunk_words[OF g(1), of c], of "fs s'"]
      by (simp add: fs_open_read_def chunk_path_join[OF g(3)] split: option.split)
    then have "get_result m' g c cat (fs s') = page_reply m' http_not_found ''{\"error\":\"404 Not Found\"}''"
      by (simp add: get_result_def)
    then show ?thesis using get_chunk[where depth = depth, OF rel' pre g(2)] by metis
  qed
  moreover have "fs_lookup (fs s') k = (if prefix (cwd (fs s) @ [''data'']) k then None else fs_lookup (fs s) k)" for k
    by (simp add: fs' fs_lookup_prune)
  ultimately show ?thesis using run print_storage_state_run[OF rel' pre(1)] by blast
qed

lemma delete_everything_witness:
  "\<exists>s'. serve_request (with_headers mhd0 '''' 0) 3 ''/remove-file'' ''DELETE'' [] node2
      = Inr (page_reply (with_headers mhd0 '''' 0) http_ok ''{\"message\":\"successfully deleted\"}'', s') \<and>
    fs_lookup (fs s') [''data'', ''a'', ''1''] = None \<and> print_storage_state s' = Inr ([(''a'', [1]), (''b'', [1])], s')"
proof -
  have dirs: "at_dir disk2 [''data'']" "fits_below ''data/'' disk2 [''data'']" "deep_enough disk2 [''data''] 3 (spare_fds disk2)"
    by (auto simp: at_dir_def proper_path_def proper_name_def fits_below_def deep_enough_def disk2_fds less_Suc_eq le_Suc_eq split: if_splits)
  let ?m = "with_headers mhd0 '''' 0"
  have m: "connection_value ?m ''X-Filename'' = Some ''''" "'''' \<notin> cat_names [(''a'', [1]), (''b'', [1])]"
    by simp_all
  have "fs node2 = disk2" "\<not> locked node2" "no_oom node2" "tree_ok disk2" "fs_quiet disk2" "cwd disk2 = []" by simp_all
  then show ?thesis using delete_everything[OF rel2 _ _ _ _ _ _ _ m, of 3] dirs by (auto simp: page_reply_def)
qed

text \<open>C37: the client asks for the deletion at the indices of the list of addresses, as hosts 0, 1, ..., not at the
  addresses: a node that none of these hosts leads to keeps all it has, whether it is listed or not. When the host 0
  leads to no node, nothing is deleted, and a file that is listed anywhere is reported as not deleted; with one address
  listed, whichever it is, the answer is that of the node the host 0 leads to, the client's own machine.\<close>

theorem client_delete_misses:
  assumes "c_master_ok k 0"
  shows "(\<forall>a. (\<forall>i < length (get_file_locations f (master w)). c_host k (show_nat i) \<noteq> a) \<longrightarrow>
      nodes (snd (deleteFile k f w)) a = nodes w a) \<and>
    (nodes w (c_host k ''0'') = None \<longrightarrow> deleteFile k f w = (get_file_locations f (master w) = [], w)) \<and>
    (length (get_file_locations f (master w)) = 1 \<longrightarrow> deleteFile k f w = delete_at k f [''0''] w)"
proof (intro conjI allI impI)
  show "nodes (snd (deleteFile k f w)) a = nodes w a"
    if "\<forall>i < length (get_file_locations f (master w)). c_host k (show_nat i) \<noteq> a" for a
    using that by (intro delete_reaches_hosts[OF assms]) simp
  show "deleteFile k f w = (get_file_locations f (master w) = [], w)" if "nodes w (c_host k ''0'') = None"
    by (rule delete_reaches_none[OF that assms])
  show "deleteFile k f w = delete_at k f [''0''] w" if "length (get_file_locations f (master w)) = 1"
    unfolding deleteFile_asked[OF assms] that by (simp add: show_nat_0)
qed

lemma client_delete_misses_witness:
  "nodes world1 ''10.0.0.2'' = Some node1 \<and> get_file_locations ''a'' (master world1) = [''10.0.0.2''] \<and>
    deleteFile cluster0 ''a'' world1 = (False, world1)"
  using client_delete_misses[of cluster0 "''a''" world1] world1_nodes world1_located by (simp add: cluster0_def)

text \<open>C38: an insertion of a new file that falls between the phases of a report makes the report free one block
  more than its array has: an access out of bounds, or of \<open>NULL\<close> when the catalogue was empty.\<close>

theorem report_after_insert:
  assumes "storage_rel s rs cat F" "\<not> locked s" "no_oom s" "cat_bounded cat"
  shows "cbind snapshot_mappings (\<lambda>(arr, n).
           cbind (insert_to_struct path c False) (\<lambda>_. release_mappings arr)) s
    = Inl (if cat = [] then NullDeref else OutOfBounds)"
  by (rule release_after_insert[OF assms])

lemma report_after_insert_witness:
  "cbind snapshot_mappings (\<lambda>(arr, n).
     cbind (insert_to_struct ''b'' 1 False) (\<lambda>_. release_mappings arr)) node1 = Inl OutOfBounds"
  using report_after_insert[OF rel1, of "''b''" 1] by simp

text \<open>C39: when the buffer of an upload cannot be enlarged, the request is given up and its record is freed,
  but the bytes received so far are not: their block stays allocated and nothing points to it.\<close>

theorem upload_out_of_memory:
  assumes "serving s rs cat con d bs F" "bs \<noteq> []" "oom s (brk s)"
  shows "\<exists>s'. append_upload con up s
      = Inr (\<lparr>mhd_yes = False, con_cls = NULL, upload_left = length up, queued = None\<rparr>, s') \<and>
    mem s' con = None \<and> mem s' d = Some (ByteB (map Some bs)) \<and> storage_rel s' rs cat (insert d F)"
  by (rule append_upload_leak[OF assms])

lemma upload_out_of_memory_witness:
  "\<exists>s'. append_upload 1 [9] upload_node
      = Inr (\<lparr>mhd_yes = False, con_cls = NULL, upload_left = 1, queued = None\<rparr>, s') \<and>
    mem s' 1 = None \<and> mem s' 2 = Some (ByteB [Some 7])"
  using upload_out_of_memory[OF serving_upload, of "[9]"] by (auto simp: upload_node_def)

text \<open>C40: a directory with an entry, whose path fills the buffer of the walk, cannot be removed: the path of the
  entry is cut to the directory's own, which is opened again and again, until the stack overflows or, with fewer
  descriptors than frames, \<open>opendir\<close> fails; then nothing has been removed.\<close>

theorem remove_long_path:
  assumes "length path = 1023" "fs_opendir path s = Some (l, [''.'', ''..''] @ names)"
    and "names \<noteq> []" "hd names \<noteq> ''.''" "hd names \<noteq> ''..''" "fs_lstat path s = Some FDir"
  shows "remove_directory depth fds path s = (if depth \<le> fds then Inl StackOverflow else Inr (- 1, s))"
  by (rule remove_directory_cut[OF assms])

lemma remove_long_path_witness: "remove_directory 8 5 (join_slash long_words) disk_long = Inr (- 1, disk_long)"
  using remove_long_path[OF long_path(1) long_open(1) _ _ _ long_open(2), of 8 5] by simp

end
